(* ===== verification/Pbus_Prelude.thy ===== *)
theory Pbus_Prelude
  imports Main "HOL-Library.Word"
begin

text \<open>
  The types and the C++ standard library facts that the components share: fixed-width
  integers, the exceptions of the program, the string searches of
  \<^verbatim>\<open>std::string\<close>, decimal printing and parsing (\<^verbatim>\<open>std::to_string\<close>,
  \<^verbatim>\<open>atoi\<close>, \<^verbatim>\<open>std::stoi\<close>), and copying into the middle of an array
  (\<^verbatim>\<open>std::copy_n\<close>).
\<close>

type_synonym u8 = "8 word"
type_synonym u16 = "16 word"
type_synonym u32 = "32 word"
type_synonym u64 = "64 word"
type_synonym bytes = "u8 list"

section \<open>Exceptions\<close>

text \<open>
  Every exception that the program throws or catches is derived from
  \<^verbatim>\<open>std::exception\<close>. \<open>Exception\<close> is the toolkit's own class,
  \<open>System_Exception\<close> its errno-carrying subclass, the others are the standard
  library's. A fallible operation returns \<open>exn + 'a\<close>, a fallible operation without a
  result an \<open>exn option\<close>.
\<close>

datatype exn =
    Exception string
  | System_Exception string
  | Runtime_Error string
  | Invalid_Argument string
  | Out_Of_Range string

primrec exn_what :: "exn \<Rightarrow> string" where
  "exn_what (Exception m) = m"
| "exn_what (System_Exception m) = m"
| "exn_what (Runtime_Error m) = m"
| "exn_what (Invalid_Argument m) = m"
| "exn_what (Out_Of_Range m) = m"

definition bind_exn :: "exn + 'a \<Rightarrow> ('a \<Rightarrow> exn + 'b) \<Rightarrow> exn + 'b" where
  "bind_exn r f = (case r of Inl e \<Rightarrow> Inl e | Inr x \<Rightarrow> f x)"

lemma bind_exn_simps [simp]:
  "bind_exn (Inl e) f = Inl e"
  "bind_exn (Inr x) f = f x"
  by (simp_all add: bind_exn_def)

lemma bind_exn_Inr_iff:
  "bind_exn r f = Inr y \<longleftrightarrow> (\<exists>x. r = Inr x \<and> f x = Inr y)"
  by (cases r) simp_all

lemma bind_exn_split:
  "P (bind_exn r f) \<longleftrightarrow> (\<forall>e. r = Inl e \<longrightarrow> P (Inl e)) \<and> (\<forall>x. r = Inr x \<longrightarrow> P (f x))"
  by (cases r) simp_all

section \<open>Searching in strings\<close>

primrec find_char :: "char \<Rightarrow> string \<Rightarrow> nat option" where
  "find_char c [] = None"
| "find_char c (x # xs) = (if x = c then Some 0 else map_option Suc (find_char c xs))"

definition rfind_char :: "char \<Rightarrow> string \<Rightarrow> nat option" where
  "rfind_char c s = map_option (\<lambda>i. length s - Suc i) (find_char c (rev s))"

lemma find_char_None [simp]: "find_char c s = None \<longleftrightarrow> c \<notin> set s"
  by (induction s) auto

lemma find_char_notin [simp]: "c \<notin> set s \<Longrightarrow> find_char c s = None"
  by simp

lemma find_char_append [simp]:
  "c \<notin> set xs \<Longrightarrow> find_char c (xs @ c # ys) = Some (length xs)"
  by (induction xs) auto

lemma find_char_SomeD:
  "find_char c s = Some i \<Longrightarrow>
     i < length s \<and> s = take i s @ c # drop (Suc i) s \<and> c \<notin> set (take i s)"
proof (induction s arbitrary: i)
  case Nil
  then show ?case by simp
next
  case (Cons x xs)
  then show ?case by (cases "x = c") auto
qed

lemma rfind_char_None [simp]: "rfind_char c s = None \<longleftrightarrow> c \<notin> set s"
  by (simp add: rfind_char_def)

lemma rfind_char_append [simp]:
  "c \<notin> set ys \<Longrightarrow> rfind_char c (xs @ c # ys) = Some (length xs)"
  by (simp add: rfind_char_def)

section \<open>Decimal numbers\<close>

definition digit_char :: "nat \<Rightarrow> char" where
  "digit_char d = char_of (48 + d)"

definition char_digit :: "char \<Rightarrow> nat" where
  "char_digit c = of_char c - 48"

definition is_digit :: "char \<Rightarrow> bool" where
  "is_digit c \<longleftrightarrow> 48 \<le> (of_char c :: nat) \<and> (of_char c :: nat) \<le> 57"

definition is_space :: "char \<Rightarrow> bool" where
  "is_space c \<longleftrightarrow> (of_char c :: nat) = 32 \<or> (9 \<le> (of_char c :: nat) \<and> (of_char c :: nat) \<le> 13)"

text \<open>\<^verbatim>\<open>std::to_string\<close> of an unsigned number.\<close>

fun dec :: "nat \<Rightarrow> string" where
  "dec n = (if n < 10 then [digit_char n] else dec (n div 10) @ [digit_char (n mod 10)])"

declare dec.simps [simp del]

definition digits_value :: "string \<Rightarrow> nat" where
  "digits_value s = foldl (\<lambda>a c. 10 * a + char_digit c) 0 s"

lemma of_char_digit_char: "d < 10 \<Longrightarrow> of_char (digit_char d) = 48 + d"
  by (simp add: digit_char_def)

lemma char_digit_digit_char [simp]: "d < 10 \<Longrightarrow> char_digit (digit_char d) = d"
  by (simp add: char_digit_def of_char_digit_char)

lemma is_digit_digit_char [simp]: "d < 10 \<Longrightarrow> is_digit (digit_char d)"
  by (simp add: is_digit_def of_char_digit_char)

lemma digit_char_inj: "a < 10 \<Longrightarrow> b < 10 \<Longrightarrow> digit_char a = digit_char b \<Longrightarrow> a = b"
  by (metis char_digit_digit_char)

lemma dec_digits: "c \<in> set (dec n) \<Longrightarrow> is_digit c"
proof (induction n rule: dec.induct)
  case (1 n)
  then show ?case by (subst (asm) dec.simps) (auto split: if_splits)
qed

lemma dec_not_Nil [simp]: "dec n \<noteq> []"
  by (subst dec.simps) simp

lemma digits_value_dec [simp]: "digits_value (dec n) = n"
proof (induction n rule: dec.induct)
  case (1 n)
  then show ?case
    by (subst dec.simps) (simp add: digits_value_def)
qed

lemma dec_inject [simp]: "dec m = dec n \<longleftrightarrow> m = n"
  by (metis digits_value_dec)

lemma not_is_digit_minus [simp]: "\<not> is_digit (CHR ''-'')"
  by (simp add: is_digit_def)

lemma minus_notin_dec [simp]: "CHR ''-'' \<notin> set (dec n)"
  using dec_digits by force

lemma slash_notin_dec [simp]: "CHR ''/'' \<notin> set (dec n)"
  using dec_digits by (force simp: is_digit_def)

lemma takeWhile_is_digit_dec [simp]: "takeWhile is_digit (dec n) = dec n"
  by (simp add: dec_digits)

section \<open>atoi and std::stoi\<close>

text \<open>
  Both skip white space, read an optional sign and then the longest run of digits.
  \<open>scan_int\<close> gives the value and whether there was a digit. On the platform of the
  program (Linux, glibc, 64-bit \<^verbatim>\<open>long\<close>) \<^verbatim>\<open>atoi(s)\<close> is
  \<^verbatim>\<open>(int) strtol(s, NULL, 10)\<close>: \<^verbatim>\<open>strtol\<close> saturates at the bounds of
  \<^verbatim>\<open>long\<close>, the cast keeps the low 32 bits. \<^verbatim>\<open>std::stoi\<close> throws where there is
  no digit and where the value is no \<^verbatim>\<open>int\<close>.
\<close>

definition scan_sign :: "string \<Rightarrow> bool \<times> string" where
  "scan_sign s =
     (case s of
        c # cs \<Rightarrow> if c = CHR ''-'' then (True, cs) else if c = CHR ''+'' then (False, cs) else (False, s)
      | [] \<Rightarrow> (False, s))"

definition scan_int :: "string \<Rightarrow> int \<times> bool" where
  "scan_int s =
     (let (neg, t) = scan_sign (dropWhile is_space s);
          ds = takeWhile is_digit t;
          v = int (digits_value ds)
      in (if neg then - v else v, ds \<noteq> []))"

definition clamp_long :: "int \<Rightarrow> int" where
  "clamp_long v = max (- (2 ^ 63)) (min (2 ^ 63 - 1) v)"

definition atoi :: "string \<Rightarrow> int" where
  "atoi s = sint (word_of_int (clamp_long (fst (scan_int s))) :: u32)"

definition stoi :: "string \<Rightarrow> exn + int" where
  "stoi s =
     (let (v, found) = scan_int s in
      if \<not> found then Inl (Invalid_Argument ''stoi'')
      else if v < - (2 ^ 31) \<or> 2 ^ 31 \<le> v then Inl (Out_Of_Range ''stoi'')
      else Inr v)"

lemma dec_first:
  obtains c cs where "dec n = c # cs" and "is_digit c"
  by (metis dec_digits dec_not_Nil list.exhaust list.set_intros(1))

lemma scan_int_dec: "scan_int (dec n) = (int n, True)"
proof -
  obtain c cs where d: "dec n = c # cs" and c: "is_digit c"
    by (rule dec_first)
  have sp: "\<not> is_space c" and "c \<noteq> CHR ''-''" and "c \<noteq> CHR ''+''"
    using c by (auto simp: is_digit_def is_space_def)
  then have "scan_sign (dropWhile is_space (dec n)) = (False, dec n)"
    by (simp add: d scan_sign_def)
  then show ?thesis
    by (simp add: scan_int_def)
qed

lemma word_of_int_atoi:
  "(word_of_int (atoi s) :: u32) = word_of_int (clamp_long (fst (scan_int s)))"
  by (simp add: atoi_def)

lemma clamp_long_id: "0 \<le> v \<Longrightarrow> v < 2 ^ 32 \<Longrightarrow> clamp_long v = v"
  by (simp add: clamp_long_def)

lemma word_of_int_atoi_dec_unat [simp]: "(word_of_int (atoi (dec (unat (v :: u32)))) :: u32) = v"
proof -
  have "uint v < 2 ^ 32"
    by (rule order_less_le_trans [OF unsigned_less]) simp
  then have "clamp_long (uint v) = uint v"
    by (intro clamp_long_id) simp_all
  then show ?thesis
    by (simp add: word_of_int_atoi scan_int_dec)
qed

lemma stoi_dec: "stoi (dec n) = (if n < 2 ^ 31 then Inr (int n) else Inl (Out_Of_Range ''stoi''))"
  by (auto simp: stoi_def scan_int_dec)

section \<open>Copying into an array\<close>

text \<open>
  \<^verbatim>\<open>std::copy_n(src, n, dst + off)\<close> for a source of exactly \<open>n\<close> bytes: the target keeps
  its length and its other bytes.
\<close>

definition copy_into :: "'a list \<Rightarrow> nat \<Rightarrow> 'a list \<Rightarrow> 'a list" where
  "copy_into dst off src = take off dst @ src @ drop (off + length src) dst"

lemma length_copy_into [simp]:
  "off + length src \<le> length dst \<Longrightarrow> length (copy_into dst off src) = length dst"
  by (simp add: copy_into_def)

lemma take_copy_into [simp]:
  "off + length src \<le> length dst \<Longrightarrow>
     take (off + length src) (copy_into dst off src) = take off dst @ src"
  by (simp add: copy_into_def)

lemma copy_into_Nil [simp]: "copy_into dst off [] = dst"
  by (simp add: copy_into_def)

lemma copy_into_front [simp]: "length hd_bytes = length src \<Longrightarrow> copy_into (hd_bytes @ rest) 0 src = src @ rest"
  by (simp add: copy_into_def)

section \<open>Insertion into a map that keeps the first value\<close>

text \<open>\<^verbatim>\<open>std::unordered_map::insert\<close> and \<^verbatim>\<open>emplace\<close> leave an existing entry as it is.\<close>

definition map_emplace :: "('k \<rightharpoonup> 'v) \<Rightarrow> 'k \<Rightarrow> 'v \<Rightarrow> ('k \<rightharpoonup> 'v)" where
  "map_emplace m k v = (case m k of None \<Rightarrow> m(k \<mapsto> v) | Some _ \<Rightarrow> m)"

lemma map_emplace_apply [simp]:
  "map_emplace m k v k' = (if k' = k \<and> m k = None then Some v else m k')"
  by (simp add: map_emplace_def split: option.split)

lemma map_emplace_idem [simp]: "map_emplace (map_emplace m k v) k v' = map_emplace m k v"
  by (simp add: map_emplace_def split: option.split)

lemma dom_map_emplace [simp]: "dom (map_emplace m k v) = insert k (dom m)"
  by (auto simp: dom_def)

end
