(* ===== verification/Toolkit.thy ===== *)
theory Toolkit
  imports Pbus_Prelude
begin

text \<open>
  The toolkit library is a git submodule: its code is not part of the repository, so what
  the program calls of it is a parameter of the model. \<open>toolkit\<close> is the record of those
  operations; every definition that uses one takes a \<open>toolkit\<close> as its argument. What the
  program relies on is stated by five predicates, which are hypotheses of the theorems
  that need them:

  \<^item> \<open>fmt_ok\<close>: \<^verbatim>\<open>text::StringOutputStream\<close> prints an unsigned number in decimal;
  \<^item> \<open>bson_ok\<close>: \<^verbatim>\<open>serialization::bson::ReadSingleValue\<close> reads back the value that
    \<^verbatim>\<open>serialization::Serialize\<close> wrote at its offset and moves the offset past it;
  \<^item> \<open>le_ok\<close>: \<^verbatim>\<open>LittleEndianDataInputStream::ReadU32\<close> reads back the four bytes of
    \<^verbatim>\<open>LittleEndianDataOutputStream::WriteU32\<close>;
  \<^item> \<open>buf_ok\<close>: \<^verbatim>\<open>ByteArray::Resize\<close> sets the length;
  \<^item> \<open>poll_ok\<close>: \<^verbatim>\<open>io::Poll::Modify\<close> succeeds for a socket that was added to the poll and
    throws for one that was not (\<^verbatim>\<open>epoll_ctl\<close> fails with \<^verbatim>\<open>ENOENT\<close>); \<^verbatim>\<open>Poll::Add\<close> succeeds for
    a new socket, \<^verbatim>\<open>Poll::Remove\<close> for one in the poll, and \<^verbatim>\<open>SetNonBlocking\<close> for a connected one.

  \<open>demo_toolkit\<close> at the end is a concrete instance for which all five are proved; the
  witnesses of the development are computed with it.
\<close>

section \<open>The operations\<close>

text \<open>
  A reader gets the bytes from its offset on (\<^verbatim>\<open>data\<close> from \<^verbatim>\<open>offset\<close>) and returns the value
  with the bytes after it (\<^verbatim>\<open>data\<close> from the new \<^verbatim>\<open>offset\<close>), or the exception it throws. The
  writers give the bytes that the output stream appends. \<open>tk_poll_modify\<close> is the outcome of
  \<^verbatim>\<open>Poll::Modify\<close> for a socket that is, or is not, registered; \<open>tk_poll_add\<close>, \<open>tk_poll_remove\<close> and
  \<open>tk_set_non_blocking\<close> are those of \<^verbatim>\<open>Poll::Add\<close> for a socket that is not, of \<^verbatim>\<open>Poll::Remove\<close> for one
  that is, and of \<^verbatim>\<open>SetNonBlocking\<close>.
\<close>

record toolkit =
  tk_fmt_uint :: "u32 \<Rightarrow> string"
  tk_put_u8 :: "u8 \<Rightarrow> bytes"
  tk_put_u16 :: "u16 \<Rightarrow> bytes"
  tk_put_u32 :: "u32 \<Rightarrow> bytes"
  tk_put_str :: "string \<Rightarrow> bytes"
  tk_put_undef :: bytes
  tk_get_u8 :: "bytes \<Rightarrow> exn + u8 \<times> bytes"
  tk_get_u16 :: "bytes \<Rightarrow> exn + u16 \<times> bytes"
  tk_get_u32 :: "bytes \<Rightarrow> exn + u32 \<times> bytes"
  tk_get_str :: "bytes \<Rightarrow> exn + string \<times> bytes"
  tk_get_undef :: "bytes \<Rightarrow> exn + bytes"
  tk_le_write :: "u32 \<Rightarrow> bytes"
  tk_le_read :: "bytes \<Rightarrow> u32"
  tk_resize :: "nat \<Rightarrow> bytes \<Rightarrow> bytes"
  tk_poll_modify :: "bool \<Rightarrow> exn option"
  tk_poll_add :: "exn option"
  tk_poll_remove :: "exn option"
  tk_set_non_blocking :: "exn option"

text \<open>
  The C++ types that cross the bus, and a value with its type.
  \<^verbatim>\<open>serialization::Undefined\<close> stands for the result of a \<^verbatim>\<open>void\<close> method.
\<close>

datatype wire_type = TU8 | TU16 | TU32 | TString | TUndefined

datatype wire_value = VU8 u8 | VU16 u16 | VU32 u32 | VString string | VUndefined

primrec type_of :: "wire_value \<Rightarrow> wire_type" where
  "type_of (VU8 _) = TU8"
| "type_of (VU16 _) = TU16"
| "type_of (VU32 _) = TU32"
| "type_of (VString _) = TString"
| "type_of VUndefined = TUndefined"

primrec ser_value :: "toolkit \<Rightarrow> wire_value \<Rightarrow> bytes" where
  "ser_value T (VU8 b) = tk_put_u8 T b"
| "ser_value T (VU16 w) = tk_put_u16 T w"
| "ser_value T (VU32 w) = tk_put_u32 T w"
| "ser_value T (VString s) = tk_put_str T s"
| "ser_value T VUndefined = tk_put_undef T"

text \<open>\<^verbatim>\<open>serialization::Serialize(writer, args...)\<close> appends its arguments one after the other.\<close>

definition serialize :: "toolkit \<Rightarrow> wire_value list \<Rightarrow> bytes" where
  "serialize T vs = concat (map (ser_value T) vs)"

definition map_fst_exn :: "('a \<Rightarrow> 'b) \<Rightarrow> exn + 'a \<times> bytes \<Rightarrow> exn + 'b \<times> bytes" where
  "map_fst_exn f r = bind_exn r (\<lambda>(x, rest). Inr (f x, rest))"

primrec read_value :: "toolkit \<Rightarrow> wire_type \<Rightarrow> bytes \<Rightarrow> exn + wire_value \<times> bytes" where
  "read_value T TU8 d = map_fst_exn VU8 (tk_get_u8 T d)"
| "read_value T TU16 d = map_fst_exn VU16 (tk_get_u16 T d)"
| "read_value T TU32 d = map_fst_exn VU32 (tk_get_u32 T d)"
| "read_value T TString d = map_fst_exn VString (tk_get_str T d)"
| "read_value T TUndefined d = bind_exn (tk_get_undef T d) (\<lambda>rest. Inr (VUndefined, rest))"

lemma serialize_simps [simp]:
  "serialize T [] = []"
  "serialize T (v # vs) = ser_value T v @ serialize T vs"
  "serialize T (vs @ ws) = serialize T vs @ serialize T ws"
  by (simp_all add: serialize_def)

section \<open>What the program relies on\<close>

definition fmt_ok :: "toolkit \<Rightarrow> bool" where
  "fmt_ok T \<longleftrightarrow> (\<forall>n. tk_fmt_uint T n = dec (unat n))"

definition bson_ok :: "toolkit \<Rightarrow> bool" where
  "bson_ok T \<longleftrightarrow>
     (\<forall>x rest. tk_get_u8 T (tk_put_u8 T x @ rest) = Inr (x, rest)) \<and>
     (\<forall>x rest. tk_get_u16 T (tk_put_u16 T x @ rest) = Inr (x, rest)) \<and>
     (\<forall>x rest. tk_get_u32 T (tk_put_u32 T x @ rest) = Inr (x, rest)) \<and>
     (\<forall>x rest. tk_get_str T (tk_put_str T x @ rest) = Inr (x, rest)) \<and>
     (\<forall>rest. tk_get_undef T (tk_put_undef T @ rest) = Inr rest)"

definition le_ok :: "toolkit \<Rightarrow> bool" where
  "le_ok T \<longleftrightarrow> (\<forall>n. length (tk_le_write T n) = 4 \<and> tk_le_read T (tk_le_write T n) = n)"

definition buf_ok :: "toolkit \<Rightarrow> bool" where
  "buf_ok T \<longleftrightarrow> (\<forall>n d. length (tk_resize T n d) = n)"

definition poll_ok :: "toolkit \<Rightarrow> bool" where
  "poll_ok T \<longleftrightarrow> tk_poll_modify T True = None \<and> tk_poll_modify T False \<noteq> None \<and>
     tk_poll_add T = None \<and> tk_poll_remove T = None \<and> tk_set_non_blocking T = None"

lemma poll_ok_simps [simp]:
  assumes "poll_ok T"
  shows "tk_poll_modify T True = None" and "tk_poll_add T = None" and "tk_poll_remove T = None" and "tk_set_non_blocking T = None"
  using assms by (simp_all add: poll_ok_def)

lemma fmt_ok_simp [simp]: "fmt_ok T \<Longrightarrow> tk_fmt_uint T n = dec (unat n)"
  by (simp add: fmt_ok_def)

lemma bson_ok_simps [simp]:
  assumes "bson_ok T"
  shows "tk_get_u8 T (tk_put_u8 T b @ rest) = Inr (b, rest)"
    and "tk_get_u16 T (tk_put_u16 T h @ rest) = Inr (h, rest)"
    and "tk_get_u32 T (tk_put_u32 T w @ rest) = Inr (w, rest)"
    and "tk_get_str T (tk_put_str T s @ rest) = Inr (s, rest)"
    and "tk_get_undef T (tk_put_undef T @ rest) = Inr rest"
  using assms by (simp_all add: bson_ok_def)

lemma bson_ok_end_simps [simp]:
  assumes "bson_ok T"
  shows "tk_get_u8 T (tk_put_u8 T b) = Inr (b, [])"
    and "tk_get_u16 T (tk_put_u16 T h) = Inr (h, [])"
    and "tk_get_u32 T (tk_put_u32 T w) = Inr (w, [])"
    and "tk_get_str T (tk_put_str T s) = Inr (s, [])"
    and "tk_get_undef T (tk_put_undef T) = Inr []"
  using bson_ok_simps [OF assms, where rest = "[]"] by simp_all

lemma le_ok_simps [simp]:
  assumes "le_ok T"
  shows "length (tk_le_write T n) = 4" and "tk_le_read T (tk_le_write T n) = n"
  using assms by (simp_all add: le_ok_def)

lemma buf_ok_simp [simp]: "buf_ok T \<Longrightarrow> length (tk_resize T n d) = n"
  by (simp add: buf_ok_def)

lemma read_value_ser [simp]:
  "bson_ok T \<Longrightarrow> read_value T (type_of v) (ser_value T v @ rest) = Inr (v, rest)"
  by (cases v) (simp_all add: map_fst_exn_def)

lemma read_value_ser_end [simp]:
  "bson_ok T \<Longrightarrow> read_value T (type_of v) (ser_value T v) = Inr (v, [])"
  using read_value_ser [of T v "[]"] by simp

lemma read_value_type: "read_value T t d = Inr (v, rest) \<Longrightarrow> type_of v = t"
  by (cases t) (auto simp: map_fst_exn_def bind_exn_Inr_iff)

section \<open>An instance\<close>

definition demo_le_write :: "u32 \<Rightarrow> bytes" where
  "demo_le_write n = map (\<lambda>i. word_of_nat (unat n div 256 ^ i)) [0, 1, 2, 3]"

fun demo_le_read :: "bytes \<Rightarrow> u32" where
  "demo_le_read (a # b # c # d # _) =
     word_of_nat (unat a + 256 * (unat b + 256 * (unat c + 256 * unat d)))"
| "demo_le_read _ = 0"

lemma base256_4:
  fixes n :: nat
  assumes "n < 2 ^ 32"
  shows "n div 256 ^ 0 mod 256 + 256 * (n div 256 ^ 1 mod 256 +
    256 * (n div 256 ^ 2 mod 256 + 256 * (n div 256 ^ 3 mod 256))) = n"
proof -
  have d: "n div 65536 = n div 256 div 256" "n div 16777216 = n div 256 div 256 div 256"
    by (simp_all add: div_mult2_eq [symmetric])
  have "n div 256 div 256 div 256 < 256"
    using assms by (simp add: div_mult2_eq [symmetric] div_less_iff_less_mult)
  then show ?thesis
    by (simp add: d)
qed

lemma length_demo_le_write [simp]: "length (demo_le_write n) = 4"
  by (simp add: demo_le_write_def)

lemma unat_byte: "unat (word_of_nat k :: u8) = k mod 256"
  by (simp add: unat_of_nat)

lemma demo_le: "demo_le_read (demo_le_write n @ rest) = n"
proof -
  have "unat n < 2 ^ 32"
    by (rule order_less_le_trans [OF unsigned_less]) simp
  then have "demo_le_read (demo_le_write n @ rest) = word_of_nat (unat n)"
    by (simp only: demo_le_write_def list.map append.simps demo_le_read.simps unat_byte base256_4)
  then show ?thesis by simp
qed

definition demo_u16_write :: "u16 \<Rightarrow> bytes" where
  "demo_u16_write h = map (\<lambda>i. word_of_nat (unat h div 256 ^ i)) [0, 1]"

fun demo_u16_read :: "bytes \<Rightarrow> u16" where
  "demo_u16_read (a # b # _) = word_of_nat (unat a + 256 * unat b)"
| "demo_u16_read _ = 0"

lemma demo_u16: "demo_u16_read (demo_u16_write h) = h"
proof -
  have "unat h < 65536"
    by (rule order_less_le_trans [OF unsigned_less]) simp
  then have "unat h div 256 < 256"
    by (simp add: div_less_iff_less_mult)
  then have "unat h div 256 ^ 0 mod 256 + 256 * (unat h div 256 ^ 1 mod 256) = unat h"
    by simp
  then have "demo_u16_read (demo_u16_write h) = word_of_nat (unat h)"
    by (simp only: demo_u16_write_def list.map demo_u16_read.simps unat_byte)
  then show ?thesis by simp
qed

lemma length_demo_u16_write [simp]: "length (demo_u16_write h) = 2"
  by (simp add: demo_u16_write_def)

fun demo_get_chars :: "bytes \<Rightarrow> (string \<times> bytes) option" where
  "demo_get_chars (b # d) =
     (if b = 0 then Some ([], d)
      else case d of
        [] \<Rightarrow> None
      | c # d' \<Rightarrow> map_option (\<lambda>(s, r). (char_of (unat c) # s, r)) (demo_get_chars d'))"
| "demo_get_chars [] = None"

definition demo_put_chars :: "string \<Rightarrow> bytes" where
  "demo_put_chars s = concat (map (\<lambda>c. [1, word_of_nat (of_char c)]) s) @ [0]"

lemma demo_chars: "demo_get_chars (demo_put_chars s @ rest) = Some (s, rest)"
  by (induction s) (simp_all add: demo_put_chars_def unat_of_nat)

definition demo_tagged :: "u8 \<Rightarrow> bytes \<Rightarrow> exn + bytes" where
  "demo_tagged tag d =
     (case d of [] \<Rightarrow> Inl (Exception ''unexpected end of data'')
      | t # d' \<Rightarrow> if t = tag then Inr d' else Inl (Exception ''unexpected tag''))"

definition demo_fixed :: "nat \<Rightarrow> bytes \<Rightarrow> exn + bytes \<times> bytes" where
  "demo_fixed n d =
     (if length d < n then Inl (Exception ''unexpected end of data'') else Inr (take n d, drop n d))"

definition demo_toolkit :: toolkit where
  "demo_toolkit =
     \<lparr>tk_fmt_uint = (\<lambda>n. dec (unat n)),
      tk_put_u8 = (\<lambda>b. [1, b]),
      tk_put_u16 = (\<lambda>h. 2 # demo_u16_write h),
      tk_put_u32 = (\<lambda>w. 3 # demo_le_write w),
      tk_put_str = (\<lambda>s. 4 # demo_put_chars s),
      tk_put_undef = [5],
      tk_get_u8 = (\<lambda>d. bind_exn (demo_tagged 1 d) (\<lambda>d.
        bind_exn (demo_fixed 1 d) (\<lambda>(x, r). Inr (hd x, r)))),
      tk_get_u16 = (\<lambda>d. bind_exn (demo_tagged 2 d) (\<lambda>d.
        bind_exn (demo_fixed 2 d) (\<lambda>(x, r). Inr (demo_u16_read x, r)))),
      tk_get_u32 = (\<lambda>d. bind_exn (demo_tagged 3 d) (\<lambda>d.
        bind_exn (demo_fixed 4 d) (\<lambda>(x, r). Inr (demo_le_read x, r)))),
      tk_get_str = (\<lambda>d. bind_exn (demo_tagged 4 d) (\<lambda>d.
        (case demo_get_chars d of None \<Rightarrow> Inl (Exception ''unterminated string'') | Some r \<Rightarrow> Inr r))),
      tk_get_undef = demo_tagged 5,
      tk_le_write = demo_le_write,
      tk_le_read = demo_le_read,
      tk_resize = (\<lambda>n d. take n d @ replicate (n - length d) 0),
      tk_poll_modify = (\<lambda>registered.
        if registered then None else Some (System_Exception ''epoll_ctl'')),
      tk_poll_add = None, tk_poll_remove = None, tk_set_non_blocking = None\<rparr>"

lemma demo_fmt_ok [simp]: "fmt_ok demo_toolkit"
  by (simp add: fmt_ok_def demo_toolkit_def)

lemma demo_le_ok [simp]: "le_ok demo_toolkit"
  using demo_le [where rest = "[]"] by (simp add: le_ok_def demo_toolkit_def demo_le_write_def)

lemma demo_buf_ok [simp]: "buf_ok demo_toolkit"
  by (auto simp: buf_ok_def demo_toolkit_def)

lemma demo_poll_ok [simp]: "poll_ok demo_toolkit"
  by (simp add: poll_ok_def demo_toolkit_def)

lemma demo_bson_ok [simp]: "bson_ok demo_toolkit"
  using demo_le [where rest = "[]"]
  by (simp add: bson_ok_def demo_toolkit_def demo_tagged_def demo_fixed_def demo_chars demo_u16)

end
