(* ===== verification/Hash_Table.thy ===== *)
theory Hash_Table
  imports Pbus_Prelude
begin

text \<open>
  The contract between the identifiers of the program and the \<^verbatim>\<open>std::unordered_map\<close>s keyed
  by them. \<open>hashed_key\<close> states what a key type's \<^verbatim>\<open>Equal\<close> and \<^verbatim>\<open>Hash\<close> must satisfy; inside
  it a bucketed table is shown to look up, emplace, assign and erase as a partial function does,
  and to survive a change of the number of its buckets. \<open>identifying_key\<close> adds that \<^verbatim>\<open>Equal\<close>
  is equality; then every run of operations on a table gives what it gives on a map.
  The theories of \<^verbatim>\<open>ClassId\<close> and \<^verbatim>\<open>ObjectId\<close> interpret it, which is why the other theories
  may model those tables by maps.
\<close>

type_synonym ('k, 'v) buckets = "('k \<times> 'v) list list"

definition bucket_index :: "('k \<Rightarrow> u64) \<Rightarrow> ('k, 'v) buckets \<Rightarrow> 'k \<Rightarrow> nat" where
  "bucket_index hash bs k = unat (hash k) mod length bs"

definition table_find :: "('k \<Rightarrow> 'k \<Rightarrow> bool) \<Rightarrow> ('k \<Rightarrow> u64) \<Rightarrow> ('k, 'v) buckets \<Rightarrow> 'k \<Rightarrow> 'v option" where
  "table_find eq hash bs k =
     (if bs = [] then None
      else map_option snd (List.find (\<lambda>(k', _). eq k' k) (bs ! bucket_index hash bs k)))"

definition table_emplace :: "('k \<Rightarrow> 'k \<Rightarrow> bool) \<Rightarrow> ('k \<Rightarrow> u64) \<Rightarrow> ('k, 'v) buckets \<Rightarrow> 'k \<Rightarrow> 'v \<Rightarrow> ('k, 'v) buckets" where
  "table_emplace eq hash bs k v =
     (case table_find eq hash bs k of
        Some _ \<Rightarrow> bs
      | None \<Rightarrow> (let i = bucket_index hash bs k in bs[i := (k, v) # bs ! i]))"

definition table_assign :: "('k \<Rightarrow> 'k \<Rightarrow> bool) \<Rightarrow> ('k \<Rightarrow> u64) \<Rightarrow> ('k, 'v) buckets \<Rightarrow> 'k \<Rightarrow> 'v \<Rightarrow> ('k, 'v) buckets" where
  "table_assign eq hash bs k v =
     (let i = bucket_index hash bs k in
      bs[i := (k, v) # filter (\<lambda>(k', _). \<not> eq k' k) (bs ! i)])"

definition table_erase :: "('k \<Rightarrow> 'k \<Rightarrow> bool) \<Rightarrow> ('k \<Rightarrow> u64) \<Rightarrow> ('k, 'v) buckets \<Rightarrow> 'k \<Rightarrow> ('k, 'v) buckets" where
  "table_erase eq hash bs k =
     (let i = bucket_index hash bs k in bs[i := filter (\<lambda>(k', _). \<not> eq k' k) (bs ! i)])"

text \<open>A table grows by moving its entries to new buckets.\<close>

definition table_rehash :: "('k \<Rightarrow> 'k \<Rightarrow> bool) \<Rightarrow> ('k \<Rightarrow> u64) \<Rightarrow> nat \<Rightarrow> ('k, 'v) buckets \<Rightarrow> ('k, 'v) buckets" where
  "table_rehash eq hash n bs = fold (\<lambda>(k, v) t. table_emplace eq hash t k v) (concat bs) (replicate (Suc n) [])"

text \<open>Every entry is in the bucket of its key.\<close>

definition bucketed :: "('k \<Rightarrow> u64) \<Rightarrow> ('k, 'v) buckets \<Rightarrow> bool" where
  "bucketed hash bs \<longleftrightarrow> bs \<noteq> [] \<and> (\<forall>i < length bs. \<forall>e \<in> set (bs ! i). bucket_index hash bs (fst e) = i)"

lemma bucket_index_update [simp]: "bucket_index hash (bs[i := x]) k = bucket_index hash bs k"
  by (simp add: bucket_index_def)

lemma bucket_index_less [simp]: "bs \<noteq> [] \<Longrightarrow> bucket_index hash bs k < length bs"
  by (simp add: bucket_index_def)

lemma find_filter_other:
  assumes "\<And>x. x \<in> set xs \<Longrightarrow> Q x \<Longrightarrow> P x"
  shows "List.find Q (filter P xs) = List.find Q xs"
  using assms by (induction xs) auto

lemma find_append:
  "List.find P (xs @ ys) = (case List.find P xs of None \<Rightarrow> List.find P ys | Some x \<Rightarrow> Some x)"
  by (induction xs) simp_all

locale hashed_key =
  fixes eq :: "'k \<Rightarrow> 'k \<Rightarrow> bool" and hash :: "'k \<Rightarrow> u64"
  assumes eq_refl: "eq a a"
    and eq_sym: "eq a b \<Longrightarrow> eq b a"
    and eq_trans: "eq a b \<Longrightarrow> eq b c \<Longrightarrow> eq a c"
    and eq_hash: "eq a b \<Longrightarrow> hash a = hash b"
begin

lemma same_bucket: "eq a b \<Longrightarrow> bucket_index hash bs a = bucket_index hash bs b"
  by (simp add: bucket_index_def eq_hash)

lemma find_congruent:
  fixes bs :: "('k, 'v) buckets"
  assumes ab: "eq a b"
  shows "table_find eq hash bs a = table_find eq hash bs b"
proof -
  have "(\<lambda>(k', _ :: 'v). eq k' a) = (\<lambda>(k', _ :: 'v). eq k' b)"
    using ab by (auto simp: fun_eq_iff intro: eq_trans eq_sym)
  then show ?thesis
    by (simp add: table_find_def same_bucket [OF ab])
qed

lemma find_emplace:
  fixes bs :: "('k, 'v) buckets"
  assumes "bs \<noteq> []"
  shows "table_find eq hash (table_emplace eq hash bs k v) k' =
    (if eq k k' \<and> table_find eq hash bs k = None then Some v else table_find eq hash bs k')"
proof (cases "table_find eq hash bs k")
  case None
  show ?thesis
  proof (cases "eq k k'")
    case True
    with assms None show ?thesis
      by (simp add: table_emplace_def table_find_def Let_def same_bucket [OF True])
  next
    case False
    with assms None show ?thesis
      by (simp add: table_emplace_def table_find_def Let_def nth_list_update)
  qed
next
  case (Some w)
  then show ?thesis by (simp add: table_emplace_def)
qed

lemma find_assign:
  fixes bs :: "('k, 'v) buckets"
  assumes "bs \<noteq> []"
  shows "table_find eq hash (table_assign eq hash bs k v) k' =
    (if eq k k' then Some v else table_find eq hash bs k')"
proof (cases "eq k k'")
  case True
  with assms show ?thesis
    by (simp add: table_assign_def table_find_def Let_def same_bucket [OF True])
next
  case False
  then have "List.find (\<lambda>(k'', _). eq k'' k') (filter (\<lambda>(k'', _). \<not> eq k'' k) xs) =
      List.find (\<lambda>(k'', _). eq k'' k') xs" for xs :: "('k \<times> 'v) list"
    by (intro find_filter_other) (auto intro: eq_trans eq_sym)
  with assms False show ?thesis
    by (simp add: table_assign_def table_find_def Let_def nth_list_update)
qed

lemma find_erase:
  fixes bs :: "('k, 'v) buckets"
  assumes "bs \<noteq> []"
  shows "table_find eq hash (table_erase eq hash bs k) k' = (if eq k k' then None else table_find eq hash bs k')"
proof (cases "eq k k'")
  case True
  have "List.find (\<lambda>(k'', _). eq k'' k') (filter (\<lambda>(k'', _). \<not> eq k'' k) xs) = None" for xs :: "('k \<times> 'v) list"
    using True by (auto simp: find_None_iff intro: eq_trans eq_sym)
  with assms True show ?thesis
    by (simp add: table_erase_def table_find_def Let_def same_bucket [OF True])
next
  case False
  then have "List.find (\<lambda>(k'', _). eq k'' k') (filter (\<lambda>(k'', _). \<not> eq k'' k) xs) =
      List.find (\<lambda>(k'', _). eq k'' k') xs" for xs :: "('k \<times> 'v) list"
    by (intro find_filter_other) (auto intro: eq_trans eq_sym)
  with assms False show ?thesis
    by (simp add: table_erase_def table_find_def Let_def nth_list_update)
qed

lemma bucketed_emplace: "bucketed hash bs \<Longrightarrow> bucketed hash (table_emplace eq hash bs k v)"
  by (auto simp: bucketed_def table_emplace_def Let_def nth_list_update split: option.split if_splits)

lemma bucketed_assign: "bucketed hash bs \<Longrightarrow> bucketed hash (table_assign eq hash bs k v)"
  by (auto simp: bucketed_def table_assign_def Let_def nth_list_update split: if_splits)

lemma bucketed_erase: "bucketed hash bs \<Longrightarrow> bucketed hash (table_erase eq hash bs k)"
  by (auto simp: bucketed_def table_erase_def Let_def nth_list_update split: if_splits)

lemma bucketed_new: "bucketed hash (replicate (Suc n) [])"
  by (simp add: bucketed_def del: replicate_Suc)

lemma bucketed_fold:
  "bucketed hash t \<Longrightarrow> bucketed hash (fold (\<lambda>(k, v) t. table_emplace eq hash t k v) es t)"
  by (induction es arbitrary: t) (auto intro: bucketed_emplace)

lemma find_fold:
  fixes es :: "('k \<times> 'v) list"
  shows "bucketed hash t \<Longrightarrow> table_find eq hash (fold (\<lambda>(k, v) t. table_emplace eq hash t k v) es t) k =
    (case table_find eq hash t k of Some v \<Rightarrow> Some v | None \<Rightarrow> map_option snd (List.find (\<lambda>(k', _). eq k' k) es))"
proof (induction es arbitrary: t)
  case (Cons e es)
  obtain k0 v0 where e: "e = (k0, v0)" by (cases e)
  have "t \<noteq> []" using Cons.prems by (simp add: bucketed_def)
  from find_emplace [OF this, of k0 v0 k] Cons.IH [OF bucketed_emplace [OF Cons.prems], of k0 v0] show ?case
    using find_congruent [of k0 k t] by (auto simp: e split: option.split)
qed (simp split: option.split)

lemma find_concat:
  assumes "i < length xss" and "\<And>j x. j < length xss \<Longrightarrow> x \<in> set (xss ! j) \<Longrightarrow> P x \<Longrightarrow> j = i"
  shows "List.find P (concat xss) = List.find P (xss ! i)"
  using assms
proof (induction xss arbitrary: i)
  case (Cons xs xss)
  show ?case
  proof (cases i)
    case 0
    have "List.find P (concat xss) = None"
    proof (rule ccontr)
      assume "List.find P (concat xss) \<noteq> None"
      then obtain x where "x \<in> set (concat xss)" "P x"
        by (auto simp: find_None_iff)
      then obtain j where "j < length xss" "x \<in> set (xss ! j)"
        by (metis UN_E in_set_conv_nth set_concat)
      with Cons.prems(2) [of "Suc j" x] \<open>P x\<close> 0 show False by simp
    qed
    then show ?thesis
      by (simp add: 0 find_append split: option.split)
  next
    case (Suc k)
    have none: "\<not> P x" if "x \<in> set xs" for x
      using Cons.prems(2) [of 0 x] that Suc by auto
    then have "List.find P xs = None"
      by (auto simp: find_None_iff)
    moreover have "j = k" if "j < length xss" "x \<in> set (xss ! j)" "P x" for j x
      using Cons.prems(2) [of "Suc j" x] that Suc by simp
    then have "List.find P (concat xss) = List.find P (xss ! k)"
      using Cons.prems(1) Suc by (intro Cons.IH) simp_all
    ultimately show ?thesis
      by (simp add: Suc find_append)
  qed
qed simp

lemma find_rehash:
  fixes bs :: "('k, 'v) buckets"
  assumes "bucketed hash bs"
  shows "table_find eq hash (table_rehash eq hash n bs) k = table_find eq hash bs k"
proof -
  have "j = bucket_index hash bs k" if "j < length bs" "e \<in> set (bs ! j)" "eq (fst e) k" for j e
    using that assms same_bucket [OF that(3), of bs] by (simp add: bucketed_def)
  then have "List.find (\<lambda>(k', _). eq k' k) (concat bs) = List.find (\<lambda>(k', _). eq k' k) (bs ! bucket_index hash bs k)"
    using assms by (intro find_concat) (auto simp: bucketed_def)
  moreover have "table_find eq hash (replicate (Suc n) []) k = (None :: 'v option)"
    by (simp add: table_find_def nth_replicate [of _ "Suc n"] bucket_index_def del: replicate_Suc)
  ultimately show ?thesis
    using assms find_fold [OF bucketed_new [of n], of "concat bs" k]
    by (simp add: table_rehash_def table_find_def bucketed_def del: replicate_Suc)
qed

end

section \<open>Runs\<close>

text \<open>
  The operations that the program uses on its tables, and the growth of a table, which the
  library does at times of its own. The result is what the operation finds.
\<close>

datatype ('k, 'v) table_op =
    Find 'k
  | Emplace 'k 'v
  | Assign 'k 'v
  | Erase 'k
  | Rehash nat

primrec table_step ::
  "('k \<Rightarrow> 'k \<Rightarrow> bool) \<Rightarrow> ('k \<Rightarrow> u64) \<Rightarrow> ('k, 'v) table_op \<Rightarrow> ('k, 'v) buckets \<Rightarrow> 'v option \<times> ('k, 'v) buckets" where
  "table_step eq hash (Find k) bs = (table_find eq hash bs k, bs)"
| "table_step eq hash (Emplace k v) bs = (table_find eq hash bs k, table_emplace eq hash bs k v)"
| "table_step eq hash (Assign k v) bs = (table_find eq hash bs k, table_assign eq hash bs k v)"
| "table_step eq hash (Erase k) bs = (table_find eq hash bs k, table_erase eq hash bs k)"
| "table_step eq hash (Rehash n) bs = (None, table_rehash eq hash n bs)"

primrec map_step :: "('k, 'v) table_op \<Rightarrow> ('k \<rightharpoonup> 'v) \<Rightarrow> 'v option \<times> ('k \<rightharpoonup> 'v)" where
  "map_step (Find k) m = (m k, m)"
| "map_step (Emplace k v) m = (m k, map_emplace m k v)"
| "map_step (Assign k v) m = (m k, m(k \<mapsto> v))"
| "map_step (Erase k) m = (m k, m(k := None))"
| "map_step (Rehash n) m = (None, m)"

primrec run_ops :: "('op \<Rightarrow> 's \<Rightarrow> 'r \<times> 's) \<Rightarrow> 'op list \<Rightarrow> 's \<Rightarrow> 'r list" where
  "run_ops step [] s = []"
| "run_ops step (op # ops) s = (case step op s of (r, s') \<Rightarrow> r # run_ops step ops s')"

text \<open>Two implementations of the same operations whose states are related give the same results.\<close>

lemma run_ops_simulation:
  assumes "\<And>op s t. R s t \<Longrightarrow> fst (step1 op s) = fst (step2 op t) \<and> R (snd (step1 op s)) (snd (step2 op t))"
  shows "R s t \<Longrightarrow> run_ops step1 ops s = run_ops step2 ops t"
proof (induction ops arbitrary: s t)
  case (Cons op ops)
  from assms [OF Cons.prems, of op] Cons.IH show ?case
    by (simp add: case_prod_unfold)
qed simp

locale identifying_key = hashed_key +
  assumes eq_identical: "eq a b \<Longrightarrow> a = b"
begin

definition represents :: "('a, 'v) buckets \<Rightarrow> ('a \<rightharpoonup> 'v) \<Rightarrow> bool" where
  "represents bs m \<longleftrightarrow> bucketed hash bs \<and> table_find eq hash bs = m"

lemma eq_iff: "eq a b \<longleftrightarrow> a = b"
  using eq_identical eq_refl by blast

lemma step_represents:
  fixes bs :: "('a, 'v) buckets"
  assumes "represents bs m"
  shows "fst (table_step eq hash op bs) = fst (map_step op m) \<and>
    represents (snd (table_step eq hash op bs)) (snd (map_step op m))"
proof -
  have bs: "bucketed hash bs" "bs \<noteq> []" and m: "m = table_find eq hash bs"
    using assms by (auto simp: represents_def bucketed_def)
  have grown: "bucketed hash (table_rehash eq hash n bs)" for n
    unfolding table_rehash_def by (rule bucketed_fold [OF bucketed_new])
  show ?thesis
  proof (cases op)
    case (Rehash n)
    then show ?thesis
      using find_rehash [OF bs(1), of n] grown [of n] by (simp add: represents_def m fun_eq_iff)
  qed (use bs in \<open>auto simp: represents_def m fun_eq_iff eq_iff map_emplace_def find_emplace find_assign find_erase
      bucketed_emplace bucketed_assign bucketed_erase split: option.split\<close>)
qed

lemma tables_run_as_maps:
  "run_ops (table_step eq hash) ops (replicate (Suc n) []) = run_ops map_step ops (Map.empty :: 'a \<rightharpoonup> 'v)"
proof (rule run_ops_simulation [where R = represents])
  have "table_find eq hash (replicate (Suc n) []) = (Map.empty :: 'a \<rightharpoonup> 'v)"
    by (rule ext) (simp add: table_find_def nth_replicate [of _ "Suc n"] bucket_index_def del: replicate_Suc)
  with bucketed_new show "represents (replicate (Suc n) []) (Map.empty :: 'a \<rightharpoonup> 'v)"
    by (simp add: represents_def del: replicate_Suc)
qed (rule step_represents)

end

end
