(* ===== verification/Class_Id.thy ===== *)
theory Class_Id
  imports Toolkit Hash_Table
begin

text \<open>
  \<^verbatim>\<open>pbus::ClassId\<close> (src/src/lib/pbus/ClassId.h and ClassId.cpp), the name and version of an
  interface; \<^verbatim>\<open>ServiceId\<close> is the same type. The constructor parses \<^verbatim>\<open>name-version\<close>.
\<close>

record class_id =
  Name :: string
  Version :: u32

type_synonym service_id = class_id

text \<open>
  \<^verbatim>\<open>ClassId(const std::string & name, uint version = 1)\<close>. \<^verbatim>\<open>Version\<close> is unsigned: the value
  of \<^verbatim>\<open>atoi\<close> is converted modulo \<open>2 ^ 32\<close>, and \<^verbatim>\<open>Version <= 0\<close> holds of 0 only. Without a
  dash in \<open>name\<close> the code stores 1, whatever \<open>version\<close> is.
\<close>

definition mk_class_id :: "string \<Rightarrow> u32 \<Rightarrow> exn + class_id" where
  "mk_class_id name version =
     (case find_char (CHR ''-'') name of
        Some pos \<Rightarrow>
          (let v = word_of_int (atoi (drop (pos + 1) name)) in
           if v \<le> 0 then Inl (Exception ''invalid version'')
           else Inr \<lparr>Name = take pos name, Version = v\<rparr>)
      | None \<Rightarrow> Inr \<lparr>Name = name, Version = 1\<rparr>)"

definition class_id_eq :: "class_id \<Rightarrow> class_id \<Rightarrow> bool" where
  "class_id_eq a b \<longleftrightarrow> Version a = Version b \<and> Name a = Name b"

definition class_id_neq :: "class_id \<Rightarrow> class_id \<Rightarrow> bool" where
  "class_id_neq a b \<longleftrightarrow> \<not> class_id_eq a b"

text \<open>
  \<^verbatim>\<open>ClassId::Hash\<close>: the two \<^verbatim>\<open>std::hash\<close> functions are the library's, \<^verbatim>\<open>CombineHash\<close> is the
  toolkit's.
\<close>

definition class_id_hash ::
  "(string \<Rightarrow> u64) \<Rightarrow> (u32 \<Rightarrow> u64) \<Rightarrow> (u64 \<Rightarrow> u64 \<Rightarrow> u64) \<Rightarrow> class_id \<Rightarrow> u64" where
  "class_id_hash name_hash version_hash combine i = combine (name_hash (Name i)) (version_hash (Version i))"

definition class_id_to_string :: "toolkit \<Rightarrow> class_id \<Rightarrow> string" where
  "class_id_to_string T i = Name i @ ''-'' @ tk_fmt_uint T (Version i)"

text \<open>\<^verbatim>\<open>ClassId::Write\<close>: what \<^verbatim>\<open>Serialize(out, Name, Version)\<close> writes.\<close>

definition class_id_write :: "class_id \<Rightarrow> wire_value list" where
  "class_id_write i = [VString (Name i), VU32 (Version i)]"

definition class_id_from_string :: "string \<Rightarrow> exn + class_id" where
  "class_id_from_string str =
     (case find_char (CHR ''-'') str of
        None \<Rightarrow> Inl (Exception ''no version in service id'')
      | Some at_pos \<Rightarrow>
          bind_exn (stoi (drop (at_pos + 1) str)) (\<lambda>v.
            mk_class_id (take at_pos str) (word_of_int v)))"

section \<open>Equality and hashing\<close>

lemma class_id_eq_iff [simp]: "class_id_eq a b \<longleftrightarrow> a = b"
  by (cases a; cases b) (auto simp: class_id_eq_def)

lemma class_id_neq_iff [simp]: "class_id_neq a b \<longleftrightarrow> a \<noteq> b"
  by (simp add: class_id_neq_def)

interpretation class_key: identifying_key class_id_eq "class_id_hash nh vh comb" for nh vh comb
  by unfold_locales auto

section \<open>Well-formed identifiers\<close>

text \<open>What every constructed identifier satisfies: no dash in the name, a version other than 0.\<close>

definition class_id_wf :: "class_id \<Rightarrow> bool" where
  "class_id_wf i \<longleftrightarrow> CHR ''-'' \<notin> set (Name i) \<and> Version i \<noteq> 0"

lemma mk_class_id_plain:
  "CHR ''-'' \<notin> set n \<Longrightarrow> mk_class_id n v = Inr \<lparr>Name = n, Version = 1\<rparr>"
  by (simp add: mk_class_id_def)

lemma mk_class_id_dashed:
  "CHR ''-'' \<notin> set n \<Longrightarrow> mk_class_id (n @ CHR ''-'' # s) v =
     (let w = word_of_int (atoi s) in
      if w = 0 then Inl (Exception ''invalid version'') else Inr \<lparr>Name = n, Version = w\<rparr>)"
  by (simp add: mk_class_id_def Let_def)

lemma dash_cases:
  obtains "CHR ''-'' \<notin> set s"
  | n t where "s = n @ CHR ''-'' # t" and "CHR ''-'' \<notin> set n"
  by (metis split_list_first)

lemma class_id_to_string_eq:
  "fmt_ok T \<Longrightarrow> class_id_to_string T i = Name i @ CHR ''-'' # dec (unat (Version i))"
  by (simp add: class_id_to_string_def)

lemma class_id_eqI: "Name a = Name b \<Longrightarrow> Version a = Version b \<Longrightarrow> a = (b :: class_id)"
  by (cases a; cases b) simp

lemma class_id_to_string_split:
  assumes "m @ CHR ''-'' # dec a = n @ CHR ''-'' # dec b"
  shows "m = n \<and> a = b"
proof -
  have "rfind_char (CHR ''-'') (m @ CHR ''-'' # dec a) = Some (length n)"
    by (simp only: assms) simp
  then have "length m = length n" by simp
  with assms show ?thesis by simp
qed

lemma class_id_reparse:
  "fmt_ok T \<Longrightarrow> class_id_wf i \<Longrightarrow> mk_class_id (class_id_to_string T i) v = Inr i"
  by (simp add: class_id_to_string_eq class_id_wf_def mk_class_id_dashed Let_def)

section \<open>Properties\<close>

text \<open>
  The constructor establishes the invariant of identifiers. Whatever the string and the
  version argument, a constructed identifier has no dash in its name and a version other
  than 0.
\<close>

lemma mk_class_id_wf: "mk_class_id s v = Inr i \<Longrightarrow> class_id_wf i"
  by (cases s rule: dash_cases)
    (auto simp: mk_class_id_plain mk_class_id_dashed class_id_wf_def Let_def split: if_splits)


text \<open>
  Printing an identifier and constructing one from the text gives the identifier back,
  for every well-formed identifier and whatever the version argument is. This is the
  round trip \<^verbatim>\<open>Session::GetService\<close> makes in \<^verbatim>\<open>Get(classId.ToString())\<close>.
\<close>

lemma class_id_print_parse:
  assumes "fmt_ok T" and "class_id_wf i"
  shows "mk_class_id (class_id_to_string T i) v = Inr i"
  by (rule class_id_reparse [OF assms])

lemma class_id_print_parse_witness:
  "mk_class_id (class_id_to_string demo_toolkit \<lparr>Name = ''system.Service'', Version = 4294967295\<rparr>) 5 =
     Inr \<lparr>Name = ''system.Service'', Version = 4294967295\<rparr>"
  by (rule class_id_print_parse) (simp_all add: class_id_wf_def)

text \<open>
  \<^verbatim>\<open>ClassId::FromString\<close> loses the version. Every identifier it returns has version 1,
  because the constructor ignores its version argument; what it parses from the printed
  form of an identifier of another version is a different identifier.
\<close>

lemma class_id_from_string_version:
  assumes "fmt_ok T" and "class_id_wf i"
  shows "class_id_from_string (class_id_to_string T i) =
    (if unat (Version i) < 2 ^ 31 then Inr (i\<lparr>Version := 1\<rparr>) else Inl (Out_Of_Range ''stoi''))"
  using assms
  by (simp add: class_id_from_string_def class_id_to_string_eq class_id_wf_def stoi_dec mk_class_id_plain)


text \<open>
  A negative version in the text is accepted: \<^verbatim>\<open>Version <= 0\<close> is tested after the
  conversion to an unsigned number, so only 0 is refused.
\<close>

lemma class_id_negative_version:
  assumes "CHR ''-'' \<notin> set n" and "0 < k" and "k < 2 ^ 31"
  shows "mk_class_id (n @ ''--'' @ dec k) v = Inr \<lparr>Name = n, Version = word_of_int (- int k)\<rparr>"
proof -
  have "scan_int (CHR ''-'' # dec k) = (- int k, True)"
    by (simp add: scan_int_def scan_sign_def is_space_def)
  then have a: "(word_of_int (atoi (CHR ''-'' # dec k)) :: u32) = word_of_int (- int k)"
    using assms(3) by (simp add: word_of_int_atoi clamp_long_def)
  have "(word_of_int (- int k) :: u32) \<noteq> 0"
    using assms(2,3) by (simp add: word_of_nat_eq_0_iff nat_dvd_not_less)
  with assms(1) show ?thesis
    by (simp add: mk_class_id_dashed Let_def a)
qed

end
