(* ===== verification/Object_Id.thy ===== *)
theory Object_Id
  imports Class_Id
begin

text \<open>
  \<^verbatim>\<open>pbus::ObjectId\<close> and \<^verbatim>\<open>pbus::MethodId\<close> (src/src/lib/pbus/ObjectId.h, ObjectId.cpp,
  MethodId.h), the object factories of ComponentFactory.h that number the objects of a
  class, and the service registry of the service manager.
\<close>

record object_id =
  Type :: class_id
  Obj_Id :: u32

definition mk_object_id :: "class_id \<Rightarrow> u32 \<Rightarrow> object_id" where
  "mk_object_id t i = \<lparr>Type = t, Obj_Id = i\<rparr>"

definition object_id_eq :: "object_id \<Rightarrow> object_id \<Rightarrow> bool" where
  "object_id_eq a b \<longleftrightarrow> class_id_eq (Type a) (Type b) \<and> Obj_Id a = Obj_Id b"

definition object_id_neq :: "object_id \<Rightarrow> object_id \<Rightarrow> bool" where
  "object_id_neq a b \<longleftrightarrow> \<not> object_id_eq a b"

definition object_id_hash ::
  "(class_id \<Rightarrow> u64) \<Rightarrow> (u32 \<Rightarrow> u64) \<Rightarrow> (u64 \<Rightarrow> u64 \<Rightarrow> u64) \<Rightarrow> object_id \<Rightarrow> u64" where
  "object_id_hash type_hash id_hash combine i = combine (type_hash (Type i)) (id_hash (Obj_Id i))"

definition object_id_to_string :: "toolkit \<Rightarrow> object_id \<Rightarrow> string" where
  "object_id_to_string T i = class_id_to_string T (Type i) @ ''/'' @ tk_fmt_uint T (Obj_Id i)"

definition object_id_write :: "object_id \<Rightarrow> wire_value list" where
  "object_id_write i = class_id_write (Type i) @ [VU32 (Obj_Id i)]"

text \<open>\<^verbatim>\<open>MethodId\<close>: the class a method belongs to and its name.\<close>

record method_id =
  Method_Service :: class_id
  Method_Name :: string

definition method_id_to_string :: "toolkit \<Rightarrow> method_id \<Rightarrow> string" where
  "method_id_to_string T m = class_id_to_string T (Method_Service m) @ ''::'' @ Method_Name m"

section \<open>Equality and hashing\<close>

lemma object_id_eq_iff [simp]: "object_id_eq a b \<longleftrightarrow> a = b"
  by (cases a; cases b) (auto simp: object_id_eq_def)

lemma object_id_neq_iff [simp]: "object_id_neq a b \<longleftrightarrow> a \<noteq> b"
  by (simp add: object_id_neq_def)

interpretation object_key: identifying_key object_id_eq "object_id_hash th ih comb" for th ih comb
  by unfold_locales auto

lemma mk_object_id_simps [simp]:
  "Type (mk_object_id t i) = t" "Obj_Id (mk_object_id t i) = i"
  by (simp_all add: mk_object_id_def)

section \<open>ComponentFactory\<close>

text \<open>
  \<^verbatim>\<open>ComponentFactory<Component>\<close>: the proxy factory of a class. \<^verbatim>\<open>CreateRoot\<close> makes object 0,
  \<^verbatim>\<open>Create\<close> the next number of a 32-bit counter that starts at 1. A component is given by
  its origin and its identifier. \<open>cf_class\<close> is the interface's \<^verbatim>\<open>ClassId\<close>.
\<close>

record component_factory =
  cf_service :: service_id
  cf_class :: class_id
  cf_next :: u32

definition mk_component_factory :: "class_id \<Rightarrow> service_id \<Rightarrow> component_factory" where
  "mk_component_factory cls service = \<lparr>cf_service = service, cf_class = cls, cf_next = 1\<rparr>"

definition cf_create_root :: "component_factory \<Rightarrow> service_id \<times> object_id" where
  "cf_create_root f = (cf_service f, mk_object_id (cf_class f) 0)"

definition cf_create :: "component_factory \<Rightarrow> (service_id \<times> object_id) \<times> component_factory" where
  "cf_create f = ((cf_service f, mk_object_id (cf_class f) (cf_next f)), f\<lparr>cf_next := cf_next f + 1\<rparr>)"

fun cf_create_many :: "nat \<Rightarrow> component_factory \<Rightarrow> (service_id \<times> object_id) list" where
  "cf_create_many 0 f = []"
| "cf_create_many (Suc n) f = (let (c, f') = cf_create f in c # cf_create_many n f')"

lemma cf_create_many_eq:
  "cf_create_many n f =
     map (\<lambda>k. (cf_service f, mk_object_id (cf_class f) (cf_next f + word_of_nat k))) [0..<n]"
proof (induction n arbitrary: f)
  case 0
  then show ?case by simp
next
  case (Suc n)
  then show ?case
    by (simp add: cf_create_def upt_conv_Cons map_Suc_upt [symmetric] ac_simps del: upt_Suc)
qed

section \<open>Properties\<close>

text \<open>
  The objects that a component factory creates, the root object included, have pairwise
  distinct identifiers as long as fewer than \<open>2 ^ 32\<close> are created: the counter does not
  come back to 0 or repeat.
\<close>

lemma component_factory_ids_distinct:
  assumes "n < 2 ^ 32"
  shows "distinct (map (Obj_Id \<circ> snd)
    (cf_create_root (mk_component_factory cls service) # cf_create_many n (mk_component_factory cls service)))"
proof -
  have "map (Obj_Id \<circ> snd) (cf_create_root (mk_component_factory cls service) #
      cf_create_many n (mk_component_factory cls service)) = map word_of_nat [0..<Suc n]"
    by (simp add: cf_create_many_eq cf_create_root_def mk_component_factory_def comp_def
        upt_conv_Cons map_Suc_upt [symmetric] del: upt_Suc)
  moreover have "inj_on (word_of_nat :: nat \<Rightarrow> u32) {0..<Suc n}"
    using assms by (auto intro!: inj_onI simp: word_of_nat_eq_iff take_bit_nat_eq_self)
  ultimately show ?thesis
    by (simp only: distinct_map distinct_upt set_upt simp_thms)
qed

lemma component_factory_ids_distinct_witness:
  "distinct (map (Obj_Id \<circ> snd)
    (cf_create_root (mk_component_factory \<lparr>Name = ''a'', Version = 1\<rparr> \<lparr>Name = ''b'', Version = 1\<rparr>) #
     cf_create_many 3 (mk_component_factory \<lparr>Name = ''a'', Version = 1\<rparr> \<lparr>Name = ''b'', Version = 1\<rparr>)))"
  by (rule component_factory_ids_distinct) simp

end
