(* ===== verification/Response_Parser.thy ===== *)
theory Response_Parser
  imports Toolkit
begin

text \<open>
  \<^verbatim>\<open>IResponseParser\<close>, \<^verbatim>\<open>BaseResponseParser\<close>, \<^verbatim>\<open>ResponseParser<ResultType>\<close> and
  \<^verbatim>\<open>ResponseParser<void>\<close> (src/src/lib/pbus/ResponseParser.h): the slot that a caller leaves
  for the answer to its request. The interface is the locale \<open>response_slot\<close>; both classes
  interpret it.
\<close>

section \<open>The interface\<close>

text \<open>
  What the session does with a slot when an answer arrives: a result is parsed, and if
  parsing throws, the exception takes the result's place; an exception is stored.
\<close>

datatype answer = Result_Data bytes | Remote_Exception exn

primrec deliver ::
  "(bytes \<Rightarrow> 'p \<Rightarrow> (exn + bytes) \<times> 'p) \<Rightarrow> (exn \<Rightarrow> 'p \<Rightarrow> 'p) \<Rightarrow> answer \<Rightarrow> 'p \<Rightarrow> 'p" where
  "deliver parse set_exn (Result_Data d) p =
     (case parse d p of (Inl e, p') \<Rightarrow> set_exn e p' | (Inr _, p') \<Rightarrow> p')"
| "deliver parse set_exn (Remote_Exception e) p = set_exn e p"

locale response_slot =
  fixes parse :: "bytes \<Rightarrow> 'p \<Rightarrow> (exn + bytes) \<times> 'p"
    and set_exn :: "exn \<Rightarrow> 'p \<Rightarrow> 'p"
    and get_exn :: "'p \<Rightarrow> exn option"
    and finished :: "'p \<Rightarrow> bool"
  assumes parse_ok: "parse d p = (Inr rest, p') \<Longrightarrow> finished p' \<and> get_exn p' = get_exn p"
    and parse_throws: "parse d p = (Inl e, p') \<Longrightarrow> p' = p"
    and set_exn_finished: "finished (set_exn e p)"
    and set_exn_get: "get_exn (set_exn e p) = Some e"
begin

lemma deliver_finished: "finished (deliver parse set_exn a p)"
  by (cases a) (auto simp: set_exn_finished dest: parse_ok split: prod.split sum.split)

lemma deliver_exn:
  "get_exn (deliver parse set_exn a p) =
     (case a of
        Result_Data d \<Rightarrow> (case fst (parse d p) of Inl e \<Rightarrow> Some e | Inr _ \<Rightarrow> get_exn p)
      | Remote_Exception e \<Rightarrow> Some e)"
  by (cases a) (auto simp: set_exn_get dest: parse_ok split: prod.split sum.split)

lemma deliver_all_finished:
  "finished p \<or> as \<noteq> [] \<Longrightarrow> finished (fold (deliver parse set_exn) as p)"
  by (induction as arbitrary: p) (auto simp: deliver_finished)

end

section \<open>The parsers\<close>

text \<open>
  One record for both classes: \<open>rp_type\<close> is the template argument (\<open>TUndefined\<close> for
  \<^verbatim>\<open>void\<close>), \<open>rp_value\<close> the member \<^verbatim>\<open>_value\<close> of the typed class, which
  \<^verbatim>\<open>_value()\<close> zero-initialises.
\<close>

record response_parser =
  rp_type :: wire_type
  rp_value :: wire_value
  rp_exception :: "exn option"
  rp_finished :: bool

primrec default_value :: "wire_type \<Rightarrow> wire_value" where
  "default_value TU8 = VU8 0"
| "default_value TU16 = VU16 0"
| "default_value TU32 = VU32 0"
| "default_value TString = VString []"
| "default_value TUndefined = VUndefined"

definition mk_response_parser :: "wire_type \<Rightarrow> response_parser" where
  "mk_response_parser t =
     \<lparr>rp_type = t, rp_value = default_value t, rp_exception = None, rp_finished = False\<rparr>"

definition rp_set_exception :: "exn \<Rightarrow> response_parser \<Rightarrow> response_parser" where
  "rp_set_exception e p = p\<lparr>rp_exception := Some e, rp_finished := True\<rparr>"

text \<open>\<^verbatim>\<open>ResponseParser<ResultType>::Parse\<close>\<close>

definition rp_parse_typed :: "toolkit \<Rightarrow> bytes \<Rightarrow> response_parser \<Rightarrow> (exn + bytes) \<times> response_parser" where
  "rp_parse_typed T d p =
     (case read_value T (rp_type p) d of
        Inl e \<Rightarrow> (Inl e, p)
      | Inr (v, rest) \<Rightarrow> (Inr rest, p\<lparr>rp_value := v, rp_finished := True\<rparr>))"

text \<open>\<^verbatim>\<open>ResponseParser<void>::Parse\<close>\<close>

definition rp_parse_void :: "toolkit \<Rightarrow> bytes \<Rightarrow> response_parser \<Rightarrow> (exn + bytes) \<times> response_parser" where
  "rp_parse_void T d p =
     (case tk_get_undef T d of
        Inl e \<Rightarrow> (Inl e, p)
      | Inr rest \<Rightarrow> (Inr rest, p\<lparr>rp_finished := True\<rparr>))"

text \<open>The virtual call \<^verbatim>\<open>response->Parse(data, offset)\<close>.\<close>

definition rp_parse :: "toolkit \<Rightarrow> bytes \<Rightarrow> response_parser \<Rightarrow> (exn + bytes) \<times> response_parser" where
  "rp_parse T d p = (if rp_type p = TUndefined then rp_parse_void T d p else rp_parse_typed T d p)"

lemmas rp_defs = rp_parse_def rp_parse_typed_def rp_parse_void_def rp_set_exception_def mk_response_parser_def

interpretation typed_slot: response_slot "rp_parse_typed T" rp_set_exception rp_exception rp_finished for T
  by unfold_locales (auto simp: rp_defs split: sum.splits prod.splits)

interpretation void_slot: response_slot "rp_parse_void T" rp_set_exception rp_exception rp_finished for T
  by unfold_locales (auto simp: rp_defs split: sum.splits prod.splits)

interpretation any_slot: response_slot "rp_parse T" rp_set_exception rp_exception rp_finished for T
  by unfold_locales (auto simp: rp_defs split: sum.splits prod.splits if_splits)

lemma rp_parse_type [simp]: "rp_type (snd (rp_parse T d p)) = rp_type p"
  by (auto simp: rp_defs split: sum.splits prod.splits)

lemma rp_set_exception_type [simp]: "rp_type (rp_set_exception e p) = rp_type p"
  by (simp add: rp_set_exception_def)

lemma deliver_type [simp]: "rp_type (deliver (rp_parse T) rp_set_exception a p) = rp_type p"
proof (cases a)
  case (Result_Data d)
  obtain r q where "rp_parse T d p = (r, q)" by (cases "rp_parse T d p")
  then show ?thesis
    using rp_parse_type [of T d p] Result_Data by (cases r) simp_all
qed simp

section \<open>Reading the answer\<close>

text \<open>
  The part of \<^verbatim>\<open>Session::Wait<ReturnType>\<close> after \<^verbatim>\<open>WaitResponse\<close>: rethrow a stored exception,
  cast the slot to \<^verbatim>\<open>ResponseParser<ReturnType>\<close>, which fails for a slot of another type,
  and return its value.
\<close>

definition rp_extract :: "wire_type \<Rightarrow> response_parser \<Rightarrow> exn + wire_value" where
  "rp_extract t p =
     (case rp_exception p of
        Some e \<Rightarrow> Inl e
      | None \<Rightarrow>
          if rp_type p \<noteq> t then Inl (Exception ''mismatched type for response parser'')
          else Inr (rp_value p))"

text \<open>A slot holds a value of its own type at every moment.\<close>

definition rp_typed :: "response_parser \<Rightarrow> bool" where
  "rp_typed p \<longleftrightarrow> type_of (rp_value p) = rp_type p"

lemma rp_typed_new: "rp_typed (mk_response_parser t)"
  by (cases t) (simp_all add: rp_typed_def rp_defs)

lemma rp_typed_set_exception: "rp_typed p \<Longrightarrow> rp_typed (rp_set_exception e p)"
  by (simp add: rp_typed_def rp_defs)

lemma rp_typed_parse: "rp_typed p \<Longrightarrow> rp_typed (snd (rp_parse T d p))"
  by (auto simp: rp_typed_def rp_defs dest: read_value_type split: sum.splits prod.splits)

lemma rp_typed_deliver:
  assumes "rp_typed p"
  shows "rp_typed (deliver (rp_parse T) rp_set_exception a p)"
proof (cases a)
  case (Result_Data d)
  obtain r q where "rp_parse T d p = (r, q)" by (cases "rp_parse T d p")
  then show ?thesis
    using rp_typed_parse [OF assms, of T d] Result_Data
    by (cases r) (simp_all add: rp_typed_set_exception)
qed (simp add: assms rp_typed_set_exception)

lemma rp_deliver_result:
  assumes "bson_ok T" and "rp_exception p = None" and "type_of v = rp_type p" and "rp_typed p"
  shows "rp_extract (rp_type p) (deliver (rp_parse T) rp_set_exception (Result_Data (ser_value T v @ rest)) p) = Inr v"
proof (cases "rp_type p = TUndefined")
  case True
  with assms(3,4) have "v = VUndefined" "rp_value p = VUndefined"
    by (cases v; cases "rp_value p"; simp add: rp_typed_def)+
  with True assms show ?thesis
    by (simp add: rp_defs rp_extract_def)
next
  case False
  with assms show ?thesis
    by (simp add: rp_defs rp_extract_def flip: assms(3))
qed

section \<open>Several answers\<close>

text \<open>
  What an answer says to a caller that waits for a value of type \<open>t\<close>: its value, the exception it
  carries, or the exception of reading it.
\<close>

primrec answer_outcome :: "toolkit \<Rightarrow> wire_type \<Rightarrow> answer \<Rightarrow> exn + wire_value" where
  "answer_outcome T t (Result_Data d) = map_sum id fst (read_value T t d)"
| "answer_outcome T t (Remote_Exception e) = Inl e"

text \<open>The exceptions among the outcomes, in the order of the answers.\<close>

primrec exceptions_of :: "(exn + 'a) list \<Rightarrow> exn list" where
  "exceptions_of [] = []"
| "exceptions_of (r # rs) = (case r of Inl e \<Rightarrow> e # exceptions_of rs | Inr _ \<Rightarrow> exceptions_of rs)"

lemma exceptions_of_append: "exceptions_of (rs @ ss) = exceptions_of rs @ exceptions_of ss"
  by (induction rs) (simp_all split: sum.split)

lemma answer_outcome_type: "answer_outcome T t a = Inr v \<Longrightarrow> type_of v = t"
  by (cases a) (auto simp: map_sum_def split: sum.splits dest: read_value_type)

lemma rp_parse_outcome:
  "fst (rp_parse T d p) = map_sum id snd (read_value T (rp_type p) d)"
  by (auto simp: rp_defs bind_exn_def split: sum.split prod.split)

lemma deliver_value:
  assumes "rp_typed p" and "answer_outcome T (rp_type p) a = Inr v"
  shows "rp_value (deliver (rp_parse T) rp_set_exception a p) = v"
proof (cases a)
  case (Result_Data d)
  then obtain rest where "read_value T (rp_type p) d = Inr (v, rest)"
    using assms(2) by (auto simp: map_sum_def split: sum.splits)
  then show ?thesis
    using assms(1) Result_Data
    by (cases "rp_value p") (auto simp: rp_defs rp_typed_def bind_exn_def split: sum.splits)
next
  case (Remote_Exception e)
  with assms(2) show ?thesis by simp
qed

lemma deliver_exception:
  "rp_exception (deliver (rp_parse T) rp_set_exception a p) =
     (case answer_outcome T (rp_type p) a of Inl e \<Rightarrow> Some e | Inr _ \<Rightarrow> rp_exception p)"
  by (cases a) (auto simp: any_slot.deliver_exn rp_parse_outcome map_sum_def simp del: deliver.simps split: sum.split)

text \<open>The state of a slot after a sequence of answers.\<close>

lemma deliver_all:
  fixes T :: toolkit and as :: "answer list"
  assumes "rp_typed p"
  defines "q \<equiv> \<lambda>as. fold (deliver (rp_parse T) rp_set_exception) as p"
    and "es \<equiv> \<lambda>as. (case rp_exception p of None \<Rightarrow> [] | Some e \<Rightarrow> [e]) @ exceptions_of (map (answer_outcome T (rp_type p)) as)"
  shows "rp_typed (q as) \<and> rp_type (q as) = rp_type p \<and> rp_exception (q as) = (if es as = [] then None else Some (last (es as))) \<and>
    (\<forall>v. as \<noteq> [] \<longrightarrow> answer_outcome T (rp_type p) (last as) = Inr v \<longrightarrow> rp_value (q as) = v)"
proof (induction as rule: rev_induct)
  case Nil
  then show ?case
    using assms(1) by (simp add: q_def es_def split: option.split)
next
  case (snoc a as)
  have q: "q (as @ [a]) = deliver (rp_parse T) rp_set_exception a (q as)"
    by (simp add: q_def)
  have es: "es (as @ [a]) = es as @ (case answer_outcome T (rp_type p) a of Inl e \<Rightarrow> [e] | Inr _ \<Rightarrow> [])"
    by (simp add: es_def exceptions_of_append split: sum.split)
  show ?case
    using snoc.IH by (auto simp: q es rp_typed_deliver deliver_exception deliver_value split: sum.split)
qed

section \<open>Properties\<close>

text \<open>
  C34: the outcome of a slot is determined by the answers. After any number of answers to one
  slot, at least one, the slot is finished and keeps its type. A caller that reads it at that type
  gets the last exception among those it held before and those that the answers carried or that
  reading them threw, in this order; if there is none it gets the value that the last answer carried,
  which has that type. So a result never replaces an exception.
\<close>

theorem response_slot_outcome:
  fixes T :: toolkit and as :: "answer list"
  assumes "as \<noteq> []" and "rp_typed p"
  defines "q \<equiv> fold (deliver (rp_parse T) rp_set_exception) as p"
    and "outcomes \<equiv> map (answer_outcome T (rp_type p)) as"
  shows "rp_finished q \<and> rp_type q = rp_type p \<and>
    rp_extract (rp_type p) q =
      (case (case rp_exception p of None \<Rightarrow> [] | Some e \<Rightarrow> [e]) @ exceptions_of outcomes of
         [] \<Rightarrow> last outcomes
       | e # es \<Rightarrow> Inl (last (e # es))) \<and>
    (\<forall>v. rp_extract (rp_type p) q = Inr v \<longrightarrow> type_of v = rp_type p)"
proof -
  let ?es = "(case rp_exception p of None \<Rightarrow> [] | Some e \<Rightarrow> [e]) @ exceptions_of outcomes"
  have finished: "rp_finished q"
    unfolding q_def by (rule any_slot.deliver_all_finished) (simp add: assms(1))
  note all = deliver_all [OF assms(2), of T as, folded q_def outcomes_def]
  have last: "last outcomes = answer_outcome T (rp_type p) (last as)"
    using assms(1) by (simp add: outcomes_def last_map)
  have "rp_extract (rp_type p) q = last outcomes" if none: "?es = []"
  proof -
    have "\<not> isl r" if "r \<in> set outcomes" for r
    proof -
      from that obtain rs ss where "outcomes = rs @ r # ss" by (meson split_list)
      with none show ?thesis by (cases r) (auto simp: exceptions_of_append)
    qed
    moreover have "last outcomes \<in> set outcomes"
      using assms(1) last_in_set [of outcomes] by (simp add: outcomes_def)
    ultimately obtain v where v: "last outcomes = Inr v"
      by (cases "last outcomes") fastforce+
    with all last assms(1) have "rp_value q = v" by auto
    with all none v show ?thesis by (simp add: rp_extract_def)
  qed
  moreover have "rp_extract (rp_type p) q = Inl (last ?es)" if "?es \<noteq> []"
    using all that by (simp add: rp_extract_def)
  moreover have "type_of v = rp_type p" if "rp_extract (rp_type p) q = Inr v" for v
    using all that by (auto simp: rp_extract_def rp_typed_def split: option.splits if_splits)
  ultimately have "rp_extract (rp_type p) q = (case ?es of [] \<Rightarrow> last outcomes | e # es \<Rightarrow> Inl (last (e # es)))"
    "\<forall>v. rp_extract (rp_type p) q = Inr v \<longrightarrow> type_of v = rp_type p"
    by (cases ?es; simp)+
  with finished all show ?thesis by blast
qed

theorem response_slot_outcome_witness:
  "rp_extract TU32 (fold (deliver (rp_parse demo_toolkit) rp_set_exception)
     [Remote_Exception (Runtime_Error ''no''), Result_Data (ser_value demo_toolkit (VU32 7))] (mk_response_parser TU32)) =
     Inl (Runtime_Error ''no'')"
  using response_slot_outcome [where T = demo_toolkit and p = "mk_response_parser TU32" and
    as = "[Remote_Exception (Runtime_Error ''no''), Result_Data (ser_value demo_toolkit (VU32 7))]"]
  by (simp add: rp_typed_new) (simp add: mk_response_parser_def map_fst_exn_def)

end
