(* ===== verification/Frame_Reader.thy ===== *)
theory Frame_Reader
  imports Toolkit
begin

text \<open>
  The receiving half of \<^verbatim>\<open>LocalBusConnection\<close>: \<^verbatim>\<open>struct ReadTask\<close>
  (src/src/lib/pbus/LocalBusConnection.h) and the loop over the bytes of one socket read
  in \<^verbatim>\<open>HandleSocketEvent\<close> (LocalBusConnection.cpp). A message travels as four bytes of
  length and the payload. The loop is proved to compute, however the bytes of the stream
  are cut into reads, the frames of the specification \<open>split_frames\<close>.
\<close>

section \<open>ReadTask\<close>

record read_task =
  rt_size_buffer :: bytes
  rt_size_offset :: nat
  rt_data :: bytes
  rt_data_offset :: nat

definition new_read_task :: read_task where
  "new_read_task = \<lparr>rt_size_buffer = replicate 4 0, rt_size_offset = 0, rt_data = [], rt_data_offset = 0\<rparr>"

definition rt_finished :: "read_task \<Rightarrow> bool" where
  "rt_finished t \<longleftrightarrow> length (rt_size_buffer t) \<le> rt_size_offset t \<and> length (rt_data t) \<le> rt_data_offset t"

text \<open>
  \<^verbatim>\<open>ReadTask::Read\<close>: the number of bytes consumed, and the new state. The two copies, into
  the size buffer and into the message, are definitions of their own.
\<close>

definition rt_fill_size :: "read_task \<Rightarrow> bytes \<Rightarrow> nat \<times> read_task" where
  "rt_fill_size t data =
     (let size_remains = min (length (rt_size_buffer t) - rt_size_offset t) (length data)
      in (size_remains,
          t\<lparr>rt_size_buffer := copy_into (rt_size_buffer t) (rt_size_offset t) (take size_remains data),
            rt_size_offset := rt_size_offset t + size_remains\<rparr>))"

definition rt_fill_data :: "read_task \<Rightarrow> bytes \<Rightarrow> nat \<times> read_task" where
  "rt_fill_data t data =
     (let data_remains = min (length (rt_data t) - rt_data_offset t) (length data)
      in (data_remains,
          t\<lparr>rt_data := copy_into (rt_data t) (rt_data_offset t) (take data_remains data),
            rt_data_offset := rt_data_offset t + data_remains\<rparr>))"

definition rt_read :: "toolkit \<Rightarrow> read_task \<Rightarrow> bytes \<Rightarrow> nat \<times> read_task" where
  "rt_read T t data =
     (let (size_remains, t1) = rt_fill_size t data in
      if rt_size_offset t1 < length (rt_size_buffer t1) then (size_remains, t1)
      else
        let (t2, data2) =
              (if size_remains \<noteq> 0
               then (t1\<lparr>rt_data := tk_resize T (unat (tk_le_read T (rt_size_buffer t1))) (rt_data t1)\<rparr>,
                     drop size_remains data)
               else (t1, data));
            (data_remains, t3) = rt_fill_data t2 data2
        in (size_remains + data_remains, t3))"

lemmas rt_fill_defs = rt_fill_size_def rt_fill_data_def Let_def

lemma not_finished_new [simp]: "\<not> rt_finished new_read_task"
  by (simp add: rt_finished_def new_read_task_def)

lemma rt_fill_size_done:
  "length (rt_size_buffer t) \<le> rt_size_offset t \<Longrightarrow> rt_fill_size t data = (0, t)"
  by (simp add: rt_fill_defs)

lemma rt_read_finished: "rt_finished t \<Longrightarrow> rt_read T t data = (0, t)"
  by (simp add: rt_read_def rt_fill_size_done rt_fill_data_def rt_finished_def)

lemma rt_read_size_part: "fst (rt_fill_size t data) \<le> fst (rt_read T t data)"
  by (auto simp: rt_read_def split: prod.split)

lemma rt_read_data_part:
  "length (rt_size_buffer t) \<le> rt_size_offset t \<Longrightarrow>
     fst (rt_read T t data) = min (length (rt_data t) - rt_data_offset t) (length data)"
  by (simp add: rt_read_def rt_fill_size_done rt_fill_data_def Let_def)

lemma rt_read_progress:
  assumes "\<not> rt_finished t" and "data \<noteq> []"
  shows "0 < fst (rt_read T t data)"
proof (cases "rt_size_offset t < length (rt_size_buffer t)")
  case True
  with assms(2) have "0 < fst (rt_fill_size t data)"
    by (simp add: rt_fill_defs)
  then show ?thesis
    using rt_read_size_part by (rule less_le_trans)
next
  case False
  with assms show ?thesis
    by (simp add: rt_read_data_part rt_finished_def not_less)
qed

lemma read_loop_measure:
  assumes "(n, t') = rt_read T t data" and "data \<noteq> []" and "\<not> length data - n < length data"
  shows "rt_finished t \<and> t' = t"
proof -
  have "n = 0" using assms(2,3) by (cases n) auto
  then have "rt_finished t"
    using rt_read_progress [of t data T] assms(1,2) by (metis fst_conv less_irrefl)
  then show ?thesis
    using assms(1) by (simp add: rt_read_finished)
qed

section \<open>The read loop\<close>

text \<open>
  The loop of \<^verbatim>\<open>HandleSocketEvent\<close> over one buffer: read, and when a message is complete take
  the next read serial, hand the message to the session (\<open>on_data\<close>) and start a new task.
  It stops for every state and every handler: each round consumes a byte, or leaves a
  finished task behind it.
\<close>

function read_loop ::
  "toolkit \<Rightarrow> ('s \<Rightarrow> u32 \<Rightarrow> bytes \<Rightarrow> 's) \<Rightarrow> read_task \<Rightarrow> u32 \<Rightarrow> 's \<Rightarrow> bytes \<Rightarrow> read_task \<times> u32 \<times> 's" where
  "read_loop T on_data t serial s data =
     (if data = [] then (t, serial, s)
      else let (n, t') = rt_read T t data in
        if rt_finished t'
        then read_loop T on_data new_read_task (serial + 1) (on_data s serial (rt_data t')) (drop n data)
        else read_loop T on_data t' serial s (drop n data))"
  by pat_completeness auto

termination
  by (relation "measures [\<lambda>(T, h, t, i, s, d). length d, \<lambda>(T, h, t, i, s, d). of_bool (rt_finished t)]")
    (auto dest: read_loop_measure)

declare read_loop.simps [simp del]

lemma read_loop_Nil [simp]: "read_loop T h t i s [] = (t, i, s)"
  by (simp add: read_loop.simps)

section \<open>The specification\<close>

text \<open>The frames of a byte stream, and the incomplete rest.\<close>

function split_frames :: "toolkit \<Rightarrow> bytes \<Rightarrow> bytes list \<times> bytes" where
  "split_frames T bs =
     (if length bs < 4 then ([], bs)
      else let n = unat (tk_le_read T (take 4 bs)) in
        if length bs < 4 + n then ([], bs)
        else let (fs, rest) = split_frames T (drop (4 + n) bs)
          in (take n (drop 4 bs) # fs, rest))"
  by pat_completeness auto
termination
  by (relation "measure (\<lambda>(T, bs). length bs)") auto

declare split_frames.simps [simp del]

definition frame :: "toolkit \<Rightarrow> bytes \<Rightarrow> bytes" where
  "frame T p = tk_le_write T (word_of_nat (length p)) @ p"

lemma split_frames_Cons:
  assumes "length h = 4" and "unat (tk_le_read T h) = length p"
  shows "split_frames T (h @ p @ rest) =
    (p # fst (split_frames T rest), snd (split_frames T rest))"
  by (subst split_frames.simps) (simp add: assms split: prod.split)

lemma split_frames_short: "length bs < 4 \<Longrightarrow> split_frames T bs = ([], bs)"
  by (simp add: split_frames.simps)

lemma split_frames_Nil [simp]: "split_frames T [] = ([], [])"
  by (simp add: split_frames_short)

lemma split_frames_open:
  "length h = 4 \<Longrightarrow> length p < unat (tk_le_read T h) \<Longrightarrow> split_frames T (h @ p) = ([], h @ p)"
  by (subst split_frames.simps) simp

lemma frame_not_Nil [simp]: "le_ok T \<Longrightarrow> frame T p \<noteq> []"
  by (metis frame_def append_is_Nil_conv le_ok_simps(1) list.size(3) zero_neq_numeral)

lemma split_frames_frame:
  assumes "le_ok T" and "length p < 2 ^ 32"
  shows "split_frames T (frame T p @ rest) =
    (p # fst (split_frames T rest), snd (split_frames T rest))"
  using assms unfolding frame_def append_assoc
  by (intro split_frames_Cons) (simp_all add: unat_of_nat)

lemma split_frames_frames:
  assumes "le_ok T" and "\<forall>p\<in>set ps. length p < 2 ^ 32"
  shows "split_frames T (concat (map (frame T) ps) @ rest) =
    (ps @ fst (split_frames T rest), snd (split_frames T rest))"
  using assms(2) by (induction ps) (simp_all add: split_frames_frame [OF assms(1)])

lemma split_frames_append:
  "split_frames T (xs @ ys) =
     (fst (split_frames T xs) @ fst (split_frames T (snd (split_frames T xs) @ ys)),
      snd (split_frames T (snd (split_frames T xs) @ ys)))"
proof (induction T xs rule: split_frames.induct)
  case (1 T xs)
  show ?case
  proof (cases "length xs < 4 \<or> length xs < 4 + unat (tk_le_read T (take 4 xs))")
    case True
    then have "split_frames T xs = ([], xs)"
      by (subst split_frames.simps) auto
    then show ?thesis by simp
  next
    case False
    define n where "n = unat (tk_le_read T (take 4 xs))"
    define h p r where "h = take 4 xs" and "p = take n (drop 4 xs)" and "r = drop (4 + n) xs"
    have xs: "xs = h @ p @ r"
      by (simp add: h_def p_def r_def add.commute flip: drop_drop)
    have h: "length h = 4" "unat (tk_le_read T h) = length p"
      using False by (auto simp: h_def p_def n_def)
    have "split_frames T (r @ ys) = (fst (split_frames T r) @ fst (split_frames T (snd (split_frames T r) @ ys)),
        snd (split_frames T (snd (split_frames T r) @ ys)))"
      using 1 False by (simp add: n_def r_def)
    then show ?thesis
      by (simp add: xs split_frames_Cons [OF h])
  qed
qed

section \<open>The reader implements the specification\<close>

text \<open>
  Between two socket reads the task is unfinished; \<open>rt_bytes\<close> are the bytes of the current
  message it has consumed.
\<close>

definition rt_open :: "toolkit \<Rightarrow> read_task \<Rightarrow> bool" where
  "rt_open T t \<longleftrightarrow>
     length (rt_size_buffer t) = 4 \<and> rt_size_offset t \<le> 4 \<and>
     (if rt_size_offset t < 4 then rt_data t = [] \<and> rt_data_offset t = 0
      else length (rt_data t) = unat (tk_le_read T (rt_size_buffer t)) \<and>
           rt_data_offset t < length (rt_data t))"

definition rt_bytes :: "read_task \<Rightarrow> bytes" where
  "rt_bytes t = take (rt_size_offset t) (rt_size_buffer t) @ take (rt_data_offset t) (rt_data t)"

lemma rt_open_new [simp]: "rt_open T new_read_task"
  by (simp add: rt_open_def new_read_task_def)

lemma rt_bytes_new [simp]: "rt_bytes new_read_task = []"
  by (simp add: rt_bytes_def new_read_task_def)

lemma rt_open_split: "rt_open T t \<Longrightarrow> split_frames T (rt_bytes t) = ([], rt_bytes t)"
  by (auto simp: rt_open_def rt_bytes_def split_frames_short intro!: split_frames_open split: if_splits)

text \<open>
  One call of \<^verbatim>\<open>Read\<close> on an open task: either it takes all the data and the task stays open,
  or it takes exactly the bytes that complete the message.
\<close>

definition rt_step_ok :: "toolkit \<Rightarrow> read_task \<Rightarrow> bytes \<Rightarrow> nat \<Rightarrow> read_task \<Rightarrow> bool" where
  "rt_step_ok T t data n t' \<longleftrightarrow>
     n \<le> length data \<and>
     (if rt_finished t'
      then \<exists>h. length h = 4 \<and> unat (tk_le_read T h) = length (rt_data t') \<and>
           rt_bytes t @ take n data = h @ rt_data t'
      else n = length data \<and> rt_open T t' \<and> rt_bytes t' = rt_bytes t @ data)"

text \<open>The two phases of a call: filling the size buffer, filling the message.\<close>

lemma rt_read_in_size:
  assumes "rt_open T t" and "rt_size_offset t + length data < 4"
  shows "rt_read T t data =
    (length data, t\<lparr>rt_size_buffer := copy_into (rt_size_buffer t) (rt_size_offset t) data,
                    rt_size_offset := rt_size_offset t + length data\<rparr>)"
proof -
  have "min (4 - rt_size_offset t) (length data) = length data"
    using assms(2) by simp
  then show ?thesis
    using assms by (simp add: rt_read_def rt_open_def rt_fill_defs)
qed

lemma rt_read_size_done:
  assumes "buf_ok T" and "rt_open T t" and "rt_size_offset t < 4" and "4 \<le> rt_size_offset t + length data"
  defines "k \<equiv> 4 - rt_size_offset t"
  defines "h \<equiv> take (rt_size_offset t) (rt_size_buffer t) @ take k data"
  defines "m \<equiv> min (unat (tk_le_read T h)) (length data - k)"
  shows "rt_read T t data =
    (k + m, \<lparr>rt_size_buffer = h, rt_size_offset = 4,
             rt_data = copy_into (tk_resize T (unat (tk_le_read T h)) []) 0 (take m (drop k data)),
             rt_data_offset = m\<rparr>)"
proof -
  have "copy_into (rt_size_buffer t) (rt_size_offset t) (take k data) = h"
    using assms(2-4) by (simp add: copy_into_def h_def k_def rt_open_def)
  moreover have "min (length (rt_size_buffer t) - rt_size_offset t) (length data) = k"
    using assms(2-4) by (simp add: k_def rt_open_def)
  moreover have "length h = 4"
    using assms(2-4) by (simp add: h_def k_def rt_open_def)
  ultimately show ?thesis
    using assms(1-4)
    by (cases t) (simp add: rt_read_def rt_open_def rt_fill_defs k_def m_def)
qed

lemma rt_read_in_data:
  fixes data :: bytes
  assumes "rt_open T t" and "rt_size_offset t = 4"
  defines "m \<equiv> min (length (rt_data t) - rt_data_offset t) (length data)"
  shows "rt_read T t data =
    (m, t\<lparr>rt_data := copy_into (rt_data t) (rt_data_offset t) (take m data),
          rt_data_offset := rt_data_offset t + m\<rparr>)"
  using assms by (simp add: rt_read_def rt_open_def rt_fill_defs m_def)

lemma rt_read_ok:
  assumes T: "buf_ok T" and t: "rt_open T t" and r: "rt_read T t data = (n, t')"
  shows "rt_step_ok T t data n t'"
proof -
  consider (size) "rt_size_offset t + length data < 4"
    | (full) "rt_size_offset t < 4" "4 \<le> rt_size_offset t + length data"
    | (data) "rt_size_offset t = 4"
    using t by (fastforce simp: rt_open_def)
  then show ?thesis
  proof cases
    case size
    with t r show ?thesis
      by (auto simp: rt_read_in_size rt_step_ok_def rt_finished_def rt_open_def rt_bytes_def split: if_splits)
  next
    case full
    define k h where "k = 4 - rt_size_offset t"
      and "h = take (rt_size_offset t) (rt_size_buffer t) @ take k data"
    have h: "length h = 4" and b: "rt_bytes t = take (rt_size_offset t) (rt_size_buffer t)"
      using t full by (simp_all add: h_def k_def rt_open_def rt_bytes_def)
    have h': "rt_bytes t @ take (k + j) data = h @ take j (drop k data)" for j
      by (simp add: h_def b take_add)
    have k: "k \<le> length data" using full by (simp add: k_def)
    define len where "len = unat (tk_le_read T h)"
    note rd = rt_read_size_done [OF T t full, folded k_def, folded h_def, folded len_def]
    show ?thesis
    proof (cases "len \<le> length data - k")
      case True
      then have "n = k + len" "t' = \<lparr>rt_size_buffer = h, rt_size_offset = 4,
          rt_data = take len (drop k data), rt_data_offset = len\<rparr>"
        using rd r T by (simp_all add: copy_into_def)
      then show ?thesis
        using True k h h' [of len] by (auto simp: rt_step_ok_def rt_finished_def len_def)
    next
      case False
      then have "n = length data" "t' = \<lparr>rt_size_buffer = h, rt_size_offset = 4,
          rt_data = drop k data @ drop (length data - k) (tk_resize T len []), rt_data_offset = length data - k\<rparr>"
        using rd r k by (simp_all add: copy_into_def)
      moreover from this have "rt_bytes t' = h @ drop k data"
        using h k by (simp add: rt_bytes_def)
      ultimately show ?thesis
        using False k h T h' [of "length data - k"]
        by (auto simp: rt_step_ok_def rt_finished_def rt_open_def len_def)
    qed
  next
    case data
    with t r show ?thesis
      by (auto simp: rt_read_in_data rt_step_ok_def rt_finished_def rt_open_def rt_bytes_def copy_into_def min_def
          intro!: exI [of _ "rt_size_buffer t"] split: if_splits)
  qed
qed

primrec dispatch_frames :: "('s \<Rightarrow> u32 \<Rightarrow> bytes \<Rightarrow> 's) \<Rightarrow> u32 \<Rightarrow> 's \<Rightarrow> bytes list \<Rightarrow> 's" where
  "dispatch_frames on_data i s [] = s"
| "dispatch_frames on_data i s (f # fs) = dispatch_frames on_data (i + 1) (on_data s i f) fs"

lemma dispatch_frames_append:
  "dispatch_frames h i s (fs @ gs) = dispatch_frames h (i + word_of_nat (length fs)) (dispatch_frames h i s fs) gs"
  by (induction fs arbitrary: i s) (simp_all add: ac_simps)

lemma dispatch_frames_log: "dispatch_frames (\<lambda>s _ f. s @ [f]) i s fs = s @ fs"
  by (induction fs arbitrary: i s) simp_all

lemma read_loop_split:
  assumes "buf_ok T" and "rt_open T t" and "read_loop T h t i s data = (t', i', s')"
    and "split_frames T (rt_bytes t @ data) = (fs, rest)"
  shows "rt_open T t' \<and> rt_bytes t' = rest \<and> i' = i + word_of_nat (length fs) \<and> s' = dispatch_frames h i s fs"
  using assms
proof (induction T h t i s data arbitrary: fs rule: read_loop.induct)
  case (1 T h t i s data)
  obtain n u where r: "rt_read T t data = (n, u)" by (cases "rt_read T t data")
  note ok = rt_read_ok [OF "1.prems"(1,2) r, unfolded rt_step_ok_def]
  show ?case
  proof (cases "data = []")
    case True
    with "1.prems" rt_open_split [OF "1.prems"(2)] show ?thesis by simp
  next
    case data: False
    show ?thesis
    proof (cases "rt_finished u")
      case True
      with ok obtain b where b: "length b = 4" "unat (tk_le_read T b) = length (rt_data u)"
          "rt_bytes t @ take n data = b @ rt_data u" by auto
      then have "rt_bytes t @ data = b @ rt_data u @ drop n data"
        by (metis append.assoc append_take_drop_id)
      then have fs: "fs = rt_data u # fst (split_frames T (drop n data))" "rest = snd (split_frames T (drop n data))"
        using "1.prems"(4) by (simp_all add: split_frames_Cons [OF b(1,2)])
      have "read_loop T h new_read_task (i + 1) (h s i (rt_data u)) (drop n data) = (t', i', s')"
        using "1.prems"(3) data True r by (subst (asm) read_loop.simps) simp
      from "1.IH"(1) [OF data r [symmetric] refl True "1.prems"(1) rt_open_new this, of "fst (split_frames T (drop n data))"]
      show ?thesis by (simp add: fs)
    next
      case False
      with ok have u: "n = length data" "rt_open T u" "rt_bytes u = rt_bytes t @ data" by auto
      have "read_loop T h u i s (drop n data) = (t', i', s')"
        using "1.prems"(3) data False r by (subst (asm) read_loop.simps) simp
      with u rt_open_split [OF u(2)] "1.prems"(4) show ?thesis by simp
    qed
  qed
qed

text \<open>What every call of the handler keeps, the loop keeps.\<close>

lemma read_loop_invariant:
  assumes "\<And>s i d. P s \<Longrightarrow> P (on_data s i d)"
  shows "P s \<Longrightarrow> P (snd (snd (read_loop T on_data t i s data)))"
  using assms
proof (induction T on_data t i s data rule: read_loop.induct)
  case (1 T on_data t i s data)
  obtain n u where r: "rt_read T t data = (n, u)" by (cases "rt_read T t data")
  show ?case
  proof (cases "data = []")
    case False
    note IH = "1.IH" [OF False r [symmetric] refl]
    show ?thesis
      using IH "1.prems" False r by (cases "rt_finished u") (simp_all add: read_loop.simps [of _ _ t])
  qed (simp add: "1.prems")
qed

section \<open>Feeding a stream in chunks\<close>

text \<open>
  The contract of a component that takes a byte stream in arbitrary pieces and gives
  messages: what it gives for a piece is what the specification gives for the bytes it
  holds back and the piece. Clients may then ignore where the pieces end.
\<close>

primrec feed_all :: "('r \<Rightarrow> bytes \<Rightarrow> 'r \<times> 'm list) \<Rightarrow> 'r \<Rightarrow> bytes list \<Rightarrow> 'r \<times> 'm list" where
  "feed_all feed r [] = (r, [])"
| "feed_all feed r (c # cs) =
     (let (r', ms) = feed r c; (r'', ms') = feed_all feed r' cs in (r'', ms @ ms'))"

locale stream_receiver =
  fixes feed :: "'r \<Rightarrow> bytes \<Rightarrow> 'r \<times> 'm list"
    and pending :: "'r \<Rightarrow> bytes"
    and good :: "'r \<Rightarrow> bool"
    and spec :: "bytes \<Rightarrow> 'm list \<times> bytes"
  assumes feed_good: "good r \<Longrightarrow> feed r bs = (r', ms) \<Longrightarrow> good r'"
    and feed_spec: "good r \<Longrightarrow> feed r bs = (r', ms) \<Longrightarrow> spec (pending r @ bs) = (ms, pending r')"
    and spec_append: "spec (xs @ ys) =
      (fst (spec xs) @ fst (spec (snd (spec xs) @ ys)), snd (spec (snd (spec xs) @ ys)))"
    and good_pending: "good r \<Longrightarrow> spec (pending r) = ([], pending r)"
begin

lemma feed_all_spec:
  "good r \<Longrightarrow> feed_all feed r cs = (r', ms) \<Longrightarrow>
     good r' \<and> spec (pending r @ concat cs) = (ms, pending r')"
proof (induction cs arbitrary: r ms)
  case Nil
  then show ?case using good_pending by simp
next
  case (Cons c cs)
  obtain q ks where q: "feed r c = (q, ks)" by (cases "feed r c")
  obtain ls where ls: "feed_all feed q cs = (r', ls)" and ms: "ms = ks @ ls"
    using Cons.prems(2) q by (auto split: prod.splits)
  have "good q" using Cons.prems(1) q by (rule feed_good)
  from Cons.IH [OF this ls] show ?case
    using feed_spec [OF Cons.prems(1) q] spec_append [of "pending r @ c" "concat cs"] by (simp add: ms)
qed

lemma chunking_irrelevant:
  assumes "good r" and "concat cs = concat ds"
    and "feed_all feed r cs = (r1, ms1)" and "feed_all feed r ds = (r2, ms2)"
  shows "ms1 = ms2 \<and> pending r1 = pending r2"
  using feed_all_spec [OF assms(1,3)] feed_all_spec [OF assms(1,4)] assms(2) by simp

end

definition frame_feed :: "toolkit \<Rightarrow> read_task \<Rightarrow> bytes \<Rightarrow> read_task \<times> bytes list" where
  "frame_feed T t data = (let (t', _, fs) = read_loop T (\<lambda>s _ f. s @ [f]) t 0 [] data in (t', fs))"

lemma frame_feed_split:
  assumes "buf_ok T" and "rt_open T t" and "frame_feed T t data = (t', fs)"
  shows "rt_open T t' \<and> split_frames T (rt_bytes t @ data) = (fs, rt_bytes t')"
proof -
  obtain i s where l: "read_loop T (\<lambda>s _ f. s @ [f]) t 0 [] data = (t', i, s)" and fs: "fs = s"
    using assms(3) by (auto simp: frame_feed_def split: prod.splits)
  obtain gs rest where sp: "split_frames T (rt_bytes t @ data) = (gs, rest)"
    by (cases "split_frames T (rt_bytes t @ data)")
  from read_loop_split [OF assms(1,2) l sp] show ?thesis
    by (simp add: sp fs dispatch_frames_log)
qed

text \<open>The task is good when it is open and the toolkit's \<^verbatim>\<open>Resize\<close> sets the length.\<close>

definition rt_good :: "toolkit \<Rightarrow> read_task \<Rightarrow> bool" where
  "rt_good T t \<longleftrightarrow> buf_ok T \<and> rt_open T t"

interpretation frames: stream_receiver "frame_feed T" rt_bytes "rt_good T" "split_frames T" for T
proof unfold_locales
  show "rt_good T r'" if "rt_good T r" "frame_feed T r bs = (r', ms)" for r bs r' ms
    using that frame_feed_split unfolding rt_good_def by blast
  show "split_frames T (rt_bytes r @ bs) = (ms, rt_bytes r')"
    if "rt_good T r" "frame_feed T r bs = (r', ms)" for r bs r' ms
    using that frame_feed_split unfolding rt_good_def by blast
  show "split_frames T (rt_bytes r) = ([], rt_bytes r)" if "rt_good T r" for r
    using that rt_open_split unfolding rt_good_def by blast
qed (rule split_frames_append)

section \<open>Properties\<close>

text \<open>
  C14: the read loop computes the specification. From an open task, for every handler, the
  loop calls the handler on exactly the complete frames of the bytes held back and read, in
  order and with consecutive serials from the current one, advances the serial by their
  number, and is left with an open task that holds exactly the incomplete rest.
\<close>

theorem read_loop_frames:
  assumes "buf_ok T" and "rt_open T t" and "read_loop T on_data t i s data = (t', i', s')"
  shows "rt_open T t' \<and>
    (let (fs, rest) = split_frames T (rt_bytes t @ data) in
       rt_bytes t' = rest \<and> i' = i + word_of_nat (length fs) \<and> s' = dispatch_frames on_data i s fs)"
proof -
  obtain fs rest where sp: "split_frames T (rt_bytes t @ data) = (fs, rest)"
    by (cases "split_frames T (rt_bytes t @ data)")
  from read_loop_split [OF assms sp] show ?thesis by (simp add: sp)
qed

theorem read_loop_frames_witness:
  "snd (snd (read_loop demo_toolkit (\<lambda>s i d. s @ [(i, d)]) new_read_task 5 []
     (frame demo_toolkit [9] @ frame demo_toolkit []))) = [(5, [9]), (6, [])]"
proof -
  obtain t i s where r: "read_loop demo_toolkit (\<lambda>s i d. s @ [(i, d)]) new_read_task 5 []
     (frame demo_toolkit [9] @ frame demo_toolkit []) = (t, i, s)"
    by (metis prod.collapse)
  have sp: "split_frames demo_toolkit (frame demo_toolkit [9] @ frame demo_toolkit []) = ([[9], []], [])"
    using split_frames_frames [OF demo_le_ok, of "[[9], []]" "[]"] by simp
  show ?thesis
    using read_loop_frames [OF demo_buf_ok rt_open_new r] by (simp add: sp r)
qed

text \<open>
  C19: framing round trip under every fragmentation. However the bytes of a sequence of framed
  messages are cut into socket reads, the reader gives back exactly those messages, in order,
  and holds nothing back.
\<close>

theorem frames_roundtrip_chunked:
  assumes "le_ok T" and "buf_ok T" and "\<forall>p\<in>set ps. length p < 2 ^ 32"
    and "concat chunks = concat (map (frame T) ps)"
  shows "\<exists>t. feed_all (frame_feed T) new_read_task chunks = (t, ps) \<and> rt_open T t \<and> rt_bytes t = []"
proof -
  obtain t ms where f: "feed_all (frame_feed T) new_read_task chunks = (t, ms)"
    by (cases "feed_all (frame_feed T) new_read_task chunks")
  have "rt_good T new_read_task" using assms(2) by (simp add: rt_good_def)
  from frames.feed_all_spec [OF this f] show ?thesis
    using split_frames_frames [OF assms(1,3), of "[]"] assms(4) f by (simp add: rt_good_def)
qed

theorem frames_roundtrip_chunked_witness:
  "\<exists>t. feed_all (frame_feed demo_toolkit) new_read_task
     [take 3 (frame demo_toolkit [1, 2]), drop 3 (frame demo_toolkit [1, 2])] = (t, [[1, 2]]) \<and>
     rt_open demo_toolkit t \<and> rt_bytes t = []"
  by (rule frames_roundtrip_chunked [OF demo_le_ok demo_buf_ok]) simp_all

text \<open>
  The read task is not reset before its message is handled. If the loop runs for the
  connection again while a message is being handled (a method that waits for an answer polls,
  and the poll dispatches), the task is still finished: the nested loop consumes nothing and
  hands the same message over a second time, under the next serial.
\<close>

lemma nested_read_redelivers:
  assumes "rt_finished t" and "data \<noteq> []"
  shows "read_loop T on_data t i s data =
    read_loop T on_data new_read_task (i + 1) (on_data s i (rt_data t)) data"
  using assms by (subst read_loop.simps) (simp add: rt_read_finished)

lemma nested_read_redelivers_witness:
  "let t = snd (rt_read demo_toolkit new_read_task (frame demo_toolkit [9]))
   in rt_data t = [9] \<and>
      read_loop demo_toolkit (\<lambda>s i d. s @ [(i, d)]) t 1 [(0, [9])] [0] =
      read_loop demo_toolkit (\<lambda>s i d. s @ [(i, d)]) new_read_task 2 [(0, [9]), (1, [9])] [0]"
proof -
  define t where "t = snd (rt_read demo_toolkit new_read_task (frame demo_toolkit [9]))"
  have t: "t = \<lparr>rt_size_buffer = tk_le_write demo_toolkit 1, rt_size_offset = 4, rt_data = [9], rt_data_offset = 1\<rparr>"
    by (simp add: t_def rt_read_def new_read_task_def frame_def copy_into_def rt_fill_defs numeral_eq_Suc)
  have "rt_finished t"
    by (simp add: t rt_finished_def)
  from nested_read_redelivers [OF this, of "[0]" demo_toolkit "\<lambda>s i d. s @ [(i, d)]" 1 "[(0, [9])]"]
  show ?thesis
    by (simp add: t_def [symmetric] t)
qed

end
