(* ===== verification/Bus_Connection.thy ===== *)
theory Bus_Connection
  imports Class_Id Frame_Reader
begin

text \<open>
  \<^verbatim>\<open>LocalBusConnection\<close> (src/src/lib/pbus/LocalBusConnection.h and .cpp): its state, the
  queue of outgoing messages with \<^verbatim>\<open>struct WriteTask\<close>, and the parts of
  \<^verbatim>\<open>HandleSocketEvent\<close> and \<^verbatim>\<open>Send\<close> that concern the connection alone. What connects it to
  the session (\<^verbatim>\<open>Connect\<close>, and the messages handed to \<^verbatim>\<open>Session::OnIncomingData\<close>) is in the
  theory \<open>Session\<close>.
\<close>

section \<open>WriteTask\<close>

record write_task =
  wt_data :: bytes
  wt_offset :: nat

definition mk_write_task :: "bytes \<Rightarrow> write_task" where
  "mk_write_task data = \<lparr>wt_data = data, wt_offset = 0\<rparr>"

definition wt_finished :: "write_task \<Rightarrow> bool" where
  "wt_finished t \<longleftrightarrow> length (wt_data t) \<le> wt_offset t"

definition wt_get_buffer :: "write_task \<Rightarrow> bytes" where
  "wt_get_buffer t = drop (wt_offset t) (wt_data t)"

definition wt_complete :: "nat \<Rightarrow> write_task \<Rightarrow> write_task" where
  "wt_complete n t = t\<lparr>wt_offset := wt_offset t + n\<rparr>"

lemma wt_simps [simp]:
  "wt_get_buffer (mk_write_task d) = d"
  "wt_finished (mk_write_task d) \<longleftrightarrow> d = []"
  "wt_get_buffer (wt_complete n t) = drop n (wt_get_buffer t)"
  by (simp_all add: wt_get_buffer_def mk_write_task_def wt_finished_def wt_complete_def add.commute)

lemma wt_finished_iff: "wt_finished t \<longleftrightarrow> wt_get_buffer t = []"
  by (simp add: wt_finished_def wt_get_buffer_def)

section \<open>The connection\<close>

text \<open>
  \<^verbatim>\<open>_socket\<close> is null, a socket that was created but not connected, or a connected one.
  \<open>conn_registered\<close> says that the socket is in the poll, \<open>conn_out\<close> that
  \<^verbatim>\<open>EventOutput\<close> is among its events (\<^verbatim>\<open>DefaultEvents\<close>, input, error and hangup, always are).
\<close>

datatype socket_state = Unconnected | Connected

record connection =
  conn_service :: service_id
  conn_socket :: "socket_state option"
  conn_registered :: bool
  conn_out :: bool
  conn_write_serial :: u32
  conn_read_serial :: u32
  conn_write_queue :: "write_task list"
  conn_read_task :: read_task

text \<open>The two constructors: for an outgoing connection, and for an accepted socket.\<close>

definition mk_connection :: "service_id \<Rightarrow> connection" where
  "mk_connection service =
     \<lparr>conn_service = service, conn_socket = None, conn_registered = False, conn_out = False,
      conn_write_serial = 0, conn_read_serial = 0, conn_write_queue = [], conn_read_task = new_read_task\<rparr>"

definition mk_accepted_connection :: "service_id \<Rightarrow> connection" where
  "mk_accepted_connection service =
     (mk_connection service)\<lparr>conn_socket := Some Connected, conn_registered := True\<rparr>"

text \<open>\<^verbatim>\<open>GetSocketPath\<close>; \<open>devel\<close> is the macro \<^verbatim>\<open>PBUS_DEVEL_MODE\<close>.\<close>

definition get_socket_path :: "toolkit \<Rightarrow> bool \<Rightarrow> service_id \<Rightarrow> string" where
  "get_socket_path T devel service =
     (if devel then ''.'' else []) @ ''/packages/'' @ class_id_to_string T service @ ''/socket''"

definition enable_write :: "toolkit \<Rightarrow> bool \<Rightarrow> connection \<Rightarrow> exn option \<times> connection" where
  "enable_write T enable c =
     (case tk_poll_modify T (conn_registered c) of
        Some e \<Rightarrow> (Some e, c)
      | None \<Rightarrow> (None, c\<lparr>conn_out := enable\<rparr>))"

text \<open>
  \<^verbatim>\<open>Send\<close> once there is a socket: enable output, then append the task and take the next write
  serial under the lock.
\<close>

definition conn_push :: "bytes \<Rightarrow> connection \<Rightarrow> u32 \<times> connection" where
  "conn_push data c =
     (conn_write_serial c,
      c\<lparr>conn_write_queue := conn_write_queue c @ [mk_write_task data],
        conn_write_serial := conn_write_serial c + 1\<rparr>)"

definition conn_enqueue :: "toolkit \<Rightarrow> bytes \<Rightarrow> connection \<Rightarrow> (exn + u32) \<times> connection" where
  "conn_enqueue T data c =
     (case enable_write T True c of
        (Some e, c') \<Rightarrow> (Inl e, c')
      | (None, c') \<Rightarrow> (case conn_push data c' of (serial, c'') \<Rightarrow> (Inr serial, c'')))"

text \<open>The branch of \<^verbatim>\<open>HandleSocketEvent\<close> for hangup and error, once the socket is out of the poll.\<close>

definition conn_hangup :: "connection \<Rightarrow> connection" where
  "conn_hangup c = c\<lparr>conn_socket := None, conn_registered := False, conn_out := False\<rparr>"

text \<open>
  The end of \<^verbatim>\<open>Connect\<close>: the connected socket is made non-blocking and added to the poll with the
  default events. If one of the two throws, the socket stays connected and is not in the poll.
\<close>

definition conn_connected :: "connection \<Rightarrow> connection" where
  "conn_connected c = c\<lparr>conn_socket := Some Connected, conn_registered := True, conn_out := False\<rparr>"

definition conn_finish :: "toolkit \<Rightarrow> connection \<Rightarrow> exn option \<times> connection" where
  "conn_finish T c =
     (case tk_set_non_blocking T of
        Some e \<Rightarrow> (Some e, c\<lparr>conn_socket := Some Connected\<rparr>)
      | None \<Rightarrow>
          (case tk_poll_add T of
             Some e \<Rightarrow> (Some e, c\<lparr>conn_socket := Some Connected\<rparr>)
           | None \<Rightarrow> (None, conn_connected c)))"

lemma conn_finish_ok [simp]: "poll_ok T \<Longrightarrow> conn_finish T c = (None, conn_connected c)"
  by (simp add: conn_finish_def)

lemma conn_finish_service: "conn_finish T c = (e, c') \<Longrightarrow> conn_service c' = conn_service c"
  by (auto simp: conn_finish_def conn_connected_def split: option.splits)

text \<open>
  The branch for output. \<open>sock_write\<close> is the socket: how many bytes of the buffer it takes,
  or the exception of \<^verbatim>\<open>Write\<close>. The bytes taken are returned as well.
\<close>

definition conn_output ::
  "toolkit \<Rightarrow> (bytes \<Rightarrow> exn + nat) \<Rightarrow> connection \<Rightarrow> exn option \<times> connection \<times> bytes" where
  "conn_output T sock_write c =
     (case conn_write_queue c of
        task # tasks \<Rightarrow>
          (let buffer = wt_get_buffer task in
           case sock_write buffer of
             Inl e \<Rightarrow> (Some e, c, [])
           | Inr r \<Rightarrow>
               (let task' = wt_complete r task;
                    queue' = (if wt_finished task' then tasks else task' # tasks);
                    c' = c\<lparr>conn_write_queue := queue'\<rparr>
                in if queue' = []
                   then (case enable_write T False c' of (e, c'') \<Rightarrow> (e, c'', take r buffer))
                   else (None, c', take r buffer)))
      | [] \<Rightarrow> (case enable_write T False c of (e, c') \<Rightarrow> (e, c', [])))"

text \<open>
  The branch for input up to the loop: \<open>sock_read\<close> is the result of \<^verbatim>\<open>Read\<close>, the returned
  number and the buffer.
\<close>

definition conn_input :: "exn + int \<times> bytes \<Rightarrow> exn + bytes" where
  "conn_input sock_read =
     bind_exn sock_read (\<lambda>(r, buffer).
       if r \<le> 0 then Inl (Exception ''socket read returned bogus value, shutdown?'')
       else Inr (take (nat r) buffer))"

section \<open>The output queue\<close>

definition queued_bytes :: "connection \<Rightarrow> bytes" where
  "queued_bytes c = concat (map wt_get_buffer (conn_write_queue c))"

text \<open>
  The invariant of the output side: the socket is in the poll, no queued task is finished,
  and output events are on exactly when there is something to write.
\<close>

definition conn_ready :: "connection \<Rightarrow> bool" where
  "conn_ready c \<longleftrightarrow>
     conn_registered c \<and> list_all (\<lambda>t. \<not> wt_finished t) (conn_write_queue c) \<and>
     (conn_write_queue c \<noteq> [] \<longrightarrow> conn_out c)"

lemma conn_ready_accepted [simp]: "conn_ready (mk_accepted_connection s)"
  by (simp add: conn_ready_def mk_accepted_connection_def mk_connection_def)

lemma enable_write_registered [simp]:
  "poll_ok T \<Longrightarrow> conn_registered c \<Longrightarrow> enable_write T b c = (None, c\<lparr>conn_out := b\<rparr>)"
  by (simp add: enable_write_def)

lemma conn_enqueue_registered:
  "poll_ok T \<Longrightarrow> conn_registered c \<Longrightarrow> conn_enqueue T d c =
     (Inr (conn_write_serial c),
      c\<lparr>conn_out := True, conn_write_queue := conn_write_queue c @ [mk_write_task d],
        conn_write_serial := conn_write_serial c + 1\<rparr>)"
  by (simp add: conn_enqueue_def conn_push_def)

lemma queued_bytes_enqueue:
  "poll_ok T \<Longrightarrow> conn_registered c \<Longrightarrow> queued_bytes (snd (conn_enqueue T d c)) = queued_bytes c @ d"
  by (simp add: conn_enqueue_registered queued_bytes_def)

lemma conn_ready_enqueue:
  "poll_ok T \<Longrightarrow> conn_ready c \<Longrightarrow> d \<noteq> [] \<Longrightarrow> conn_ready (snd (conn_enqueue T d c))"
  by (simp add: conn_enqueue_registered conn_ready_def)

lemma conn_output_ok:
  assumes "poll_ok T" and "conn_ready c" and "conn_write_queue c = t # ts"
    and "sock_write (wt_get_buffer t) = Inr r"
  defines "q \<equiv> if length (wt_get_buffer t) \<le> r then ts else wt_complete r t # ts"
  shows "conn_output T sock_write c =
    (None, c\<lparr>conn_write_queue := q, conn_out := (q \<noteq> [])\<rparr>, take r (wt_get_buffer t))"
proof -
  have "wt_finished (wt_complete r t) \<longleftrightarrow> length (wt_get_buffer t) \<le> r"
    by (simp add: wt_finished_iff)
  moreover have "conn_registered c" "conn_out c"
    using assms(2,3) by (simp_all add: conn_ready_def)
  ultimately show ?thesis
    using assms by (cases c) (simp add: conn_output_def Let_def)
qed

lemma conn_output_idle:
  "poll_ok T \<Longrightarrow> conn_ready c \<Longrightarrow> conn_write_queue c = [] \<Longrightarrow>
     conn_output T w c = (None, c\<lparr>conn_out := False\<rparr>, [])"
  by (simp add: conn_output_def conn_ready_def)

lemma conn_output_keeps:
  assumes "conn_output T w c = (e, c', out)"
  shows "conn_write_serial c' = conn_write_serial c \<and> conn_read_serial c' = conn_read_serial c \<and>
    conn_read_task c' = conn_read_task c \<and> conn_registered c' = conn_registered c \<and>
    conn_socket c' = conn_socket c \<and> conn_service c' = conn_service c"
  using assms
  by (auto simp: conn_output_def enable_write_def Let_def
      split: list.splits sum.splits option.splits if_splits)

lemma conn_output_bytes:
  assumes "poll_ok T" and "conn_ready c"
    and "\<forall>b r. sock_write b = Inr r \<longrightarrow> r \<le> length b"
    and "conn_output T sock_write c = (None, c', out)"
  shows "out @ queued_bytes c' = queued_bytes c \<and> conn_ready c' \<and> (conn_out c' \<longleftrightarrow> conn_write_queue c' \<noteq> [])"
proof (cases "conn_write_queue c")
  case Nil
  with assms conn_output_idle [OF assms(1,2) Nil] show ?thesis
    by (auto simp: queued_bytes_def conn_ready_def)
next
  case (Cons t ts)
  from Cons assms(4) obtain r where r: "sock_write (wt_get_buffer t) = Inr r"
    by (auto simp: conn_output_def Let_def split: sum.splits)
  note o = conn_output_ok [where sock_write = sock_write, OF assms(1,2) Cons r]
  show ?thesis
    using assms(2,4) Cons
    by (auto simp: o queued_bytes_def conn_ready_def wt_finished_iff split: if_splits)
qed

section \<open>Properties\<close>

text \<open>
  C20: an output event loses, repeats and reorders nothing. Whatever part of the buffer the
  socket takes (up to all of it), the bytes written followed by the bytes still queued are
  the bytes that were queued before, no serial changes, and the invariant of the queue is
  kept: afterwards output events are on exactly when something is left.
\<close>

theorem conn_output_stream:
  assumes "poll_ok T" and "conn_ready c"
    and "\<forall>b r. sock_write b = Inr r \<longrightarrow> r \<le> length b"
    and "conn_output T sock_write c = (None, c', out)"
  shows "out @ queued_bytes c' = queued_bytes c \<and> conn_ready c' \<and> (conn_out c' \<longleftrightarrow> conn_write_queue c' \<noteq> [])"
  by (rule conn_output_bytes [OF assms])

theorem conn_output_stream_witness:
  "let c = snd (conn_enqueue demo_toolkit [1, 2, 3] (mk_accepted_connection \<lparr>Name = ''s'', Version = 1\<rparr>));
       (e, c', out) = conn_output demo_toolkit (\<lambda>b. Inr (min 2 (length b))) c
   in out = [1, 2] \<and> out @ queued_bytes c' = [1, 2, 3] \<and> conn_out c'"
proof -
  define c where "c = snd (conn_enqueue demo_toolkit [1, 2, 3] (mk_accepted_connection \<lparr>Name = ''s'', Version = 1\<rparr>))"
  have ready: "conn_ready c"
    unfolding c_def by (rule conn_ready_enqueue) simp_all
  have c: "c = \<lparr>conn_service = \<lparr>Name = ''s'', Version = 1\<rparr>, conn_socket = Some Connected,
      conn_registered = True, conn_out = True, conn_write_serial = 1, conn_read_serial = 0,
      conn_write_queue = [mk_write_task [1, 2, 3]], conn_read_task = new_read_task\<rparr>"
    by (simp add: c_def conn_enqueue_registered mk_accepted_connection_def mk_connection_def)
  let ?w = "\<lambda>b :: bytes. (Inr (min 2 (length b)) :: exn + nat)"
  obtain c' where out: "conn_output demo_toolkit ?w c = (None, c', [1, 2])"
    and q: "conn_write_queue c' = [wt_complete 2 (mk_write_task [1, 2, 3])]"
    using conn_output_ok [OF demo_poll_ok ready, of "mk_write_task [1, 2, 3]" "[]" ?w 2] by (simp add: c)
  show ?thesis
    using conn_output_stream [OF demo_poll_ok ready _ out] q out
    by (simp add: c_def [symmetric] queued_bytes_def c)
qed

text \<open>
  The sockets of different services have different paths, in development mode and
  outside it.
\<close>

lemma get_socket_path_inject:
  assumes "fmt_ok T"
  shows "get_socket_path T devel a = get_socket_path T devel b \<longleftrightarrow> a = b"
  using assms by (auto simp: get_socket_path_def class_id_to_string_eq intro!: class_id_eqI
      dest!: class_id_to_string_split [where m = "Name a"] simp: word_unat_eq_iff)

text \<open>A run of output events, and the bytes it writes.\<close>

primrec conn_outputs :: "toolkit \<Rightarrow> (bytes \<Rightarrow> exn + nat) \<Rightarrow> nat \<Rightarrow> connection \<Rightarrow> connection \<times> bytes" where
  "conn_outputs T w 0 c = (c, [])"
| "conn_outputs T w (Suc k) c =
     (let (e, c', out) = conn_output T w c; (c'', outs) = conn_outputs T w k c' in (c'', out @ outs))"

lemma conn_outputs_drain:
  assumes T: "poll_ok T" and w: "\<forall>b. b \<noteq> [] \<longrightarrow> (\<exists>r. w b = Inr r \<and> 0 < r \<and> r \<le> length b)"
  shows "conn_ready c \<Longrightarrow> length (queued_bytes c) \<le> k \<Longrightarrow> conn_outputs T w (Suc k) c = (c', out) \<Longrightarrow>
    out = queued_bytes c \<and> conn_write_queue c' = [] \<and> \<not> conn_out c'"
proof (induction k arbitrary: c c' out)
  case 0
  then have "conn_write_queue c = []"
    by (cases "conn_write_queue c") (auto simp: queued_bytes_def conn_ready_def wt_finished_iff)
  with 0 T show ?case by (auto simp: conn_output_idle queued_bytes_def)
next
  case (Suc k)
  show ?case
  proof (cases "conn_write_queue c")
    case Nil
    then have "conn_output T w c = (None, c\<lparr>conn_out := False\<rparr>, [])"
      using T Suc.prems(1) by (simp add: conn_output_idle)
    moreover have "conn_ready (c\<lparr>conn_out := False\<rparr>)" "queued_bytes (c\<lparr>conn_out := False\<rparr>) = []" "queued_bytes c = []"
      using Nil Suc.prems(1) by (simp_all add: conn_ready_def queued_bytes_def)
    ultimately show ?thesis
      using Suc.IH [of "c\<lparr>conn_out := False\<rparr>" c' out] Suc.prems(3) by (simp split: prod.splits)
  next
    case (Cons t ts)
    then have ne: "wt_get_buffer t \<noteq> []"
      using Suc.prems(1) by (simp add: conn_ready_def wt_finished_iff)
    then obtain r where r: "w (wt_get_buffer t) = Inr r" "0 < r" "r \<le> length (wt_get_buffer t)"
      using w by blast
    note o = conn_output_ok [where sock_write = w, OF T Suc.prems(1) Cons r(1)]
    define d where "d = fst (snd (conn_output T w c))"
    have ready: "conn_ready d" and q: "take r (wt_get_buffer t) @ queued_bytes d = queued_bytes c"
      using Suc.prems(1) Cons r(3) by (auto simp: d_def o conn_ready_def queued_bytes_def wt_finished_iff)
    have "length (queued_bytes d) \<le> k"
      using arg_cong [OF q, of length] r(2,3) Suc.prems(2) by simp
    moreover obtain d' out' where run: "conn_outputs T w (Suc k) d = (d', out')"
      by (cases "conn_outputs T w (Suc k) d")
    moreover have "c' = d' \<and> out = take r (wt_get_buffer t) @ out'"
      using Suc.prems(3) run by (simp add: o d_def)
    ultimately show ?thesis
      using Suc.IH [OF ready _ run] q by simp
  qed
qed

text \<open>
  C21: the queue drains. If every output event lets the socket take at least one byte, then
  after one event more than there are queued bytes everything has been written and
  output events are off.
\<close>

theorem conn_queue_drains:
  assumes "poll_ok T" and "conn_ready c"
    and "\<forall>b. b \<noteq> [] \<longrightarrow> (\<exists>r. w b = Inr r \<and> 0 < r \<and> r \<le> length b)"
  shows "\<exists>c'. conn_outputs T w (Suc (length (queued_bytes c))) c = (c', queued_bytes c) \<and>
    conn_write_queue c' = [] \<and> \<not> conn_out c'"
proof -
  obtain c' out where run: "conn_outputs T w (Suc (length (queued_bytes c))) c = (c', out)"
    by (cases "conn_outputs T w (Suc (length (queued_bytes c))) c")
  from conn_outputs_drain [OF assms(1,3,2) order_refl run] run show ?thesis
    by (simp del: conn_outputs.simps)
qed

theorem conn_queue_drains_witness:
  "\<exists>c'. conn_outputs demo_toolkit (\<lambda>b. Inr (min 1 (length b))) (Suc 3)
      (snd (conn_enqueue demo_toolkit [1, 2, 3] (mk_accepted_connection \<lparr>Name = ''s'', Version = 1\<rparr>))) =
      (c', [1, 2, 3]) \<and> conn_write_queue c' = [] \<and> \<not> conn_out c'"
proof -
  let ?a = "mk_accepted_connection \<lparr>Name = ''s'', Version = 1\<rparr>"
  let ?c = "snd (conn_enqueue demo_toolkit [1, 2, 3] ?a)"
  have ready: "conn_ready ?c"
    by (rule conn_ready_enqueue) simp_all
  have "conn_registered ?a" "queued_bytes ?a = []"
    by (simp_all add: mk_accepted_connection_def mk_connection_def queued_bytes_def)
  then have q: "queued_bytes ?c = [1, 2, 3]"
    by (simp add: queued_bytes_enqueue)
  have l: "length [1 :: u8, 2, 3] = 3"
    by simp
  have w: "\<forall>b :: bytes. b \<noteq> [] \<longrightarrow> (\<exists>r. (Inr (min 1 (length b)) :: exn + nat) = Inr r \<and> 0 < r \<and> r \<le> length b)"
    by auto
  show ?thesis
    using conn_queue_drains [OF demo_poll_ok ready w] unfolding q l .
qed

end
