(* ===== verification/Bus_Link.thy ===== *)
theory Bus_Link
  imports Bus_Connection
begin

text \<open>
  Two ends of one connection: the sender's \<^verbatim>\<open>LocalBusConnection\<close> with its queue and write
  serial, the bytes in the socket, and the receiver's read task and read serial. The bus has
  no request number on the wire for a request: the caller takes the number \<^verbatim>\<open>Send\<close> returns
  (\<^verbatim>\<open>_writeSerial++\<close>), the receiver counts the messages it has read (\<^verbatim>\<open>_readSerial++\<close>) and
  puts its count in the answer. This theory proves that the two agree, in every
  interleaving of sending, partial writes and partial reads.
\<close>

section \<open>The link\<close>

record link =
  lk_tx :: connection
  lk_wire :: bytes
  lk_rx :: read_task
  lk_rx_serial :: u32
  lk_sent :: "(u32 \<times> bytes) list"
  lk_got :: "(u32 \<times> bytes) list"

text \<open>
  \<open>lk_sent\<close> records for each payload the serial that \<^verbatim>\<open>Send\<close> returned for it, \<open>lk_got\<close> the
  serial and the payload of each call of \<^verbatim>\<open>Session::OnIncomingData\<close>; they are only
  observations.
\<close>

definition init_link :: "service_id \<Rightarrow> link" where
  "init_link service =
     \<lparr>lk_tx = mk_accepted_connection service, lk_wire = [], lk_rx = new_read_task,
      lk_rx_serial = 0, lk_sent = [], lk_got = []\<rparr>"

definition log_frame :: "(u32 \<times> bytes) list \<Rightarrow> u32 \<Rightarrow> bytes \<Rightarrow> (u32 \<times> bytes) list" where
  "log_frame g i d = g @ [(i, d)]"

inductive link_step :: "toolkit \<Rightarrow> link \<Rightarrow> link \<Rightarrow> bool" for T where
  link_send: "length p < 2 ^ 32 \<Longrightarrow> conn_enqueue T (frame T p) (lk_tx l) = (Inr i, tx) \<Longrightarrow>
    link_step T l (l\<lparr>lk_tx := tx, lk_sent := lk_sent l @ [(i, p)]\<rparr>)"
| link_output: "conn_out (lk_tx l) \<Longrightarrow> \<forall>b r. w b = Inr r \<longrightarrow> r \<le> length b \<Longrightarrow>
    conn_output T w (lk_tx l) = (None, tx, out) \<Longrightarrow>
    link_step T l (l\<lparr>lk_tx := tx, lk_wire := lk_wire l @ out\<rparr>)"
| link_input: "lk_wire l = chunk @ rest \<Longrightarrow> chunk \<noteq> [] \<Longrightarrow>
    read_loop T log_frame (lk_rx l) (lk_rx_serial l) (lk_got l) chunk = (rx, i, got) \<Longrightarrow>
    link_step T l (l\<lparr>lk_rx := rx, lk_rx_serial := i, lk_got := got, lk_wire := rest\<rparr>)"

inductive_cases link_stepE: "link_step T l l'"

section \<open>The invariant\<close>

definition numbered :: "bytes list \<Rightarrow> (u32 \<times> bytes) list" where
  "numbered ps = map (\<lambda>k. (word_of_nat k, ps ! k)) [0..<length ps]"

definition link_inv :: "toolkit \<Rightarrow> link \<Rightarrow> bool" where
  "link_inv T l \<longleftrightarrow>
     (\<exists>ps k. k \<le> length ps \<and> (\<forall>p\<in>set ps. length p < 2 ^ 32) \<and>
       conn_ready (lk_tx l) \<and> rt_open T (lk_rx l) \<and>
       rt_bytes (lk_rx l) @ lk_wire l @ queued_bytes (lk_tx l) = concat (map (frame T) (drop k ps)) \<and>
       conn_write_serial (lk_tx l) = word_of_nat (length ps) \<and> lk_rx_serial l = word_of_nat k \<and>
       lk_sent l = numbered ps \<and> lk_got l = take k (numbered ps))"

lemma length_numbered [simp]: "length (numbered ps) = length ps"
  by (simp add: numbered_def)

lemma numbered_Nil [simp]: "numbered [] = []"
  by (simp add: numbered_def)

lemma numbered_snoc: "numbered (ps @ [p]) = numbered ps @ [(word_of_nat (length ps), p)]"
  by (simp add: numbered_def nth_append)

lemma take_numbered: "k \<le> length ps \<Longrightarrow> take k (numbered ps) = numbered (take k ps)"
  by (simp add: numbered_def take_map)

lemma dispatch_log_numbered:
  "dispatch_frames log_frame (word_of_nat (length ps)) (numbered ps) fs = numbered (ps @ fs)"
proof (induction fs arbitrary: ps)
  case Nil
  then show ?case by simp
next
  case (Cons f fs)
  have "word_of_nat (length ps) + 1 = (word_of_nat (length (ps @ [f])) :: u32)"
    by simp
  then show ?case
    using Cons [of "ps @ [f]"] by (simp add: log_frame_def numbered_snoc del: length_append)
qed

lemma frame_prefix_open:
  assumes "le_ok T" and "length p < 2 ^ 32" and "xs @ ys = frame T p" and "ys \<noteq> []"
  shows "split_frames T xs = ([], xs)"
proof (cases "length xs < 4")
  case True
  then show ?thesis by (rule split_frames_short)
next
  case False
  define h q where "h = tk_le_write T (word_of_nat (length p))" and "q = drop 4 xs"
  have h: "length h = 4" "unat (tk_le_read T h) = length p"
    using assms(1,2) by (simp_all add: h_def unat_of_nat)
  have "take 4 xs = take 4 (xs @ ys)"
    using False by simp
  also have "\<dots> = h"
    using assms(3) h by (simp add: frame_def h_def)
  finally have xs: "xs = h @ q"
    unfolding q_def by (metis append_take_drop_id)
  have "q @ ys = p"
    using assms(3) by (simp add: xs frame_def h_def)
  then have "length q < length p"
    using assms(4) by auto
  then show ?thesis
    unfolding xs using h by (intro split_frames_open) simp_all
qed

lemma split_frames_prefix:
  assumes "le_ok T"
  shows "\<forall>p\<in>set ps. length p < 2 ^ 32 \<Longrightarrow> xs @ ys = concat (map (frame T) ps) \<Longrightarrow>
    \<exists>k r. k \<le> length ps \<and> split_frames T xs = (take k ps, r) \<and> r @ ys = concat (map (frame T) (drop k ps))"
proof (induction ps arbitrary: xs)
  case Nil
  then show ?case by simp
next
  case (Cons p ps)
  have p: "length p < 2 ^ 32" using Cons.prems(1) by simp
  from Cons.prems(2) consider (inside) zs where "xs @ zs = frame T p" "zs \<noteq> []"
    | (past) zs where "xs = frame T p @ zs" "zs @ ys = concat (map (frame T) ps)"
    by (auto simp: append_eq_append_conv2) (metis append_Nil2)+
  then show ?case
  proof cases
    case inside
    with frame_prefix_open [OF assms p] Cons.prems(2) show ?thesis
      by (intro exI [of _ 0] exI [of _ xs]) auto
  next
    case past
    from Cons.IH [OF _ past(2)] Cons.prems(1) obtain k r where
      "k \<le> length ps" "split_frames T zs = (take k ps, r)" "r @ ys = concat (map (frame T) (drop k ps))"
      by auto
    then show ?thesis
      by (intro exI [of _ "Suc k"] exI [of _ r]) (simp add: past(1) split_frames_frame [OF assms p])
  qed
qed

lemma link_inv_init: "link_inv T (init_link service)"
  unfolding link_inv_def
  by (intro exI [of _ "[]"] exI [of _ 0])
    (simp add: init_link_def queued_bytes_def mk_accepted_connection_def mk_connection_def conn_ready_def)

lemma link_inv_step:
  assumes T: "le_ok T" "buf_ok T" "poll_ok T"
    and "link_inv T l" and "link_step T l l'"
  shows "link_inv T l'"
proof -
  from assms(4) obtain ps k where k: "k \<le> length ps" and ps: "\<forall>p\<in>set ps. length p < 2 ^ 32"
    and ready: "conn_ready (lk_tx l)" and rx: "rt_open T (lk_rx l)"
    and stream: "rt_bytes (lk_rx l) @ lk_wire l @ queued_bytes (lk_tx l) = concat (map (frame T) (drop k ps))"
    and ser: "conn_write_serial (lk_tx l) = word_of_nat (length ps)" "lk_rx_serial l = word_of_nat k"
    and logs: "lk_sent l = numbered ps" "lk_got l = take k (numbered ps)"
    unfolding link_inv_def by blast
  from assms(5) show ?thesis
  proof cases
    case (link_send p i tx)
    then have tx: "i = word_of_nat (length ps)" "queued_bytes tx = queued_bytes (lk_tx l) @ frame T p"
        "conn_ready tx" "conn_write_serial tx = word_of_nat (Suc (length ps))"
      using T ready ser queued_bytes_enqueue [OF T(3), of "lk_tx l" "frame T p"]
        conn_ready_enqueue [OF T(3) ready, of "frame T p"]
      by (auto simp: conn_enqueue_registered conn_ready_def)
    show ?thesis
      unfolding link_inv_def
      by (intro exI [of _ "ps @ [p]"] exI [of _ k])
        (use k ps rx stream ser logs tx link_send in \<open>auto simp: numbered_snoc\<close>)
  next
    case (link_output w tx out)
    with conn_output_bytes [OF T(3) ready] conn_output_keeps [of T w "lk_tx l" None tx out]
    show ?thesis
      unfolding link_inv_def
      by (intro exI [of _ ps] exI [of _ k]) (use k ps rx stream ser logs in auto)
  next
    case (link_input chunk rest rx' i got)
    obtain j r where j: "j \<le> length (drop k ps)"
      and sp: "split_frames T (rt_bytes (lk_rx l) @ chunk) = (take j (drop k ps), r)"
      and r: "r @ rest @ queued_bytes (lk_tx l) = concat (map (frame T) (drop j (drop k ps)))"
      using split_frames_prefix [OF T(1), of "drop k ps" "rt_bytes (lk_rx l) @ chunk" "rest @ queued_bytes (lk_tx l)"]
        ps stream link_input(2) by (auto dest: in_set_dropD)
    have log: "take (k + j) (numbered ps) = numbered (take k ps @ take j (drop k ps))"
      using k j by (subst take_numbered) (simp_all add: take_add)
    have got: "rt_open T rx'" "rt_bytes rx' = r" "i = word_of_nat (k + j)" "got = take (k + j) (numbered ps)"
      using read_loop_split [OF T(2) rx link_input(4) sp] ser(2) logs(2) k j
        dispatch_log_numbered [of "take k ps" "take j (drop k ps)"]
      by (simp_all add: take_numbered log)
    show ?thesis
      unfolding link_inv_def
      by (intro exI [of _ ps] exI [of _ "k + j"])
        (use k ps ready ser logs j r got link_input in \<open>simp add: add.commute\<close>)
  qed
qed

lemma link_inv_steps:
  assumes "le_ok T" "buf_ok T" "poll_ok T"
  shows "(link_step T)\<^sup>*\<^sup>* l l' \<Longrightarrow> link_inv T l \<Longrightarrow> link_inv T l'"
  by (induction rule: rtranclp_induct) (auto intro: link_inv_step [OF assms])

lemma link_inv_prefix: "link_inv T l \<Longrightarrow> lk_got l = take (length (lk_got l)) (lk_sent l)"
  unfolding link_inv_def by fastforce

lemma link_inv_quiet:
  assumes "le_ok T" and "link_inv T l" and "lk_wire l = []" and "conn_write_queue (lk_tx l) = []"
  shows "lk_got l = lk_sent l"
proof -
  from assms(2) obtain ps k where k: "k \<le> length ps" "\<forall>p\<in>set ps. length p < 2 ^ 32" "rt_open T (lk_rx l)"
    "rt_bytes (lk_rx l) @ lk_wire l @ queued_bytes (lk_tx l) = concat (map (frame T) (drop k ps))"
    "lk_sent l = numbered ps" "lk_got l = take k (numbered ps)"
    unfolding link_inv_def by blast
  have b: "rt_bytes (lk_rx l) = concat (map (frame T) (drop k ps))"
    using k(4) assms(3,4) by (simp add: queued_bytes_def)
  have "\<forall>p\<in>set (drop k ps). length p < 2 ^ 32"
    using k(2) by (auto dest: in_set_dropD)
  from split_frames_frames [OF assms(1) this, of "[]"] have "drop k ps = []"
    using rt_open_split [OF k(3)] by (simp add: b)
  then show ?thesis using k by simp
qed

section \<open>Delivery\<close>

lemma link_flush:
  assumes "poll_ok T"
  shows "conn_ready (lk_tx l) \<Longrightarrow>
    \<exists>l'. (link_step T)\<^sup>*\<^sup>* l l' \<and> conn_write_queue (lk_tx l') = [] \<and> lk_sent l' = lk_sent l \<and>
      lk_wire l' = lk_wire l @ queued_bytes (lk_tx l) \<and> lk_rx l' = lk_rx l \<and> lk_rx_serial l' = lk_rx_serial l \<and>
      lk_got l' = lk_got l"
proof (induction "length (conn_write_queue (lk_tx l))" arbitrary: l)
  case 0
  then show ?case by (auto simp: queued_bytes_def)
next
  case (Suc n)
  then obtain t ts where q: "conn_write_queue (lk_tx l) = t # ts"
    by (metis length_Suc_conv)
  let ?w = "\<lambda>b :: bytes. (Inr (length b) :: exn + nat)"
  have "conn_output T ?w (lk_tx l) =
      (None, (lk_tx l)\<lparr>conn_write_queue := ts, conn_out := (ts \<noteq> [])\<rparr>, wt_get_buffer t)"
    using conn_output_ok [OF assms Suc.prems q, of ?w] by simp
  then obtain tx where o: "conn_output T ?w (lk_tx l) = (None, tx, wt_get_buffer t)"
    and tx: "conn_write_queue tx = ts" "conn_ready tx"
    using Suc.prems q by (auto simp: conn_ready_def)
  define m where "m = l\<lparr>lk_tx := tx, lk_wire := lk_wire l @ wt_get_buffer t\<rparr>"
  have "link_step T l m"
    unfolding m_def using Suc.prems q by (intro link_output [OF _ _ o]) (auto simp: conn_ready_def)
  moreover obtain l' where "(link_step T)\<^sup>*\<^sup>* m l'" "conn_write_queue (lk_tx l') = []" "lk_sent l' = lk_sent m"
      "lk_wire l' = lk_wire m @ queued_bytes (lk_tx m)" "lk_rx l' = lk_rx m" "lk_rx_serial l' = lk_rx_serial m" "lk_got l' = lk_got m"
    using Suc.hyps(1) [of m] Suc.hyps(2) q tx by (auto simp: m_def)
  ultimately show ?case
    using q tx(1) by (intro exI [of _ l']) (auto simp: m_def queued_bytes_def intro: converse_rtranclp_into_rtranclp)
qed

lemma link_drain_wire:
  "\<exists>l'. (link_step T)\<^sup>*\<^sup>* l l' \<and> lk_wire l' = [] \<and> lk_tx l' = lk_tx l \<and> lk_sent l' = lk_sent l"
proof (cases "lk_wire l = []")
  case False
  obtain rx i got where r: "read_loop T log_frame (lk_rx l) (lk_rx_serial l) (lk_got l) (lk_wire l) = (rx, i, got)"
    by (cases "read_loop T log_frame (lk_rx l) (lk_rx_serial l) (lk_got l) (lk_wire l)")
  let ?l' = "l\<lparr>lk_rx := rx, lk_rx_serial := i, lk_got := got, lk_wire := []\<rparr>"
  have "link_step T l ?l'"
    by (rule link_input [where chunk = "lk_wire l"]) (simp_all add: False r)
  then show ?thesis
    by (intro exI [of _ ?l']) auto
qed auto

lemma link_inv_ready: "link_inv T l \<Longrightarrow> conn_ready (lk_tx l)"
  unfolding link_inv_def by blast

lemma link_inv_delivers:
  assumes "le_ok T" "buf_ok T" "poll_ok T" and inv: "link_inv T l"
  shows "\<exists>l'. (link_step T)\<^sup>*\<^sup>* l l' \<and> lk_sent l' = lk_sent l \<and> lk_got l' = lk_sent l"
proof -
  obtain m where m: "(link_step T)\<^sup>*\<^sup>* l m" "conn_write_queue (lk_tx m) = []" "lk_sent m = lk_sent l"
    using link_flush [OF assms(3) link_inv_ready [OF inv]] by blast
  obtain l' where l': "(link_step T)\<^sup>*\<^sup>* m l'" "lk_wire l' = []" "lk_tx l' = lk_tx m" "lk_sent l' = lk_sent m"
    using link_drain_wire by blast
  have run: "(link_step T)\<^sup>*\<^sup>* l l'" using m(1) l'(1) by simp
  have "link_inv T l'" by (rule link_inv_steps [OF assms(1-3) run inv])
  then have "lk_got l' = lk_sent l'"
    using link_inv_quiet [OF assms(1)] l' m by simp
  with run m l' show ?thesis by auto
qed

lemma link_send_init:
  assumes "poll_ok T" and "length p < 2 ^ 32"
  shows "\<exists>l. link_step T (init_link service) l \<and> lk_sent l = [(0, p)]"
proof -
  let ?l = "init_link service"
  obtain tx where "conn_enqueue T (frame T p) (lk_tx ?l) = (Inr 0, tx)"
    using assms(1) by (simp add: conn_enqueue_registered init_link_def mk_accepted_connection_def mk_connection_def)
  from link_send [OF assms(2) this] show ?thesis
    by (auto simp: init_link_def)
qed

section \<open>Reconnecting\<close>

text \<open>
  After a hangup \<^verbatim>\<open>HandleSocketEvent\<close> drops the socket and keeps everything else; the next
  \<^verbatim>\<open>Send\<close> makes \<^verbatim>\<open>Connect\<close> create a new socket and add it to the poll
  (\<open>conn_connected\<close>). The peer accepts the new socket with a new connection object.
\<close>

definition relink :: "link \<Rightarrow> link" where
  "relink l =
     \<lparr>lk_tx = conn_connected (conn_hangup (lk_tx l)), lk_wire = [], lk_rx = new_read_task,
      lk_rx_serial = 0, lk_sent = [], lk_got = []\<rparr>"

section \<open>Properties\<close>

text \<open>
  C11: serial numbers agree. In every state that two connected ends reach, whatever was sent,
  however the writes and the reads were cut, the messages handed to the receiving session
  are a prefix of those sent, in order, with unchanged payload, and each carries the serial
  that the sender's \<^verbatim>\<open>Send\<close> returned for it.
\<close>

theorem link_serials_agree:
  assumes "le_ok T" and "buf_ok T" and "poll_ok T"
    and "(link_step T)\<^sup>*\<^sup>* (init_link service) l"
  shows "lk_got l = take (length (lk_got l)) (lk_sent l)"
  by (rule link_inv_prefix) (rule link_inv_steps [OF assms link_inv_init])

theorem link_serials_agree_witness:
  "\<exists>l. (link_step demo_toolkit)\<^sup>*\<^sup>* (init_link \<lparr>Name = ''s'', Version = 1\<rparr>) l \<and>
     lk_got l = [(0, [7])] \<and> lk_got l = take (length (lk_got l)) (lk_sent l)"
proof -
  let ?i = "init_link \<lparr>Name = ''s'', Version = 1\<rparr>"
  obtain m where m: "link_step demo_toolkit ?i m" "lk_sent m = [(0, [7])]"
    using link_send_init [OF demo_poll_ok, of "[7]"] by auto
  have "link_inv demo_toolkit m"
    by (rule link_inv_step [OF demo_le_ok demo_buf_ok demo_poll_ok link_inv_init m(1)])
  then obtain l where l: "(link_step demo_toolkit)\<^sup>*\<^sup>* m l" "lk_got l = [(0, [7])]"
    using link_inv_delivers [OF demo_le_ok demo_buf_ok demo_poll_ok] m(2) by metis
  have run: "(link_step demo_toolkit)\<^sup>*\<^sup>* ?i l"
    using m(1) l(1) by (rule converse_rtranclp_into_rtranclp)
  from link_serials_agree [OF demo_le_ok demo_buf_ok demo_poll_ok run] run l(2) show ?thesis
    by blast
qed

text \<open>
  C12: everything sent can be delivered. From every state that two connected ends reach, output
  and input events alone, without another message being sent, lead to a state in which the
  receiver has got exactly the messages sent, with their serials.
\<close>

theorem link_delivers:
  assumes "le_ok T" and "buf_ok T" and "poll_ok T"
    and "(link_step T)\<^sup>*\<^sup>* (init_link service) l"
  shows "\<exists>l'. (link_step T)\<^sup>*\<^sup>* l l' \<and> lk_sent l' = lk_sent l \<and> lk_got l' = lk_sent l"
  by (rule link_inv_delivers [OF assms(1-3)]) (rule link_inv_steps [OF assms link_inv_init])

theorem link_delivers_witness:
  "\<exists>l l'. lk_sent l = [(0, [7])] \<and> (link_step demo_toolkit)\<^sup>*\<^sup>* l l' \<and> lk_got l' = [(0, [7])]"
proof -
  obtain l where l: "link_step demo_toolkit (init_link \<lparr>Name = ''s'', Version = 1\<rparr>) l" "lk_sent l = [(0, [7])]"
    using link_send_init [OF demo_poll_ok, of "[7]"] by auto
  have "\<exists>l'. (link_step demo_toolkit)\<^sup>*\<^sup>* l l' \<and> lk_sent l' = lk_sent l \<and> lk_got l' = lk_sent l"
    by (rule link_delivers [OF demo_le_ok demo_buf_ok demo_poll_ok r_into_rtranclp [of "link_step demo_toolkit", OF l(1)]])
  with l(2) show ?thesis by metis
qed

text \<open>
  A reconnect breaks the agreement. If the sender has sent \<open>n\<close> messages and its queue is
  empty when the socket hangs up, then the first message after the reconnect has serial
  \<open>n\<close> at the sender and 0 at the receiver: the hangup keeps \<^verbatim>\<open>_writeSerial\<close>, and the
  accepting side starts to count anew. An answer to it names serial 0.
\<close>

lemma reconnect_serials_differ:
  assumes "le_ok T" and "buf_ok T" and "poll_ok T"
    and "(link_step T)\<^sup>*\<^sup>* (init_link service) l" and "conn_write_queue (lk_tx l) = []"
    and "length p < 2 ^ 32"
  shows "\<exists>l'. (link_step T)\<^sup>*\<^sup>* (relink l) l' \<and>
    lk_sent l' = [(word_of_nat (length (lk_sent l)), p)] \<and> lk_got l' = [(0, p)]"
proof -
  let ?tx = "lk_tx (relink l)" and ?n = "word_of_nat (length (lk_sent l)) :: u32"
  let ?c = "?tx\<lparr>conn_out := True, conn_write_queue := [mk_write_task (frame T p)], conn_write_serial := ?n + 1\<rparr>"
  have "link_inv T l" by (rule link_inv_steps [OF assms(1-4) link_inv_init])
  then have "conn_write_serial (lk_tx l) = ?n"
    unfolding link_inv_def by auto
  then have "conn_enqueue T (frame T p) ?tx = (Inr ?n, ?c)"
    using assms(3,5) by (simp add: conn_enqueue_registered relink_def conn_connected_def conn_hangup_def)
  note send = link_send [OF assms(6) this]
  let ?l1 = "(relink l)\<lparr>lk_tx := ?c, lk_sent := lk_sent (relink l) @ [(?n, p)]\<rparr>"
  let ?w = "\<lambda>b :: bytes. (Inr (length b) :: exn + nat)"
  have ready: "conn_ready (lk_tx ?l1)" and q: "conn_write_queue (lk_tx ?l1) = mk_write_task (frame T p) # []"
    using assms(1) by (simp_all add: conn_ready_def relink_def conn_connected_def)
  obtain tx where o: "conn_output T ?w (lk_tx ?l1) = (None, tx, frame T p)"
    using conn_output_ok [OF assms(3) ready q, of ?w] by auto
  let ?l2 = "?l1\<lparr>lk_tx := tx, lk_wire := lk_wire ?l1 @ frame T p\<rparr>"
  have wr: "link_step T ?l1 ?l2"
    by (rule link_output [OF _ _ o]) simp_all
  obtain rx i got where r: "read_loop T log_frame new_read_task 0 [] (frame T p) = (rx, i, got)"
    by (cases "read_loop T log_frame new_read_task 0 [] (frame T p)")
  have "split_frames T (rt_bytes new_read_task @ frame T p) = ([p], [])"
    using split_frames_frame [OF assms(1,6), of "[]"] by simp
  from read_loop_split [OF assms(2) rt_open_new r this] have got: "got = [(0, p)]"
    by (simp add: log_frame_def)
  have "link_step T ?l2 (?l2\<lparr>lk_rx := rx, lk_rx_serial := i, lk_got := got, lk_wire := []\<rparr>)"
    by (rule link_input [where chunk = "frame T p"]) (use r assms(1) in \<open>simp_all add: relink_def\<close>)
  with send wr have run: "(link_step T)\<^sup>*\<^sup>* (relink l) (?l2\<lparr>lk_rx := rx, lk_rx_serial := i, lk_got := got, lk_wire := []\<rparr>)"
    by (meson converse_rtranclp_into_rtranclp rtranclp.rtrancl_refl)
  show ?thesis
    by (rule exI, rule conjI [OF run]) (simp add: got relink_def)
qed

lemma reconnect_serials_differ_witness:
  "\<exists>l l'. lk_sent l = [(0, [7])] \<and> (link_step demo_toolkit)\<^sup>*\<^sup>* (relink l) l' \<and>
     lk_sent l' = [(1, [8])] \<and> lk_got l' = [(0, [8])]"
proof -
  let ?i = "init_link \<lparr>Name = ''s'', Version = 1\<rparr>"
  obtain m where m: "link_step demo_toolkit ?i m" "lk_sent m = [(0, [7])]"
    using link_send_init [OF demo_poll_ok, of "[7]"] by auto
  have "link_inv demo_toolkit m"
    by (rule link_inv_step [OF demo_le_ok demo_buf_ok demo_poll_ok link_inv_init m(1)])
  then obtain l where l: "(link_step demo_toolkit)\<^sup>*\<^sup>* m l" "conn_write_queue (lk_tx l) = []" "lk_sent l = lk_sent m"
    using link_flush [OF demo_poll_ok link_inv_ready] by blast
  have run: "(link_step demo_toolkit)\<^sup>*\<^sup>* ?i l"
    using m(1) l(1) by (rule converse_rtranclp_into_rtranclp)
  from reconnect_serials_differ [OF demo_le_ok demo_buf_ok demo_poll_ok run l(2), of "[8]"]
  show ?thesis using m(2) l(3) by auto
qed

end
