(* ===== verification/Conn_Race.thy ===== *)
theory Conn_Race
  imports Bus_Connection
begin

text \<open>
  \<^verbatim>\<open>LocalBusConnection::Send\<close> against \<^verbatim>\<open>HandleSocketEvent\<close>, in two threads. \<^verbatim>\<open>Send\<close> enables output
  events before it takes the lock and appends its task; an output event that is handled in
  between finds the queue empty and disables them again.
\<close>

section \<open>Interleavings\<close>

text \<open>
  A connection, and the messages of the senders that have passed \<^verbatim>\<open>EnableWrite(true)\<close> and not yet
  taken the lock. An output event is delivered only while output events are enabled.
\<close>

record race =
  rc_conn :: connection
  rc_pending :: "bytes list"

inductive race_step :: "toolkit \<Rightarrow> race \<Rightarrow> race \<Rightarrow> bool" for T where
  race_enable: "enable_write T True (rc_conn r) = (None, c) \<Longrightarrow>
    race_step T r (r\<lparr>rc_conn := c, rc_pending := d # rc_pending r\<rparr>)"
| race_push: "d \<in> set (rc_pending r) \<Longrightarrow> conn_push d (rc_conn r) = (i, c) \<Longrightarrow>
    race_step T r (r\<lparr>rc_conn := c, rc_pending := remove1 d (rc_pending r)\<rparr>)"
| race_output: "conn_out (rc_conn r) \<Longrightarrow> conn_output T w (rc_conn r) = (None, c, out) \<Longrightarrow>
    race_step T r (r\<lparr>rc_conn := c\<rparr>)"

inductive_cases race_stepE: "race_step T r r'"

inductive_simps race_step_idle: "race_step T \<lparr>rc_conn = c, rc_pending = []\<rparr> r'"

section \<open>Properties\<close>

text \<open>
  C31: a wake-up can be lost. From every connection whose queue is empty, one \<^verbatim>\<open>Send\<close> and one output
  event can interleave so that the message is queued, no sender is active and output events are
  off: the message stays in the queue, because every step from there begins another \<^verbatim>\<open>Send\<close>.
\<close>

theorem send_wakeup_lost:
  assumes "poll_ok T" and "conn_registered c" and "conn_write_queue c = []"
  shows "\<exists>c'. (race_step T)\<^sup>*\<^sup>* \<lparr>rc_conn = c, rc_pending = []\<rparr> \<lparr>rc_conn = c', rc_pending = []\<rparr> \<and>
    conn_write_queue c' = [mk_write_task d] \<and> \<not> conn_out c' \<and>
    (\<forall>r. race_step T \<lparr>rc_conn = c', rc_pending = []\<rparr> r \<longrightarrow> rc_pending r \<noteq> [] \<and> conn_write_queue (rc_conn r) = [mk_write_task d])"
proof -
  let ?c1 = "c\<lparr>conn_out := True\<rparr>" and ?c2 = "c\<lparr>conn_out := False\<rparr>"
  let ?c3 = "?c2\<lparr>conn_write_queue := [mk_write_task d], conn_write_serial := conn_write_serial c + 1\<rparr>"
  have "race_step T \<lparr>rc_conn = c, rc_pending = []\<rparr> \<lparr>rc_conn = ?c1, rc_pending = [d]\<rparr>"
    using race_enable [of T "\<lparr>rc_conn = c, rc_pending = []\<rparr>" ?c1 d] assms by simp
  moreover have "race_step T \<lparr>rc_conn = ?c1, rc_pending = [d]\<rparr> \<lparr>rc_conn = ?c2, rc_pending = [d]\<rparr>"
    using race_output [of "\<lparr>rc_conn = ?c1, rc_pending = [d]\<rparr>" T "\<lambda>b. Inr 0" ?c2 "[]"] assms
    by (simp add: conn_output_def)
  moreover have "race_step T \<lparr>rc_conn = ?c2, rc_pending = [d]\<rparr> \<lparr>rc_conn = ?c3, rc_pending = []\<rparr>"
    using race_push [of d "\<lparr>rc_conn = ?c2, rc_pending = [d]\<rparr>" "conn_write_serial c" ?c3 T] assms
    by (simp add: conn_push_def)
  ultimately have "(race_step T)\<^sup>*\<^sup>* \<lparr>rc_conn = c, rc_pending = []\<rparr> \<lparr>rc_conn = ?c3, rc_pending = []\<rparr>"
    by (meson converse_rtranclp_into_rtranclp rtranclp.rtrancl_refl)
  moreover have "rc_pending r \<noteq> [] \<and> conn_write_queue (rc_conn r) = [mk_write_task d]"
    if "race_step T \<lparr>rc_conn = ?c3, rc_pending = []\<rparr> r" for r
    using that assms(1,2) by (auto simp: race_step_idle)
  ultimately show ?thesis
    by (intro exI [of _ ?c3]) simp
qed

theorem send_wakeup_lost_witness:
  "\<exists>c'. (race_step demo_toolkit)\<^sup>*\<^sup>* \<lparr>rc_conn = mk_accepted_connection \<lparr>Name = ''s'', Version = 1\<rparr>, rc_pending = []\<rparr>
      \<lparr>rc_conn = c', rc_pending = []\<rparr> \<and> conn_write_queue c' = [mk_write_task [1]] \<and> \<not> conn_out c'"
  using send_wakeup_lost [OF demo_poll_ok, of "mk_accepted_connection \<lparr>Name = ''s'', Version = 1\<rparr>" "[1]"]
  by (auto simp: mk_accepted_connection_def mk_connection_def)

end
