(* ===== verification/Session.thy ===== *)
theory Session
  imports Object_Id Response_Parser Bus_Connection
begin

text \<open>
  \<^verbatim>\<open>pbus::Session\<close> (src/src/lib/pbus/Session.h and Session.cpp): the tables of a process, the
  requests it makes and the messages it handles; with it the parts of
  \<^verbatim>\<open>LocalBusConnection\<close> that call the session: \<^verbatim>\<open>Connect\<close>, \<^verbatim>\<open>Send\<close> and the event handler.

  The session is passed explicitly. A connection object is identified with its entry of
  \<^verbatim>\<open>_connections\<close>, a response parser with its entry of \<^verbatim>\<open>_requests\<close>: the code reaches them
  only through these tables. \<open>'o\<close> is the type of references to local objects, \<open>'w\<close> the rest
  of the process: the operating system and the state of the local objects.
\<close>

section \<open>State and environment\<close>

text \<open>\<^verbatim>\<open>IServiceFactory\<close>: \<^verbatim>\<open>ServiceComponentFactory::Get\<close> returns its one static instance.\<close>

record 'o service_factory =
  sf_instance :: 'o

definition service_factory_get :: "'o service_factory \<Rightarrow> 'o" where
  "service_factory_get f = sf_instance f"

record 'o session =
  ss_factories :: "class_id \<rightharpoonup> component_factory"
  ss_connections :: "service_id \<rightharpoonup> connection"
  ss_services :: "service_id \<rightharpoonup> 'o service_factory"
  ss_requests :: "service_id \<rightharpoonup> (u32 \<rightharpoonup> response_parser)"
  ss_local_objects :: "object_id \<rightharpoonup> 'o"

text \<open>
  What the session calls outside itself: \<open>env_connect\<close> is \<^verbatim>\<open>LocalSocket::Connect\<close> to the
  endpoint with the given path, \<open>env_invoke\<close> the virtual call \<^verbatim>\<open>__pbus__invoke\<close> on a local
  object, which gives the bytes it writes to the result stream or the exception it throws and
  may use the session, to call other services, as well as the world; \<open>env_devel\<close> is the macro \<^verbatim>\<open>PBUS_DEVEL_MODE\<close>.
\<close>

record ('o, 'w) env =
  env_connect :: "string \<Rightarrow> 'w \<Rightarrow> exn option \<times> 'w"
  env_invoke :: "'o \<Rightarrow> string \<Rightarrow> bytes \<Rightarrow> 'o session \<times> 'w \<Rightarrow> (exn + bytes) \<times> 'o session \<times> 'w"
  env_devel :: bool

type_synonym ('o, 'w) state = "'o session \<times> 'w"

text \<open>An implementation that does not use the session.\<close>

definition on_world :: "('w \<Rightarrow> 'r \<times> 'w) \<Rightarrow> ('o, 'w) state \<Rightarrow> 'r \<times> ('o, 'w) state" where
  "on_world f st = (case f (snd st) of (r, w) \<Rightarrow> (r, (fst st, w)))"

lemma on_world_simp [simp]: "on_world f (s, w) = (case f w of (r, w1) \<Rightarrow> (r, (s, w1)))"
  by (simp add: on_world_def)

text \<open>
  \<open>start\<close> stands for \<^verbatim>\<open>session.GetService<IServiceManager>()->start(name, version)\<close>, the call
  by which \<^verbatim>\<open>Connect\<close> has a service started. It runs the session again.
\<close>

type_synonym ('o, 'w) start_fun = "service_id \<Rightarrow> ('o, 'w) state \<Rightarrow> exn option \<times> ('o, 'w) state"

definition empty_session :: "'o session" where
  "empty_session =
     \<lparr>ss_factories = Map.empty, ss_connections = Map.empty, ss_services = Map.empty,
      ss_requests = Map.empty, ss_local_objects = Map.empty\<rparr>"

definition service_manager_id :: service_id where
  "service_manager_id = \<lparr>Name = ''system.ServiceManager'', Version = 1\<rparr>"

text \<open>The message types, the first byte of every message.\<close>

definition request_invoke :: u8 where "request_invoke = 0"
definition request_get :: u8 where "request_get = 1"
definition request_set :: u8 where "request_set = 2"
definition request_invoke_static :: u8 where "request_invoke_static = 3"
definition request_subscribe :: u8 where "request_subscribe = 4"
definition request_release :: u8 where "request_release = 5"
definition response_result :: u8 where "response_result = 6"
definition response_exception :: u8 where "response_exception = 7"
definition response_signal :: u8 where "response_signal = 8"

lemmas message_types [simp] =
  request_invoke_def request_get_def request_set_def request_invoke_static_def request_subscribe_def
  request_release_def response_result_def response_exception_def response_signal_def

section \<open>The tables\<close>

definition register_proxy :: "class_id \<Rightarrow> class_id \<Rightarrow> bool \<Rightarrow> 'o session \<Rightarrow> 'o session" where
  "register_proxy interface class_id force s =
     (if \<not> force \<and> ss_factories s class_id \<noteq> None then s
      else s\<lparr>ss_factories := (ss_factories s)(class_id \<mapsto> mk_component_factory interface class_id)\<rparr>)"

definition register_service :: "class_id \<Rightarrow> 'o service_factory \<Rightarrow> 'o session \<Rightarrow> 'o session" where
  "register_service class_id factory s = s\<lparr>ss_services := (ss_services s)(class_id \<mapsto> factory)\<rparr>"

definition get_factory :: "'o session \<Rightarrow> class_id \<Rightarrow> component_factory option" where
  "get_factory s class_id = ss_factories s class_id"

definition add_connection :: "service_id \<Rightarrow> connection \<Rightarrow> 'o session \<Rightarrow> 'o session" where
  "add_connection service c s = s\<lparr>ss_connections := (ss_connections s)(service \<mapsto> c)\<rparr>"

definition get_local_service :: "service_id \<Rightarrow> 'o session \<Rightarrow> 'o option \<times> 'o session" where
  "get_local_service service s =
     (case ss_services s service of
        None \<Rightarrow> (None, s)
      | Some f \<Rightarrow>
          (let obj = service_factory_get f in
           (Some obj,
            s\<lparr>ss_local_objects := map_emplace (ss_local_objects s) (mk_object_id service 0) obj\<rparr>)))"

text \<open>\<^verbatim>\<open>Session::Connect\<close>: find the connection, or insert a new one without a socket.\<close>

definition session_connect :: "service_id \<Rightarrow> 'o session \<Rightarrow> 'o session" where
  "session_connect service s =
     (case ss_connections s service of
        Some _ \<Rightarrow> s
      | None \<Rightarrow> s\<lparr>ss_connections := map_emplace (ss_connections s) service (mk_connection service)\<rparr>)"

definition with_conn :: "service_id \<Rightarrow> (connection \<Rightarrow> connection) \<Rightarrow> 'o session \<Rightarrow> 'o session" where
  "with_conn service f s =
     (case ss_connections s service of
        None \<Rightarrow> s
      | Some c \<Rightarrow> s\<lparr>ss_connections := (ss_connections s)(service \<mapsto> f c)\<rparr>)"

section \<open>Sending\<close>

text \<open>The end of \<^verbatim>\<open>Connect\<close>, on the connection of a service.\<close>

definition finish_connect :: "toolkit \<Rightarrow> service_id \<Rightarrow> ('o, 'w) state \<Rightarrow> exn option \<times> ('o, 'w) state" where
  "finish_connect T service st =
     (case ss_connections (fst st) service of
        None \<Rightarrow> (None, st)
      | Some c \<Rightarrow>
          (case conn_finish T c of
             (e, c') \<Rightarrow> (e, ((fst st)\<lparr>ss_connections := (ss_connections (fst st))(service \<mapsto> c')\<rparr>, snd st))))"

lemma finish_connect_ok [simp]: "poll_ok T \<Longrightarrow> finish_connect T service (s, w) = (None, (with_conn service conn_connected s, w))"
  by (simp add: finish_connect_def with_conn_def split: option.split)

text \<open>
  \<^verbatim>\<open>LocalBusConnection::Connect\<close>. The new socket is stored before it is connected. If the
  first attempt throws, the service manager is asked to start the service (unless it is the
  service manager that cannot be reached) and the attempt is repeated once.
\<close>

definition conn_open ::
  "toolkit \<Rightarrow> ('o, 'w) env \<Rightarrow> ('o, 'w) start_fun \<Rightarrow> service_id \<Rightarrow> ('o, 'w) state \<Rightarrow> exn option \<times> ('o, 'w) state" where
  "conn_open T E start service st =
     (case st of (s, w) \<Rightarrow>
      case ss_connections s service of
        None \<Rightarrow> (None, (s, w))
      | Some c \<Rightarrow>
          if conn_socket c \<noteq> None then (None, (s, w))
          else
            (let s1 = with_conn service (\<lambda>c. c\<lparr>conn_socket := Some Unconnected\<rparr>) s;
                 path = get_socket_path T (env_devel E) (conn_service c)
             in case env_connect E path w of
                  (None, w1) \<Rightarrow> finish_connect T service (s1, w1)
                | (Some e, w1) \<Rightarrow>
                    if class_id_eq (conn_service c) service_manager_id
                    then (Some (Exception (''cannot connect to ServiceManager to create service '' @
                            class_id_to_string T (conn_service c))), (s1, w1))
                    else
                      (case start (conn_service c) (s1, w1) of
                         (Some e', st2) \<Rightarrow> (Some e', st2)
                       | (None, (s2, w2)) \<Rightarrow>
                           (case env_connect E path w2 of
                              (Some e', w3) \<Rightarrow> (Some e', (s2, w3))
                            | (None, w3) \<Rightarrow> finish_connect T service (s2, w3)))))"

text \<open>\<^verbatim>\<open>LocalBusConnection::Send\<close> on the connection of a service.\<close>

definition conn_send ::
  "toolkit \<Rightarrow> ('o, 'w) env \<Rightarrow> ('o, 'w) start_fun \<Rightarrow> service_id \<Rightarrow> bytes \<Rightarrow> ('o, 'w) state \<Rightarrow>
   (exn + u32) \<times> ('o, 'w) state" where
  "conn_send T E start service data st =
     (case conn_open T E start service st of
        (Some e, st1) \<Rightarrow> (Inl e, st1)
      | (None, (s1, w1)) \<Rightarrow>
          (case ss_connections s1 service of
             None \<Rightarrow> (Inl (Exception ''no connection''), (s1, w1))
           | Some c \<Rightarrow>
               (case conn_enqueue T data c of
                  (r, c') \<Rightarrow> (r, (s1\<lparr>ss_connections := (ss_connections s1)(service \<mapsto> c')\<rparr>, w1)))))"

definition session_send ::
  "toolkit \<Rightarrow> ('o, 'w) env \<Rightarrow> ('o, 'w) start_fun \<Rightarrow> service_id \<Rightarrow> bytes \<Rightarrow> ('o, 'w) state \<Rightarrow>
   (exn + u32) \<times> ('o, 'w) state" where
  "session_send T E start service data st =
     (case st of (s, w) \<Rightarrow>
      let s1 = session_connect service s in
      case ss_connections s1 service of
        None \<Rightarrow> (Inl (Exception (''no connection to service '' @ class_id_to_string T service @ '' possible'')), (s1, w))
      | Some _ \<Rightarrow> conn_send T E start service data (s1, w))"

text \<open>
  The message buffer of \<^verbatim>\<open>MakeRequest\<close> and \<^verbatim>\<open>OnIncomingInvoke\<close>: four bytes of header, the
  body appended behind them, then the header overwritten with the length of the body.
\<close>

definition message_bytes :: "toolkit \<Rightarrow> bytes \<Rightarrow> bytes" where
  "message_bytes T body =
     (let data = tk_resize T 4 [] @ body
      in copy_into data 0 (tk_le_write T (word_of_nat (length data - 4))))"

definition make_request ::
  "toolkit \<Rightarrow> ('o, 'w) env \<Rightarrow> ('o, 'w) start_fun \<Rightarrow> service_id \<Rightarrow> u8 \<Rightarrow> wire_value list \<Rightarrow> ('o, 'w) state \<Rightarrow>
   (exn + u32) \<times> ('o, 'w) state" where
  "make_request T E start origin request_type args st =
     session_send T E start origin (message_bytes T (serialize T (VU8 request_type # args))) st"

section \<open>Requests\<close>

text \<open>\<^verbatim>\<open>_requests[origin][serial] = parser\<close>\<close>

definition put_parser :: "service_id \<Rightarrow> u32 \<Rightarrow> response_parser \<Rightarrow> 'o session \<Rightarrow> 'o session" where
  "put_parser origin serial p s =
     s\<lparr>ss_requests := (ss_requests s)(origin \<mapsto>
         (case ss_requests s origin of None \<Rightarrow> Map.empty | Some m \<Rightarrow> m)(serial \<mapsto> p))\<rparr>"

definition get_response_parser :: "'o session \<Rightarrow> service_id \<Rightarrow> u32 \<Rightarrow> response_parser option" where
  "get_response_parser s origin serial =
     (case ss_requests s origin of None \<Rightarrow> None | Some requests \<Rightarrow> requests serial)"

text \<open>\<^verbatim>\<open>PopResponseParser\<close>; nothing in the program calls it.\<close>

definition pop_response_parser ::
  "service_id \<Rightarrow> u32 \<Rightarrow> 'o session \<Rightarrow> response_parser option \<times> 'o session" where
  "pop_response_parser origin serial s =
     (case ss_requests s origin of
        None \<Rightarrow> (None, s)
      | Some requests \<Rightarrow>
          (case requests serial of
             None \<Rightarrow> (None, s)
           | Some r \<Rightarrow>
               (Some r,
                if rp_finished r then s\<lparr>ss_requests := (ss_requests s)(origin \<mapsto> requests(serial := None))\<rparr> else s)))"

definition session_invoke ::
  "toolkit \<Rightarrow> ('o, 'w) env \<Rightarrow> ('o, 'w) start_fun \<Rightarrow> wire_type \<Rightarrow> service_id \<Rightarrow> object_id \<Rightarrow> method_id \<Rightarrow>
   wire_value list \<Rightarrow> ('o, 'w) state \<Rightarrow> (exn + u32) \<times> ('o, 'w) state" where
  "session_invoke T E start return_type origin object_id method_id args st =
     (case make_request T E start origin request_invoke
            (object_id_write object_id @ VString (Method_Name method_id) # args) st of
        (Inl e, st1) \<Rightarrow> (Inl e, st1)
      | (Inr serial, (s1, w1)) \<Rightarrow>
          (Inr serial, (put_parser origin serial (mk_response_parser return_type) s1, w1)))"

definition session_release ::
  "toolkit \<Rightarrow> ('o, 'w) env \<Rightarrow> ('o, 'w) start_fun \<Rightarrow> service_id \<Rightarrow> object_id \<Rightarrow> ('o, 'w) state \<Rightarrow> ('o, 'w) state" where
  "session_release T E start origin object_id st =
     snd (make_request T E start origin request_release (object_id_write object_id) st)"

text \<open>
  \<^verbatim>\<open>WaitResponse\<close>. \<open>poll\<close> is \<^verbatim>\<open>_poll.Wait(15000)\<close>: it runs the handlers of the sockets that are
  ready and returns their number, 0 after the timeout. The loop may go on for as long as
  other sockets are busy, hence \<open>None\<close> for not returning.
\<close>

partial_function (option) wait_response ::
  "(('o, 'w) state \<Rightarrow> (exn + nat) \<times> ('o, 'w) state) \<Rightarrow> service_id \<Rightarrow> u32 \<Rightarrow> ('o, 'w) state \<Rightarrow>
   ((exn + response_parser) \<times> ('o, 'w) state) option" where
  "wait_response poll origin serial st =
     (case poll st of
        (Inl e, st1) \<Rightarrow> Some (Inl e, st1)
      | (Inr n, st1) \<Rightarrow>
          if n = 0 then Some (Inl (Exception ''Timed out waiting for reply''), st1)
          else
            (case get_response_parser (fst st1) origin serial of
               Some p \<Rightarrow> if rp_finished p then Some (Inr p, st1) else wait_response poll origin serial st1
             | None \<Rightarrow> wait_response poll origin serial st1))"

definition session_wait ::
  "(('o, 'w) state \<Rightarrow> (exn + nat) \<times> ('o, 'w) state) \<Rightarrow> wire_type \<Rightarrow> service_id \<Rightarrow> u32 \<Rightarrow> ('o, 'w) state \<Rightarrow>
   ((exn + wire_value) \<times> ('o, 'w) state) option" where
  "session_wait poll return_type origin serial st =
     (case wait_response poll origin serial st of
        None \<Rightarrow> None
      | Some (Inl e, st1) \<Rightarrow> Some (Inl e, st1)
      | Some (Inr p, st1) \<Rightarrow> Some (rp_extract return_type p, st1))"

section \<open>Handling messages\<close>

text \<open>\<^verbatim>\<open>ThrowException\<close> sends the exception's text and swallows what sending throws.\<close>

definition throw_exception ::
  "toolkit \<Rightarrow> ('o, 'w) env \<Rightarrow> ('o, 'w) start_fun \<Rightarrow> service_id \<Rightarrow> u32 \<Rightarrow> exn \<Rightarrow> ('o, 'w) state \<Rightarrow> ('o, 'w) state" where
  "throw_exception T E start origin serial ex st =
     snd (make_request T E start origin response_exception
       [VU32 serial, VString ''Exception'', VString (exn_what ex)] st)"

definition on_incoming_exception ::
  "toolkit \<Rightarrow> service_id \<Rightarrow> bytes \<Rightarrow> 'o session \<Rightarrow> 'o session" where
  "on_incoming_exception T origin data s =
     (case tk_get_u32 T data of
        Inl _ \<Rightarrow> s
      | Inr (response_serial, d1) \<Rightarrow>
          (case get_response_parser s origin response_serial of
             None \<Rightarrow> s
           | Some response \<Rightarrow>
               let ex = (case bind_exn (tk_get_str T d1) (\<lambda>(exception_type, d2). tk_get_str T d2) of
                           Inr (exception_arg1, _) \<Rightarrow> Runtime_Error exception_arg1
                         | Inl e \<Rightarrow> e)
               in put_parser origin response_serial
                    (deliver (rp_parse T) rp_set_exception (Remote_Exception ex) response) s))"

definition on_incoming_result ::
  "toolkit \<Rightarrow> service_id \<Rightarrow> bytes \<Rightarrow> 'o session \<Rightarrow> 'o session" where
  "on_incoming_result T origin data s =
     (case tk_get_u32 T data of
        Inl _ \<Rightarrow> s
      | Inr (response_serial, d1) \<Rightarrow>
          (case get_response_parser s origin response_serial of
             None \<Rightarrow> s
           | Some response \<Rightarrow>
               put_parser origin response_serial
                 (deliver (rp_parse T) rp_set_exception (Result_Data d1) response) s))"

text \<open>
  The header of an invocation. The version read is passed to \<^verbatim>\<open>ClassId\<close>'s constructor with the
  class name; the remaining bytes are the arguments.
\<close>

definition read_invoke :: "toolkit \<Rightarrow> bytes \<Rightarrow> exn + object_id \<times> string \<times> bytes" where
  "read_invoke T data =
     bind_exn (tk_get_str T data) (\<lambda>(class_type, d1).
     bind_exn (tk_get_u32 T d1) (\<lambda>(class_version, d2).
     bind_exn (tk_get_u32 T d2) (\<lambda>(object_id, d3).
     bind_exn (mk_class_id class_type class_version) (\<lambda>cls.
     bind_exn (tk_get_str T d3) (\<lambda>(method_name, d4).
       Inr (mk_object_id cls object_id, method_name, d4))))))"

definition find_local_object :: "object_id \<Rightarrow> 'o session \<Rightarrow> 'o option \<times> 'o session" where
  "find_local_object i s =
     (if ss_local_objects s i = None \<and> Obj_Id i = 0
      then (let s1 = snd (get_local_service (Type i) s) in (ss_local_objects s1 i, s1))
      else (ss_local_objects s i, s))"

definition on_incoming_invoke ::
  "toolkit \<Rightarrow> ('o, 'w) env \<Rightarrow> ('o, 'w) start_fun \<Rightarrow> service_id \<Rightarrow> u32 \<Rightarrow> bytes \<Rightarrow> ('o, 'w) state \<Rightarrow>
   exn option \<times> ('o, 'w) state" where
  "on_incoming_invoke T E start origin serial data st =
     (case st of (s, w) \<Rightarrow>
      case read_invoke T data of
        Inl e \<Rightarrow> (Some e, (s, w))
      | Inr (i, method_name, args) \<Rightarrow>
          (case find_local_object i s of
             (None, s1) \<Rightarrow>
               (Some (Exception (''object with id '' @ object_id_to_string T i @ '' not found'')), (s1, w))
           | (Some obj, s1) \<Rightarrow>
               (case env_invoke E obj method_name args (s1, w) of
                  (Inl e, st1) \<Rightarrow> (Some e, st1)
                | (Inr out, st1) \<Rightarrow>
                    (case session_send T E start origin
                            (message_bytes T (serialize T [VU8 response_result, VU32 serial] @ out)) st1 of
                       (Inl e, st2) \<Rightarrow> (Some e, st2)
                     | (Inr _, st2) \<Rightarrow> (None, st2)))))"

definition on_incoming_data ::
  "toolkit \<Rightarrow> ('o, 'w) env \<Rightarrow> ('o, 'w) start_fun \<Rightarrow> service_id \<Rightarrow> u32 \<Rightarrow> bytes \<Rightarrow> ('o, 'w) state \<Rightarrow> ('o, 'w) state" where
  "on_incoming_data T E start service serial data st =
     (case tk_get_u8 T data of
        Inl ex \<Rightarrow> throw_exception T E start service serial ex st
      | Inr (request, rest) \<Rightarrow>
          if request = request_invoke then
            (case on_incoming_invoke T E start service serial rest st of
               (Some ex, st1) \<Rightarrow> throw_exception T E start service serial ex st1
             | (None, st1) \<Rightarrow> st1)
          else if request = response_exception then (on_incoming_exception T service rest (fst st), snd st)
          else if request = response_result then (on_incoming_result T service rest (fst st), snd st)
          else throw_exception T E start service serial
                 (Exception (''unhandled request '' @ dec (unat request))) st)"

section \<open>Socket events\<close>

text \<open>
  \<^verbatim>\<open>LocalBusConnection::HandleSocketEvent\<close> of the connection to \<open>service\<close>. \<open>sock_write\<close> and
  \<open>sock_read\<close> are what the socket does; the exception is one that leaves the handler.
\<close>

record socket_event =
  ev_hangup :: bool
  ev_output :: bool
  ev_input :: bool

definition on_conn :: "service_id \<Rightarrow> (connection \<Rightarrow> connection) \<Rightarrow> ('o, 'w) state \<Rightarrow> ('o, 'w) state" where
  "on_conn service f st = (with_conn service f (fst st), snd st)"

lemma on_conn_lookup [simp]:
  "ss_connections (fst (on_conn service f st)) service = map_option f (ss_connections (fst st) service)"
  by (simp add: on_conn_def with_conn_def split: option.split)

text \<open>
  A complete message: take the next read serial, hand the message to \<open>on_data\<close>, which is
  \<^verbatim>\<open>Session::OnIncomingData\<close>, and start a new read task. Read task and read serial are
  members of the connection: a handler that polls finds the finished task there.
\<close>

type_synonym ('o, 'w) data_handler =
  "service_id \<Rightarrow> u32 \<Rightarrow> bytes \<Rightarrow> ('o, 'w) state \<Rightarrow> ('o, 'w) state"

definition input_message ::
  "('o, 'w) data_handler \<Rightarrow> service_id \<Rightarrow> connection \<Rightarrow> bytes \<Rightarrow> ('o, 'w) state \<Rightarrow> ('o, 'w) state" where
  "input_message on_data service c data st =
     (let serial = conn_read_serial c;
          st1 = on_conn service (\<lambda>c. c\<lparr>conn_read_serial := serial + 1\<rparr>) st;
          st2 = on_data (conn_service c) serial data st1
      in on_conn service (\<lambda>c. c\<lparr>conn_read_task := new_read_task\<rparr>) st2)"

text \<open>The loop over the bytes of one read.\<close>

function input_loop ::
  "toolkit \<Rightarrow> ('o, 'w) data_handler \<Rightarrow> service_id \<Rightarrow> bytes \<Rightarrow> ('o, 'w) state \<Rightarrow> ('o, 'w) state" where
  "input_loop T on_data service data st =
     (case ss_connections (fst st) service of
        None \<Rightarrow> st
      | Some c \<Rightarrow>
          if data = [] then st
          else
            (let (n, task) = rt_read T (conn_read_task c) data;
                 st1 = on_conn service (\<lambda>c. c\<lparr>conn_read_task := task\<rparr>) st
             in if rt_finished task
                then input_loop T on_data service (drop n data) (input_message on_data service c (rt_data task) st1)
                else input_loop T on_data service (drop n data) st1))"
  by pat_completeness auto

termination
  by (relation "measures [\<lambda>(T, h, i, d, st). length d,
      \<lambda>(T, h, i, d, st). case ss_connections (fst st) i of None \<Rightarrow> 0 | Some c \<Rightarrow> of_bool (rt_finished (conn_read_task c))]")
    (auto simp: input_message_def Let_def dest: read_loop_measure split: option.split)

declare input_loop.simps [simp del]

lemma input_loop_Nil [simp]: "input_loop T h i [] st = st"
  by (simp add: input_loop.simps split: option.split)

lemma input_loop_induct [case_names closed part message]:
  assumes "\<And>d st. ss_connections (fst st) i = None \<or> d = [] \<Longrightarrow> Q d st st"
    and "\<And>d st c n t r. ss_connections (fst st) i = Some c \<Longrightarrow> d \<noteq> [] \<Longrightarrow> rt_read T (conn_read_task c) d = (n, t) \<Longrightarrow>
      \<not> rt_finished t \<Longrightarrow> Q (drop n d) (on_conn i (\<lambda>c. c\<lparr>conn_read_task := t\<rparr>) st) r \<Longrightarrow> Q d st r"
    and "\<And>d st c n t r. ss_connections (fst st) i = Some c \<Longrightarrow> d \<noteq> [] \<Longrightarrow> rt_read T (conn_read_task c) d = (n, t) \<Longrightarrow>
      rt_finished t \<Longrightarrow> Q (drop n d) (input_message h i c (rt_data t) (on_conn i (\<lambda>c. c\<lparr>conn_read_task := t\<rparr>) st)) r \<Longrightarrow> Q d st r"
  shows "Q d st (input_loop T h i d st)"
  using assms
proof (induction T h i d st rule: input_loop.induct)
  case (1 T h i d st)
  show ?case
  proof (cases "ss_connections (fst st) i = None \<or> d = []")
    case True
    then have "input_loop T h i d st = st"
      by (auto simp: input_loop.simps [of T h i d st] split: option.split)
    with True "1.prems"(1) show ?thesis by simp
  next
    case False
    then obtain c where c: "ss_connections (fst st) i = Some c" and d: "d \<noteq> []" by auto
    obtain n t where r: "rt_read T (conn_read_task c) d = (n, t)" by (cases "rt_read T (conn_read_task c) d")
    note eq = input_loop.simps [of T h i d st]
    show ?thesis
    proof (cases "rt_finished t")
      case True
      from "1.prems"(3) [OF c d r True "1.IH"(1) [OF c d r [symmetric] refl refl True "1.prems"]] show ?thesis
        by (simp add: eq c d r True Let_def)
    next
      case False
      from "1.prems"(2) [OF c d r False "1.IH"(2) [OF c d r [symmetric] refl refl False "1.prems"]] show ?thesis
        by (simp add: eq c d r False Let_def)
    qed
  qed
qed

definition conn_input_event ::
  "toolkit \<Rightarrow> ('o, 'w) env \<Rightarrow> ('o, 'w) start_fun \<Rightarrow> service_id \<Rightarrow> exn + int \<times> bytes \<Rightarrow> ('o, 'w) state \<Rightarrow>
   exn option \<times> ('o, 'w) state" where
  "conn_input_event T E start service sock_read st =
     (case conn_input sock_read of
        Inl e \<Rightarrow> (Some e, st)
      | Inr data \<Rightarrow> (None, input_loop T (on_incoming_data T E start) service data st))"

definition handle_socket_event ::
  "toolkit \<Rightarrow> ('o, 'w) env \<Rightarrow> ('o, 'w) start_fun \<Rightarrow> service_id \<Rightarrow> socket_event \<Rightarrow> (bytes \<Rightarrow> exn + nat) \<Rightarrow>
   exn + int \<times> bytes \<Rightarrow> ('o, 'w) state \<Rightarrow> exn option \<times> ('o, 'w) state" where
  "handle_socket_event T E start service ev sock_write sock_read st =
     (case st of (s, w) \<Rightarrow>
      case ss_connections s service of
        None \<Rightarrow> (None, (s, w))
      | Some c \<Rightarrow>
          if ev_hangup ev then
            (case tk_poll_remove T of
               Some e \<Rightarrow> (Some e, (s, w))
             | None \<Rightarrow> (None, (with_conn service conn_hangup s, w)))
          else
            (case (if ev_output ev then conn_output T sock_write c else (None, c, [])) of
               (Some e, c', _) \<Rightarrow> (Some e, (with_conn service (\<lambda>_. c') s, w))
             | (None, c', _) \<Rightarrow>
                 (let st1 = (with_conn service (\<lambda>_. c') s, w) in
                  if ev_input ev then conn_input_event T E start service sock_read st1 else (None, st1))))"

end
