(* ===== verification/Session_Inv.thy ===== *)
theory Session_Inv
  imports Session
begin

text \<open>
  Invariants of a session. The locale \<open>session_invariant\<close> is the interface between the
  elementary changes that the program makes to a session (a connection changes its state, a
  parser gets its answer, a parser or a connection is added, a local service is
  instantiated) and the operations composed of them: a predicate that the elementary changes
  keep is kept by every operation of \<^verbatim>\<open>Session\<close> and by every socket event. It is interpreted
  on the four invariants of the model.
\<close>

section \<open>Runs of a session\<close>

text \<open>
  \<open>start_keeps\<close>: the call that starts a service keeps \<open>P\<close>. The call runs the session again,
  so for the program's own \<open>start\<close> this is a theorem (in \<open>Session_Start\<close>).
\<close>

definition start_keeps :: "('o session \<Rightarrow> bool) \<Rightarrow> ('o, 'w) start_fun \<Rightarrow> bool" where
  "start_keeps P start \<longleftrightarrow> (\<forall>i st. P (fst st) \<longrightarrow> P (fst (snd (start i st))))"

text \<open>\<open>env_keeps\<close>: the implementations of the process's methods, which may use the session, keep \<open>P\<close>.\<close>

definition env_keeps :: "('o session \<Rightarrow> bool) \<Rightarrow> ('o, 'w) env \<Rightarrow> bool" where
  "env_keeps P E \<longleftrightarrow> (\<forall>obj m d st. P (fst st) \<longrightarrow> P (fst (snd (env_invoke E obj m d st))))"

text \<open>One operation of the program on its session, or a step of the program that leaves it alone.\<close>

inductive session_step ::
  "toolkit \<Rightarrow> ('o, 'w) env \<Rightarrow> ('o, 'w) start_fun \<Rightarrow> ('o, 'w) state \<Rightarrow> ('o, 'w) state \<Rightarrow> bool"
  for T E start where
  step_world: "session_step T E start (s, w) (s, w')"
| step_proxy: "session_step T E start (s, w) (register_proxy interface i force s, w)"
| step_service: "session_step T E start (s, w) (register_service i f s, w)"
| step_accept: "session_step T E start (s, w) (add_connection i (mk_accepted_connection i) s, w)"
| step_local: "session_step T E start (s, w) (snd (get_local_service i s), w)"
| step_invoke: "session_step T E start st (snd (session_invoke T E start t origin obj m args st))"
| step_release: "session_step T E start st (session_release T E start origin obj st)"
| step_event: "session_step T E start st (snd (handle_socket_event T E start i ev sock_write sock_read st))"

inductive_cases session_stepE: "session_step T E start st st'"

section \<open>Elementary changes\<close>

lemma get_put_parser:
  "get_response_parser (put_parser origin serial p s) o' i =
     (if o' = origin \<and> i = serial then Some p else get_response_parser s o' i)"
  by (simp add: get_response_parser_def put_parser_def split: option.split)

lemma put_parser_frame [simp]:
  "ss_connections (put_parser origin serial p s) = ss_connections s"
  "ss_local_objects (put_parser origin serial p s) = ss_local_objects s"
  "ss_services (put_parser origin serial p s) = ss_services s"
  "ss_factories (put_parser origin serial p s) = ss_factories s"
  by (simp_all add: put_parser_def)

lemma conn_enqueue_service:
  "conn_enqueue T d c = (r, c') \<Longrightarrow> conn_service c' = conn_service c"
  by (auto simp: conn_enqueue_def enable_write_def conn_push_def split: option.splits)

lemma conn_update_service [simp]:
  "conn_service (conn_connected c) = conn_service c"
  "conn_service (conn_hangup c) = conn_service c"
  by (simp_all add: conn_connected_def conn_hangup_def)

locale session_invariant =
  fixes P :: "'o session \<Rightarrow> bool"
  assumes P_connect: "P s \<Longrightarrow> P (session_connect i s)"
    and P_conn: "P s \<Longrightarrow> ss_connections s i = Some c \<Longrightarrow> conn_service c' = conn_service c \<Longrightarrow>
      P (s\<lparr>ss_connections := (ss_connections s)(i \<mapsto> c')\<rparr>)"
    and P_accept: "P s \<Longrightarrow> P (add_connection i (mk_accepted_connection i) s)"
    and P_local: "P s \<Longrightarrow> P (snd (get_local_service i s))"
    and P_deliver: "P s \<Longrightarrow> get_response_parser s origin serial = Some p \<Longrightarrow>
      P (put_parser origin serial (deliver (rp_parse T) rp_set_exception a p) s)"
    and P_new: "P s \<Longrightarrow> P (put_parser origin serial (mk_response_parser t) s)"
    and P_proxy: "P s \<Longrightarrow> P (register_proxy interface i force s)"
    and P_service: "P s \<Longrightarrow> P (register_service i f s)"
begin

lemma with_conn:
  assumes "P s" and "\<And>c. ss_connections s i = Some c \<Longrightarrow> conn_service (f c) = conn_service c"
  shows "P (with_conn i f s)"
  using assms by (auto simp: with_conn_def intro: P_conn split: option.split)

lemma conn_open:
  assumes P: "P s" and start: "start_keeps P start"
  shows "P (fst (snd (conn_open T E start i (s, w))))"
proof -
  have P1: "P (with_conn i (\<lambda>c. c\<lparr>conn_socket := Some Unconnected\<rparr>) s)"
    by (rule with_conn [OF P]) simp
  have conn: "P t \<Longrightarrow> P (fst (snd (finish_connect T i (t, v))))" for t v
    by (auto simp: finish_connect_def split: option.splits prod.splits intro!: P_conn dest: conn_finish_service)
  have st: "start c (with_conn i (\<lambda>c. c\<lparr>conn_socket := Some Unconnected\<rparr>) s, v) = (e, (t, w')) \<Longrightarrow> P t" for c v e t w'
    using start P1 unfolding start_keeps_def by (metis fst_conv snd_conv)
  show ?thesis
    using P P1
    by (auto simp: conn_open_def Let_def split: option.split prod.split intro: conn dest: st)
qed

lemma conn_send:
  assumes "P s" and "start_keeps P start"
  shows "P (fst (snd (conn_send T E start i d (s, w))))"
proof -
  obtain e t w' where o: "conn_open T E start i (s, w) = (e, (t, w'))"
    by (metis prod.collapse)
  with conn_open [OF assms, of T E i w] have "P t" by simp
  then show ?thesis
    by (auto simp: conn_send_def o intro: P_conn conn_enqueue_service split: option.split prod.split)
qed

lemma session_send:
  assumes "P (fst st)" and "start_keeps P start"
  shows "P (fst (snd (session_send T E start i d st)))"
  using assms conn_send [OF P_connect assms(2)]
  by (cases st) (auto simp: session_send_def Let_def P_connect split: option.split)

lemma make_request:
  "P (fst st) \<Longrightarrow> start_keeps P start \<Longrightarrow> P (fst (snd (make_request T E start i t args st)))"
  unfolding make_request_def by (rule session_send)

lemma throw_exception:
  "P (fst st) \<Longrightarrow> start_keeps P start \<Longrightarrow> P (fst (throw_exception T E start i n ex st))"
  unfolding throw_exception_def by (rule make_request)

lemma session_release:
  "P (fst st) \<Longrightarrow> start_keeps P start \<Longrightarrow> P (fst (session_release T E start i obj st))"
  unfolding session_release_def by (rule make_request)

lemma session_invoke:
  assumes "P (fst st)" and "start_keeps P start"
  shows "P (fst (snd (session_invoke T E start t i obj m args st)))"
proof -
  obtain r s w where r: "make_request T E start i request_invoke
      (object_id_write obj @ VString (Method_Name m) # args) st = (r, (s, w))"
    by (metis prod.collapse)
  with make_request [OF assms, of T E i request_invoke "object_id_write obj @ VString (Method_Name m) # args"]
  have "P s" by simp
  then show ?thesis
    by (cases r) (simp_all add: session_invoke_def r [simplified] P_new)
qed

lemma on_incoming_exception: "P s \<Longrightarrow> P (on_incoming_exception T i d s)"
  by (auto simp: on_incoming_exception_def Let_def simp del: deliver.simps
      intro: P_deliver split: sum.split option.split)

lemma on_incoming_result: "P s \<Longrightarrow> P (on_incoming_result T i d s)"
  by (auto simp: on_incoming_result_def simp del: deliver.simps
      intro: P_deliver split: sum.split option.split)

lemma find_local_object: "P s \<Longrightarrow> P (snd (find_local_object i s))"
  by (simp add: find_local_object_def Let_def P_local)

lemma on_incoming_invoke:
  assumes "P (fst st)" and start: "start_keeps P start" and env: "env_keeps P E"
  shows "P (fst (snd (on_incoming_invoke T E start i n d st)))"
proof -
  obtain s w where st: "st = (s, w)" by (cases st)
  show ?thesis
  proof (cases "read_invoke T d")
    case (Inl e)
    with assms show ?thesis by (simp add: on_incoming_invoke_def st)
  next
    case (Inr r)
    obtain obj m args where r: "r = (obj, m, args)" by (cases r)
    obtain found t where f: "find_local_object obj s = (found, t)" by (cases "find_local_object obj s")
    then have t: "P t"
      using find_local_object [of s obj] assms(1) by (simp add: st)
    show ?thesis
    proof (cases found)
      case None
      with Inr r f t show ?thesis by (simp add: on_incoming_invoke_def st)
    next
      case (Some ref)
      obtain out t1 w' where o: "env_invoke E ref m args (t, w) = (out, (t1, w'))" by (metis prod.collapse)
      have "P (fst (snd (env_invoke E ref m args (t, w))))"
        using env t unfolding env_keeps_def by (metis fst_conv)
      then have t1: "P t1" by (simp add: o)
      have send: "session_send T E start i bs (t1, w') = (r, (a, b)) \<Longrightarrow> P a" for bs r a b
        using session_send [OF _ start, of "(t1, w')" T E i bs] t1 by simp
      from Inr r f t1 Some o show ?thesis
        by (cases out) (auto simp: on_incoming_invoke_def st simp del: serialize_simps
            dest: send split: prod.split sum.split)
    qed
  qed
qed

lemma on_incoming_data:
  assumes "P (fst st)" and start: "start_keeps P start" and "env_keeps P E"
  shows "P (fst (on_incoming_data T E start i n d st))"
proof -
  have inv: "on_incoming_invoke T E start i n rest st = (e, st1) \<Longrightarrow> P (fst st1)" for rest e st1
    using on_incoming_invoke [OF assms, of T i n rest] by simp
  show ?thesis
    using throw_exception [OF assms(1,2)] throw_exception [OF _ start]
    by (auto simp: on_incoming_data_def assms(1) on_incoming_exception on_incoming_result
        dest: inv split: sum.split prod.split option.split)
qed

lemma on_conn:
  assumes "P (fst st)" and "\<And>c. conn_service (f c) = conn_service c"
  shows "P (fst (on_conn i f st))"
  using assms by (simp add: on_conn_def with_conn)

lemma input_loop:
  assumes "\<And>j n d st. P (fst st) \<Longrightarrow> P (fst (h j n d st))"
  shows "P (fst st) \<Longrightarrow> P (fst (input_loop T h i d st))"
  by (rule input_loop_induct [where Q = "\<lambda>d st r. P (fst st) \<longrightarrow> P (fst r)", rule_format])
    (simp_all add: input_message_def Let_def on_conn assms)

lemma conn_input_event:
  assumes "P (fst st)" and start: "start_keeps P start" and "env_keeps P E"
  shows "P (fst (snd (conn_input_event T E start i rd st)))"
  using assms by (auto simp: conn_input_event_def input_loop on_incoming_data split: sum.split)

lemma handle_socket_event:
  assumes "P (fst st)" and start: "start_keeps P start" and env: "env_keeps P E"
  shows "P (fst (snd (handle_socket_event T E start i ev wr rd st)))"
proof -
  obtain s w where st: "st = (s, w)" by (cases st)
  show ?thesis
  proof (cases "ss_connections s i")
    case None
    with assms show ?thesis by (simp add: handle_socket_event_def st)
  next
    case (Some c)
    obtain e c' out where o: "(if ev_output ev then conn_output T wr c else (None, c, [])) = (e, c', out)"
      by (metis prod.collapse)
    then have "conn_service c' = conn_service c"
      using conn_output_keeps [of T wr c] by (auto split: if_splits)
    then have P1: "P (with_conn i (\<lambda>_. c') s)"
      using assms(1) Some by (intro with_conn) (simp_all add: st)
    have P2: "P (with_conn i conn_hangup s)"
      using assms(1) by (intro with_conn) (simp_all add: st)
    show ?thesis
      using P1 P2 conn_input_event [OF _ start env, of "(with_conn i (\<lambda>_. c') s, w)"]
      by (cases e) (simp_all add: handle_socket_event_def st Some o Let_def assms(1) [unfolded st fst_conv] split: option.split)
  qed
qed

lemma step:
  assumes "start_keeps P start" and "env_keeps P E" and "session_step T E start st st'" and "P (fst st)"
  shows "P (fst st')"
  using assms(3,4,1,2)
  by cases (simp_all add: P_proxy P_service P_accept P_local session_invoke session_release handle_socket_event)

lemma steps:
  assumes "start_keeps P start" and "env_keeps P E"
  shows "(session_step T E start)\<^sup>*\<^sup>* st st' \<Longrightarrow> P (fst st) \<Longrightarrow> P (fst st')"
  by (induction rule: rtranclp_induct) (auto intro: step [OF assms])

end

section \<open>The invariants\<close>

text \<open>Every connection is filed under its own service.\<close>

definition conns_keyed :: "'o session \<Rightarrow> bool" where
  "conns_keyed s \<longleftrightarrow> (\<forall>i c. ss_connections s i = Some c \<longrightarrow> conn_service c = i)"

text \<open>Every response parser holds a value of its type.\<close>

definition parsers_typed :: "'o session \<Rightarrow> bool" where
  "parsers_typed s \<longleftrightarrow> (\<forall>origin i p. get_response_parser s origin i = Some p \<longrightarrow> rp_typed p)"

definition session_wf :: "'o session \<Rightarrow> bool" where
  "session_wf s \<longleftrightarrow> conns_keyed s \<and> parsers_typed s"

definition has_parser :: "service_id \<Rightarrow> u32 \<Rightarrow> 'o session \<Rightarrow> bool" where
  "has_parser origin i s \<longleftrightarrow> get_response_parser s origin i \<noteq> None"

definition has_object :: "object_id \<Rightarrow> 'o \<Rightarrow> 'o session \<Rightarrow> bool" where
  "has_object i obj s \<longleftrightarrow> ss_local_objects s i = Some obj"

lemmas session_change_defs = session_connect_def add_connection_def get_local_service_def
  register_proxy_def register_service_def mk_accepted_connection_def mk_connection_def

lemma get_response_parser_frame [simp]:
  "get_response_parser (s\<lparr>ss_connections := a\<rparr>) o' i = get_response_parser s o' i"
  "get_response_parser (s\<lparr>ss_local_objects := b\<rparr>) o' i = get_response_parser s o' i"
  "get_response_parser (s\<lparr>ss_factories := c\<rparr>) o' i = get_response_parser s o' i"
  "get_response_parser (s\<lparr>ss_services := d\<rparr>) o' i = get_response_parser s o' i"
  by (simp_all add: get_response_parser_def)

interpretation keyed: session_invariant conns_keyed
  by unfold_locales (auto simp: conns_keyed_def session_change_defs Let_def split: option.splits if_splits)

interpretation typed: session_invariant parsers_typed
  by unfold_locales
    (auto simp: parsers_typed_def session_change_defs Let_def get_put_parser rp_typed_new
      simp del: deliver.simps intro: rp_typed_deliver split: option.splits if_splits)

interpretation pending: session_invariant "has_parser origin i" for origin i
  by unfold_locales
    (auto simp: has_parser_def session_change_defs Let_def get_put_parser simp del: deliver.simps
      split: option.splits if_splits)

interpretation object: session_invariant "has_object i obj" for i obj
  by unfold_locales
    (auto simp: has_object_def session_change_defs Let_def split: option.splits if_splits)

end
