(* ===== verification/Session_Rpc.thy ===== *)
theory Session_Rpc
  imports Session_Inv
begin

text \<open>
  What a session does with the messages it gets, and what follows for a remote call from the
  caller's \<^verbatim>\<open>Invoke\<close> to the end of its \<^verbatim>\<open>Wait\<close>.
\<close>

section \<open>Payloads\<close>

definition invoke_payload :: "toolkit \<Rightarrow> object_id \<Rightarrow> string \<Rightarrow> wire_value list \<Rightarrow> bytes" where
  "invoke_payload T i m args = serialize T (VU8 request_invoke # object_id_write i @ VString m # args)"

definition result_payload :: "toolkit \<Rightarrow> u32 \<Rightarrow> bytes \<Rightarrow> bytes" where
  "result_payload T n out = serialize T [VU8 response_result, VU32 n] @ out"

definition exception_payload :: "toolkit \<Rightarrow> u32 \<Rightarrow> string \<Rightarrow> bytes" where
  "exception_payload T n msg =
     serialize T [VU8 response_exception, VU32 n, VString ''Exception'', VString msg]"

lemma message_bytes_frame: "le_ok T \<Longrightarrow> buf_ok T \<Longrightarrow> message_bytes T body = frame T body"
  by (simp add: message_bytes_def frame_def Let_def)

lemma read_invoke_payload:
  assumes "bson_ok T" and "class_id_wf (Type i)"
  shows "read_invoke T (serialize T (object_id_write i @ VString m # args)) =
    Inr (mk_object_id \<lparr>Name = Name (Type i), Version = 1\<rparr> (Obj_Id i), m, serialize T args)"
  using assms
  by (simp add: read_invoke_def object_id_write_def class_id_write_def class_id_wf_def mk_class_id_plain)

lemma wire_loses_version_read:
  assumes "bson_ok T" and "class_id_wf (Type i)"
  shows "read_invoke T (serialize T (object_id_write i @ VString m # args)) =
    Inr (i\<lparr>Type := (Type i)\<lparr>Version := 1\<rparr>\<rparr>, m, serialize T args)"
proof -
  have "i\<lparr>Type := (Type i)\<lparr>Version := 1\<rparr>\<rparr> = mk_object_id \<lparr>Name = Name (Type i), Version = 1\<rparr> (Obj_Id i)"
    by (cases i; cases "Type i") (simp add: mk_object_id_def)
  then show ?thesis
    using read_invoke_payload [OF assms] by simp
qed

section \<open>Sending on an open connection\<close>

text \<open>The connection to a service is open: it has a socket that is in the poll.\<close>

definition open_conn :: "'o session \<Rightarrow> service_id \<Rightarrow> connection \<Rightarrow> bool" where
  "open_conn s i c \<longleftrightarrow> ss_connections s i = Some c \<and> conn_socket c \<noteq> None \<and> conn_registered c"

text \<open>One more message in the queue of a connection.\<close>

definition queue_message :: "toolkit \<Rightarrow> service_id \<Rightarrow> connection \<Rightarrow> bytes \<Rightarrow> 'o session \<Rightarrow> 'o session" where
  "queue_message T i c body s =
     s\<lparr>ss_connections := (ss_connections s)(i \<mapsto> snd (conn_enqueue T (message_bytes T body) c))\<rparr>"

lemma session_send_open:
  assumes "poll_ok T" and "open_conn s i c"
  shows "session_send T E start i (message_bytes T body) (s, w) =
    (Inr (conn_write_serial c), (queue_message T i c body s, w))"
  using assms
  by (auto simp: session_send_def session_connect_def conn_send_def conn_open_def open_conn_def
      queue_message_def conn_enqueue_registered)

lemma make_request_open:
  assumes "poll_ok T" and "open_conn s i c"
  shows "make_request T E start i t args (s, w) =
    (Inr (conn_write_serial c), (queue_message T i c (serialize T (VU8 t # args)) s, w))"
  unfolding make_request_def by (rule session_send_open [OF assms])

lemma throw_exception_open:
  assumes "poll_ok T" and "open_conn s i c"
  shows "throw_exception T E start i n ex (s, w) = (queue_message T i c (exception_payload T n (exn_what ex)) s, w)"
  unfolding throw_exception_def make_request_open [OF assms] exception_payload_def by simp

lemma session_invoke_open:
  assumes "poll_ok T" and "open_conn s i c"
  shows "session_invoke T E start t i obj m args (s, w) =
    (Inr (conn_write_serial c),
     (put_parser i (conn_write_serial c) (mk_response_parser t)
        (queue_message T i c (invoke_payload T obj (Method_Name m) args) s), w))"
  unfolding session_invoke_def make_request_open [OF assms] invoke_payload_def by simp

lemma queue_message_frame [simp]:
  "ss_local_objects (queue_message T i c b s) = ss_local_objects s"
  "ss_services (queue_message T i c b s) = ss_services s"
  "ss_requests (queue_message T i c b s) = ss_requests s"
  "ss_factories (queue_message T i c b s) = ss_factories s"
  "get_response_parser (queue_message T i c b s) o' n = get_response_parser s o' n"
  by (simp_all add: queue_message_def)

lemma get_local_service_frame [simp]:
  "ss_connections (snd (get_local_service i s)) = ss_connections s"
  "ss_requests (snd (get_local_service i s)) = ss_requests s"
  by (simp_all add: get_local_service_def Let_def split: option.split)

lemma find_local_object_frame:
  "find_local_object i s = (r, s1) \<Longrightarrow> ss_connections s1 = ss_connections s \<and> ss_requests s1 = ss_requests s"
  by (auto simp: find_local_object_def Let_def split: if_splits)

lemma open_conn_cong: "ss_connections s1 = ss_connections s \<Longrightarrow> open_conn s1 i c = open_conn s i c"
  by (simp add: open_conn_def)

section \<open>The handlers\<close>

lemma on_incoming_result_payload:
  "bson_ok T \<Longrightarrow> on_incoming_data T E start i n (result_payload T k out) (s, w) =
     (case get_response_parser s i k of
        None \<Rightarrow> s
      | Some p \<Rightarrow> put_parser i k (deliver (rp_parse T) rp_set_exception (Result_Data out) p) s, w)"
  by (simp add: on_incoming_data_def result_payload_def on_incoming_result_def del: deliver.simps)

lemma on_incoming_exception_payload:
  "bson_ok T \<Longrightarrow> on_incoming_data T E start i n (exception_payload T k msg) (s, w) =
     (case get_response_parser s i k of
        None \<Rightarrow> s
      | Some p \<Rightarrow> put_parser i k (rp_set_exception (Runtime_Error msg) p) s, w)"
  by (simp add: on_incoming_data_def exception_payload_def on_incoming_exception_def split: option.split)

text \<open>
  A change of the session that leaves one peer alone, its connection and the requests made to it;
  the processes whose implementations do so whatever they are called for, because they do not
  use that connection.
\<close>

definition same_at :: "service_id \<Rightarrow> 'o session \<Rightarrow> 'o session \<Rightarrow> bool" where
  "same_at i s s' \<longleftrightarrow> ss_connections s' i = ss_connections s i \<and> ss_requests s' i = ss_requests s i"

definition spares :: "service_id \<Rightarrow> ('o, 'w) env \<Rightarrow> bool" where
  "spares i E \<longleftrightarrow> (\<forall>obj m d st. same_at i (fst st) (fst (snd (env_invoke E obj m d st))))"

lemma same_at_refl [simp]: "same_at i s s"
  by (simp add: same_at_def)

lemma same_at_trans: "same_at i s s' \<Longrightarrow> same_at i s' s'' \<Longrightarrow> same_at i s s''"
  by (simp add: same_at_def)

lemma same_at_open: "same_at i s s' \<Longrightarrow> open_conn s' i c = open_conn s i c"
  by (simp add: same_at_def open_conn_def)

lemma same_at_parser: "same_at i s s' \<Longrightarrow> get_response_parser s' i n = get_response_parser s i n"
  by (simp add: same_at_def get_response_parser_def)

lemma same_at_queue [simp]: "j \<noteq> i \<Longrightarrow> same_at j s (queue_message T i c b s1) = same_at j s s1"
  by (simp add: same_at_def queue_message_def)

lemma spares_same_at: "spares i E \<Longrightarrow> env_invoke E obj m d (s, w) = (r, (s', w')) \<Longrightarrow> same_at i s s'"
  unfolding spares_def by (metis fst_conv snd_conv)

lemma on_world_session [simp]: "fst (snd (on_world f st)) = fst st"
  by (simp add: on_world_def split: prod.split)

lemma spares_on_world: "(\<And>obj m d. \<exists>f. env_invoke E obj m d = on_world f) \<Longrightarrow> spares i E"
  unfolding spares_def by (metis on_world_session same_at_refl)

lemma find_local_object_same: "find_local_object i s = (r, s1) \<Longrightarrow> same_at j s s1"
  using find_local_object_frame [of i s r s1] by (simp add: same_at_def)

lemma on_incoming_invoke_open:
  assumes "poll_ok T" and "open_conn s2 origin c" and "read_invoke T data = Inr (i, m, args)"
    and "find_local_object i s = (Some obj, s1)" and "env_invoke E obj m args (s1, w) = (Inr out, (s2, w2))"
  shows "on_incoming_invoke T E start origin n data (s, w) = (None, (queue_message T origin c (result_payload T n out) s2, w2))"
  using session_send_open [where E = E and start = start and w = w2, OF assms(1,2)] assms(3-5)
  by (simp add: on_incoming_invoke_def result_payload_def del: serialize_simps)

text \<open>An invocation either ends with a queued result or leaves the connections as they are.\<close>

lemma on_incoming_invoke_cases:
  assumes "poll_ok T" and "open_conn s origin c" and "spares origin E"
    and "on_incoming_invoke T E start origin n data (s, w) = (r, (s2, w2))"
  obtains ex where "r = Some ex" "\<forall>j. spares j E \<longrightarrow> same_at j s s2"
  | out s1 where "r = None" "s2 = queue_message T origin c (result_payload T n out) s1"
      "\<forall>j. spares j E \<longrightarrow> same_at j s s1"
proof (cases "read_invoke T data")
  case (Inl e)
  with assms(4) that(1) show ?thesis by (auto simp: on_incoming_invoke_def)
next
  case (Inr x)
  obtain i m args where x: "x = (i, m, args)" by (cases x)
  obtain found s1 where f: "find_local_object i s = (found, s1)" by (cases "find_local_object i s")
  note fr = find_local_object_same [OF f]
  show ?thesis
  proof (cases found)
    case None
    with assms(4) Inr x f fr that(1) show ?thesis by (auto simp: on_incoming_invoke_def)
  next
    case (Some obj)
    obtain o' s3 w3 where o': "env_invoke E obj m args (s1, w) = (o', (s3, w3))" by (metis prod.collapse)
    have same: "\<forall>j. spares j E \<longrightarrow> same_at j s s3"
      using same_at_trans [OF fr] spares_same_at [OF _ o'] by blast
    show ?thesis
    proof (cases o')
      case (Inl e)
      with assms(4) Inr x f Some o' same that(1) show ?thesis by (auto simp: on_incoming_invoke_def)
    next
      case out: (Inr out)
      have "same_at origin s s3"
        using same assms(3) by blast
      then have "open_conn s3 origin c"
        using assms(2) same_at_open by blast
      from on_incoming_invoke_open [where start = start and n = n, OF assms(1) this, of data i m args s obj s1 E w out w3]
        assms(4) Inr x f Some o' out same that(2)
      show ?thesis by auto
    qed
  qed
qed

section \<open>Every request has an answer\<close>

text \<open>A message that is not an answer.\<close>

definition is_answer :: "toolkit \<Rightarrow> bytes \<Rightarrow> bool" where
  "is_answer T m =
     (case tk_get_u8 T m of Inl _ \<Rightarrow> False | Inr (t, _) \<Rightarrow> t = response_result \<or> t = response_exception)"

lemma is_answer_iff:
  "\<not> is_answer T m \<longleftrightarrow>
     (\<forall>rest. tk_get_u8 T m \<noteq> Inr (response_result, rest) \<and> tk_get_u8 T m \<noteq> Inr (response_exception, rest))"
  by (auto simp: is_answer_def split: sum.split)

text \<open>
  From \<open>s\<close> to \<open>s'\<close> the connection \<open>c\<close> to \<open>origin\<close> gets one more message, an answer to the request \<open>n\<close>;
  the peers that the implementations spare are left alone.
\<close>

definition answer_queued ::
  "toolkit \<Rightarrow> ('o, 'w) env \<Rightarrow> service_id \<Rightarrow> connection \<Rightarrow> u32 \<Rightarrow> 'o session \<Rightarrow> 'o session \<Rightarrow> bytes \<Rightarrow> bool" where
  "answer_queued T E origin c n s s' body \<longleftrightarrow>
     ss_connections s' origin = Some (snd (conn_enqueue T (message_bytes T body) c)) \<and>
     ss_requests s' origin = ss_requests s origin \<and>
     (\<forall>j. j \<noteq> origin \<longrightarrow> spares j E \<longrightarrow> same_at j s s') \<and>
     ((\<exists>out. body = result_payload T n out) \<or> (\<exists>msg. body = exception_payload T n msg))"

lemma answer_queuedI:
  assumes "spares origin E" and "\<forall>j. spares j E \<longrightarrow> same_at j s s1"
    and "(\<exists>out. body = result_payload T n out) \<or> (\<exists>msg. body = exception_payload T n msg)"
  shows "answer_queued T E origin c n s (queue_message T origin c body s1) body"
proof -
  have "same_at origin s s1"
    using assms(1,2) by blast
  then have "ss_requests (queue_message T origin c body s1) origin = ss_requests s origin"
    by (simp add: same_at_def)
  moreover have "ss_connections (queue_message T origin c body s1) origin = Some (snd (conn_enqueue T (message_bytes T body) c))"
    by (simp add: queue_message_def)
  moreover have "\<forall>j. j \<noteq> origin \<longrightarrow> spares j E \<longrightarrow> same_at j s (queue_message T origin c body s1)"
    using assms(2) by simp
  ultimately show ?thesis
    unfolding answer_queued_def using assms(3) by blast
qed

lemma request_handled:
  assumes "poll_ok T" and "open_conn s origin c" and "spares origin E" and "\<not> is_answer T data"
  shows "\<exists>body. answer_queued T E origin c n s (fst (on_incoming_data T E start origin n data (s, w))) body"
proof -
  have thrown: "\<exists>body. answer_queued T E origin c n s (fst (throw_exception T E start origin n ex (s1, w1))) body"
    if same: "\<forall>j. spares j E \<longrightarrow> same_at j s s1" for ex s1 w1
  proof -
    have "same_at origin s s1" using same assms(3) by blast
    then have "open_conn s1 origin c"
      using assms(2) by (simp add: same_at_open)
    from throw_exception_open [where E = E and start = start, OF assms(1) this]
    have "fst (throw_exception T E start origin n ex (s1, w1)) = queue_message T origin c (exception_payload T n (exn_what ex)) s1"
      by simp
    then show ?thesis
      using answer_queuedI [OF assms(3) same, of "exception_payload T n (exn_what ex)" T n c] by auto
  qed
  show ?thesis
  proof (cases "tk_get_u8 T data")
    case (Inl ex)
    then show ?thesis using thrown [of s] by (simp add: on_incoming_data_def)
  next
    case (Inr r)
    obtain req rest where r: "r = (req, rest)" by (cases r)
    show ?thesis
    proof (cases "req = request_invoke")
      case True
      obtain q s2 w2 where q: "on_incoming_invoke T E start origin n rest (s, w) = (q, (s2, w2))"
        by (metis prod.collapse)
      from on_incoming_invoke_cases [OF assms(1-3) q] show ?thesis
      proof cases
        case (1 ex)
        then show ?thesis using Inr r True q thrown [of s2 ex w2] by (simp add: on_incoming_data_def)
      next
        case (2 out s1)
        then have "fst (on_incoming_data T E start origin n data (s, w)) = queue_message T origin c (result_payload T n out) s1"
          using Inr r True q by (simp add: on_incoming_data_def)
        then show ?thesis
          using answer_queuedI [OF assms(3) 2(3), of "result_payload T n out" T n c] by auto
      qed
    next
      case False
      then show ?thesis
        using Inr r assms(4) thrown [of s] by (auto simp: is_answer_def on_incoming_data_def)
    qed
  qed
qed

lemma answer_silent:
  assumes "tk_get_u8 T data = Inr (t, rest)" and "t = response_result \<or> t = response_exception"
  shows "\<exists>requests. on_incoming_data T E start origin n data (s, w) = (s\<lparr>ss_requests := requests\<rparr>, w)"
proof -
  have put: "\<exists>requests. put_parser o' k p s = s\<lparr>ss_requests := requests\<rparr>" for o' k p
    unfolding put_parser_def by blast
  have same: "\<exists>requests. s = s\<lparr>ss_requests := requests\<rparr>"
    by (rule exI [of _ "ss_requests s"]) simp
  show ?thesis
    using assms put same
    by (auto simp: on_incoming_data_def on_incoming_result_def on_incoming_exception_def Let_def
        simp del: deliver.simps split: sum.split option.split)
qed

text \<open>While a connection is open, handling a message leaves its receiving side alone.\<close>

lemma on_incoming_data_open:
  assumes "poll_ok T" and "open_conn s i c" and "spares i E"
  shows "\<exists>c'. open_conn (fst (on_incoming_data T E start i n d (s, w))) i c' \<and> conn_service c' = conn_service c \<and>
    conn_read_task c' = conn_read_task c \<and> conn_read_serial c' = conn_read_serial c"
proof (cases "\<exists>t rest. tk_get_u8 T d = Inr (t, rest) \<and> (t = response_result \<or> t = response_exception)")
  case True
  then obtain t rest where "tk_get_u8 T d = Inr (t, rest)" "t = response_result \<or> t = response_exception" by blast
  from answer_silent [where E = E and start = start and n = n and w = w and s = s and origin = i, OF this] assms(2)
  show ?thesis by (auto simp: open_conn_def)
next
  case False
  then have "\<not> is_answer T d"
    by (auto simp: is_answer_iff)
  from request_handled [where start = start and n = n and w = w, OF assms this] obtain body where
    "ss_connections (fst (on_incoming_data T E start i n d (s, w))) i = Some (snd (conn_enqueue T (message_bytes T body) c))"
    unfolding answer_queued_def by blast
  with assms(1,2) show ?thesis
    by (auto simp: open_conn_def conn_enqueue_registered)
qed

section \<open>A concrete session\<close>

text \<open>
  For the witnesses: a process that has one open connection, to \<open>peer\<close>, and one local
  object, which answers every method with the number 42, or with an exception.
\<close>

definition demo_peer :: service_id where
  "demo_peer = \<lparr>Name = ''peer'', Version = 1\<rparr>"

definition demo_object :: object_id where
  "demo_object = mk_object_id \<lparr>Name = ''svc'', Version = 1\<rparr> 0"

definition demo_session :: "nat session" where
  "demo_session = empty_session\<lparr>ss_connections := [demo_peer \<mapsto> mk_accepted_connection demo_peer],
     ss_local_objects := [demo_object \<mapsto> 5]\<rparr>"

definition demo_env :: "exn + wire_value \<Rightarrow> (nat, unit) env" where
  "demo_env r = \<lparr>env_connect = (\<lambda>path w. (Some (System_Exception ''connect''), w)),
     env_invoke = (\<lambda>obj m args. on_world (\<lambda>w. (map_sum id (ser_value demo_toolkit) r, w))), env_devel = True\<rparr>"

definition demo_start :: "(nat, unit) start_fun" where
  "demo_start i st = (Some (Exception ''no service manager''), st)"

lemma demo_open [simp]: "open_conn demo_session demo_peer (mk_accepted_connection demo_peer)"
  by (simp add: open_conn_def demo_session_def mk_accepted_connection_def)

lemma demo_peer_serial [simp]: "conn_write_serial (mk_accepted_connection i) = 0"
  by (simp add: mk_accepted_connection_def mk_connection_def)

lemma demo_object_wf [simp]: "class_id_wf (Type demo_object)" "Version (Type demo_object) = 1"
  by (simp_all add: demo_object_def class_id_wf_def)

lemma demo_session_object [simp]: "ss_local_objects demo_session demo_object = Some 5"
  by (simp add: demo_session_def)

lemma demo_env_invoke [simp]:
  "env_invoke (demo_env (Inr v)) obj m args (s, w) = (Inr (ser_value demo_toolkit v), (s, w))"
  "env_invoke (demo_env (Inl e)) obj m args (s, w) = (Inl e, (s, w))"
  by (simp_all add: demo_env_def)

lemma demo_spares [simp]: "spares i (demo_env r)"
  by (rule spares_on_world) (auto simp: demo_env_def)

section \<open>Properties\<close>

text \<open>
  C16: every request is answered exactly once. A message that is neither a result nor an
  exception, whatever its bytes are, adds exactly one message to the queue of the sender's
  connection; the message is a result or an exception and names the serial under which the
  request was read. The connection to another service is not touched unless the implementation
  that is called uses it. (The implementation may call other services; it must not use the
  connection on which it was called.)
\<close>

theorem request_answered_once:
  assumes "poll_ok T" and "open_conn s origin c" and "spares origin E"
    and "\<forall>rest. tk_get_u8 T data \<noteq> Inr (response_result, rest) \<and> tk_get_u8 T data \<noteq> Inr (response_exception, rest)"
  shows "\<exists>body. let s' = fst (on_incoming_data T E start origin n data (s, w)) in
    ss_connections s' origin = Some (snd (conn_enqueue T (message_bytes T body) c)) \<and>
    (\<forall>j. j \<noteq> origin \<longrightarrow> spares j E \<longrightarrow> ss_connections s' j = ss_connections s j) \<and>
    ((\<exists>out. body = result_payload T n out) \<or> (\<exists>msg. body = exception_payload T n msg))"
  using request_handled [OF assms(1-3), of data n start w] assms(4)
  unfolding is_answer_iff answer_queued_def same_at_def Let_def by blast

theorem request_answered_once_witness:
  "\<exists>body. ss_connections (fst (on_incoming_data demo_toolkit (demo_env (Inr VUndefined)) demo_start demo_peer 3
        (ser_value demo_toolkit (VU8 5)) (demo_session, ()))) demo_peer =
      Some (snd (conn_enqueue demo_toolkit (message_bytes demo_toolkit body) (mk_accepted_connection demo_peer))) \<and>
    ((\<exists>out. body = result_payload demo_toolkit 3 out) \<or> (\<exists>msg. body = exception_payload demo_toolkit 3 msg))"
  using request_answered_once [OF demo_poll_ok demo_open demo_spares, of "ser_value demo_toolkit (VU8 5)" "Inr VUndefined" demo_start 3 "()"]
  by (auto simp: Let_def)

text \<open>
  Answers are never answered. A result or an exception changes nothing of the session but
  the response parsers: no message is queued, no connection is made, no object is touched.
  Two sessions therefore cannot send errors back and forth.
\<close>

lemma answers_are_silent:
  assumes "tk_get_u8 T data = Inr (t, rest)" and "t = response_result \<or> t = response_exception"
  shows "\<exists>requests. on_incoming_data T E start origin n data (s, w) = (s\<lparr>ss_requests := requests\<rparr>, w)"
  by (rule answer_silent [OF assms])

lemma answers_are_silent_witness:
  "\<exists>requests. on_incoming_data demo_toolkit (demo_env (Inr VUndefined)) demo_start demo_peer 3
     (result_payload demo_toolkit 9 [1, 2]) (demo_session, ()) = (demo_session\<lparr>ss_requests := requests\<rparr>, ())"
  by (rule answers_are_silent [where t = response_result]) (simp_all add: result_payload_def)

text \<open>
  A request of any other type is refused. Get, set, static invocation, subscription,
  signal and release are answered with the exception \<open>unhandled request\<close> and change nothing
  else; in particular a release does not release the object.
\<close>

lemma unhandled_request_refused:
  assumes "poll_ok T" and "open_conn s origin c" and "tk_get_u8 T data = Inr (t, rest)"
    and "t \<notin> {request_invoke, response_result, response_exception}"
  shows "on_incoming_data T E start origin n data (s, w) =
    (queue_message T origin c (exception_payload T n (''unhandled request '' @ dec (unat t))) s, w)"
  using assms(3,4) throw_exception_open [where E = E and start = start, OF assms(1,2)]
  by (simp add: on_incoming_data_def)

lemma unhandled_request_refused_witness:
  "on_incoming_data demo_toolkit (demo_env (Inr VUndefined)) demo_start demo_peer 3
     (serialize demo_toolkit (VU8 request_release # object_id_write demo_object)) (demo_session, ()) =
   (queue_message demo_toolkit demo_peer (mk_accepted_connection demo_peer)
      (exception_payload demo_toolkit 3 (''unhandled request '' @ dec (unat request_release))) demo_session, ())"
  by (rule unhandled_request_refused [OF demo_poll_ok demo_open]) simp_all

text \<open>
  C39: the identifier of an object survives the wire only for version 1. The header of an
  invocation of object \<open>i\<close> is read back as object \<open>i\<close> with the version of its class replaced
  by 1, because the constructor ignores the version it is given.
\<close>

theorem wire_loses_version:
  assumes "bson_ok T" and "class_id_wf (Type i)"
  shows "tk_get_u8 T (invoke_payload T i m args) =
      Inr (request_invoke, serialize T (object_id_write i @ VString m # args)) \<and>
    read_invoke T (serialize T (object_id_write i @ VString m # args)) =
      Inr (i\<lparr>Type := (Type i)\<lparr>Version := 1\<rparr>\<rparr>, m, serialize T args)"
  using wire_loses_version_read [OF assms] assms(1) by (simp add: invoke_payload_def)

theorem wire_loses_version_witness:
  "read_invoke demo_toolkit (serialize demo_toolkit
     (object_id_write (mk_object_id \<lparr>Name = ''svc'', Version = 2\<rparr> 7) @ [VString ''m''])) =
   Inr (mk_object_id \<lparr>Name = ''svc'', Version = 1\<rparr> 7, ''m'', [])"
  using wire_loses_version [OF demo_bson_ok, of "mk_object_id \<lparr>Name = ''svc'', Version = 2\<rparr> 7" "''m''" "[]"]
  by (simp add: class_id_wf_def mk_object_id_def)

section \<open>A remote call\<close>

lemma wait_one_round:
  assumes "poll st = (Inr 1, st1)" and "get_response_parser (fst st1) origin n = Some p" and "rp_finished p"
  shows "session_wait poll t origin n st = Some (rp_extract t p, st1)"
  using assms by (simp add: session_wait_def wait_response.simps split: prod.split)

lemma rpc_request:
  assumes "bson_ok T" and "poll_ok T" and "env_invoke E obj m (serialize T args) (sb, wb) = (r, (sb1, wb1))"
    and "open_conn sb1 client cb" and "class_id_wf (Type i)" and "Version (Type i) = 1" and "ss_local_objects sb i = Some obj"
  shows "on_incoming_data T E start client n (invoke_payload T i m args) (sb, wb) =
    (queue_message T client cb
       (case r of Inl e \<Rightarrow> exception_payload T n (exn_what e) | Inr out \<Rightarrow> result_payload T n out) sb1, wb1)"
proof -
  have i: "i\<lparr>Type := (Type i)\<lparr>Version := 1\<rparr>\<rparr> = i"
    using assms(6) by (cases i; cases "Type i") simp
  have f: "find_local_object i sb = (Some obj, sb)"
    using assms(7) by (simp add: find_local_object_def)
  note rd = wire_loses_version_read [OF assms(1,5), unfolded i]
  show ?thesis
  proof (cases r)
    case (Inl e)
    then have "on_incoming_invoke T E start client n (serialize T (object_id_write i @ VString m # args)) (sb, wb) =
        (Some e, (sb1, wb1))"
      using rd f assms(3) by (simp add: on_incoming_invoke_def del: serialize_simps)
    then show ?thesis
      using throw_exception_open [where E = E and start = start and w = wb1, OF assms(2,4)] assms(1) Inl
      by (simp add: on_incoming_data_def invoke_payload_def)
  next
    case (Inr out)
    then show ?thesis
      using on_incoming_invoke_open [where E = E and start = start and n = n, OF assms(2,4) rd f] assms(1,3)
      by (simp add: on_incoming_data_def invoke_payload_def)
  qed
qed

section \<open>Waiting\<close>

primrec poll_state :: "(('o, 'w) state \<Rightarrow> (exn + nat) \<times> ('o, 'w) state) \<Rightarrow> nat \<Rightarrow> ('o, 'w) state \<Rightarrow> ('o, 'w) state" where
  "poll_state poll 0 st = st"
| "poll_state poll (Suc k) st = poll_state poll k (snd (poll st))"

definition answered :: "service_id \<Rightarrow> u32 \<Rightarrow> ('o, 'w) state \<Rightarrow> bool" where
  "answered origin n st \<longleftrightarrow> (\<exists>p. get_response_parser (fst st) origin n = Some p \<and> rp_finished p)"

lemma wait_response_unfold:
  "poll st = (Inr (Suc c), st1) \<Longrightarrow> \<not> answered origin n st1 \<Longrightarrow>
     wait_response poll origin n st = wait_response poll origin n st1"
  by (subst wait_response.simps) (auto simp: answered_def split: option.split)

lemma wait_response_found:
  "poll st = (Inr (Suc c), st1) \<Longrightarrow> get_response_parser (fst st1) origin n = Some p \<Longrightarrow> rp_finished p \<Longrightarrow>
     wait_response poll origin n st = Some (Inr p, st1)"
  by (subst wait_response.simps) simp

lemma wait_response_timeout:
  "poll st = (Inr 0, st1) \<Longrightarrow>
     wait_response poll origin n st = Some (Inl (Exception ''Timed out waiting for reply''), st1)"
  by (subst wait_response.simps) simp

text \<open>
  Waiting ends: if polls that report events lead, in round \<open>k + 1\<close>, to a state in which the
  request is answered, then \<^verbatim>\<open>WaitResponse\<close> returns, no later than after that round, the
  finished parser of the state it returns in.
\<close>

lemma wait_returns_answer:
  assumes "\<forall>j\<le>k. \<exists>c. fst (poll (poll_state poll j st)) = Inr (Suc c)"
    and "answered origin n (poll_state poll (Suc k) st)"
  shows "\<exists>j p. j \<le> k \<and> wait_response poll origin n st = Some (Inr p, poll_state poll (Suc j) st) \<and>
    rp_finished p \<and> get_response_parser (fst (poll_state poll (Suc j) st)) origin n = Some p"
  using assms
proof (induction k arbitrary: st)
  case 0
  then obtain c where "poll st = (Inr (Suc c), snd (poll st))"
    by (metis le_refl poll_state.simps(1) prod.collapse)
  with 0 show ?case
    by (auto simp: answered_def wait_response_found intro!: exI [of _ "0 :: nat"])
next
  case (Suc k)
  obtain c where c: "poll st = (Inr (Suc c), snd (poll st))"
    using Suc.prems(1) by (metis le0 poll_state.simps(1) prod.collapse)
  show ?case
  proof (cases "answered origin n (snd (poll st))")
    case True
    with c show ?thesis
      by (auto simp: answered_def wait_response_found intro!: exI [of _ "0 :: nat"])
  next
    case False
    have "\<forall>j\<le>k. \<exists>c. fst (poll (poll_state poll j (snd (poll st)))) = Inr (Suc c)"
      using Suc.prems(1) by (metis Suc_le_mono poll_state.simps(2))
    then obtain j p where "j \<le> k" "wait_response poll origin n (snd (poll st)) = Some (Inr p, poll_state poll (Suc (Suc j)) st)"
        "rp_finished p" "get_response_parser (fst (poll_state poll (Suc (Suc j)) st)) origin n = Some p"
      using Suc.IH [of "snd (poll st)"] Suc.prems(2) by auto
    then show ?thesis
      using wait_response_unfold [where poll = poll, OF c False] by (intro exI [of _ "Suc j"] exI [of _ p]) simp
  qed
qed

lemma wait_returns_answer_witness:
  "\<exists>j p. j \<le> 0 \<and> wait_response (\<lambda>st. (Inr 1, (put_parser demo_peer 0
        (rp_set_exception (Runtime_Error ''x'') (mk_response_parser TU32)) (fst st), ()))) demo_peer 0 (demo_session, ()) =
     Some (Inr p, poll_state (\<lambda>st. (Inr 1, (put_parser demo_peer 0
        (rp_set_exception (Runtime_Error ''x'') (mk_response_parser TU32)) (fst st), ()))) (Suc j) (demo_session, ())) \<and>
     rp_finished p \<and> get_response_parser (fst (poll_state (\<lambda>st. (Inr 1, (put_parser demo_peer 0
        (rp_set_exception (Runtime_Error ''x'') (mk_response_parser TU32)) (fst st), ()))) (Suc j) (demo_session, ()))) demo_peer 0 = Some p"
  by (rule wait_returns_answer) (simp_all add: answered_def get_put_parser rp_set_exception_def)

text \<open>
  Waiting times out. If the request stays unanswered through \<open>k\<close> polls that report events
  and the next poll reports none, \<^verbatim>\<open>WaitResponse\<close> throws its timeout exception.
\<close>

lemma wait_times_out:
  assumes "\<forall>j<k. (\<exists>c. fst (poll (poll_state poll j st)) = Inr (Suc c)) \<and>
      \<not> answered origin n (poll_state poll (Suc j) st)"
    and "fst (poll (poll_state poll k st)) = Inr 0"
  shows "wait_response poll origin n st =
    Some (Inl (Exception ''Timed out waiting for reply''), poll_state poll (Suc k) st)"
  using assms
proof (induction k arbitrary: st)
  case 0
  then have "poll st = (Inr 0, snd (poll st))"
    by (metis poll_state.simps(1) prod.collapse)
  then show ?case using wait_response_timeout by simp
next
  case (Suc k)
  obtain c where c: "poll st = (Inr (Suc c), snd (poll st))" and u: "\<not> answered origin n (snd (poll st))"
    using Suc.prems(1) by (metis poll_state.simps prod.collapse zero_less_Suc)
  have "\<forall>j<k. (\<exists>c. fst (poll (poll_state poll j (snd (poll st)))) = Inr (Suc c)) \<and>
      \<not> answered origin n (poll_state poll (Suc j) (snd (poll st)))"
    using Suc.prems(1) by (metis Suc_less_eq poll_state.simps(2))
  from Suc.IH [OF this] Suc.prems(2) show ?case
    using wait_response_unfold [where poll = poll, OF c u] by simp
qed


section \<open>Two failures\<close>

text \<open>
  C37: an answer that is handled before the request's parser is registered is lost.
  \<^verbatim>\<open>Invoke\<close> sends first and registers the parser afterwards, without holding the lock in
  between. If the answer is handled in that window nothing is stored, and the parser registered
  then is unfinished.
\<close>

theorem early_answer_lost:
  assumes "bson_ok T" and "get_response_parser s origin n = None"
    and "answer = result_payload T n out \<or> answer = exception_payload T n msg"
  shows "on_incoming_data T E start origin k answer (s, w) = (s, w) \<and>
    \<not> answered origin n (put_parser origin n (mk_response_parser t)
       (fst (on_incoming_data T E start origin k answer (s, w))), w)"
proof -
  have "on_incoming_data T E start origin k answer (s, w) = (s, w)"
    using assms on_incoming_result_payload [OF assms(1), of E start origin k n out s w]
      on_incoming_exception_payload [OF assms(1), of E start origin k n msg s w] by auto
  then show ?thesis
    by (simp add: answered_def get_put_parser mk_response_parser_def)
qed

lemma demo_session_unanswered: "get_response_parser demo_session origin n = None"
  by (simp add: demo_session_def get_response_parser_def empty_session_def)

theorem early_answer_lost_witness:
  "\<not> answered demo_peer 0 (put_parser demo_peer 0 (mk_response_parser TU32)
     (fst (on_incoming_data demo_toolkit (demo_env (Inr VUndefined)) demo_start demo_peer 4
        (result_payload demo_toolkit 0 [1]) (demo_session, ()))), ())"
  by (rule conjunct2 [OF early_answer_lost [OF demo_bson_ok demo_session_unanswered]]) blast

text \<open>
  C33: a failed connection attempt is final. \<^verbatim>\<open>Connect\<close> stores the new socket before it is
  connected. If the service manager cannot be reached, the send throws; every later send to it
  then finds a socket, does not connect, and throws because the socket is not in the poll,
  whatever the state of the system is by then.
\<close>

theorem failed_connect_is_final:
  assumes "poll_ok T" and "ss_connections s service_manager_id = None"
    and "env_connect E (get_socket_path T (env_devel E) service_manager_id) w = (Some e, w1)"
  shows "\<exists>s1. session_send T E start service_manager_id data (s, w) =
      (Inl (Exception (''cannot connect to ServiceManager to create service '' @
         class_id_to_string T service_manager_id)), (s1, w1)) \<and>
    (\<exists>e'. \<forall>data' w'. session_send T E' start' service_manager_id data' (s1, w') = (Inl e', (s1, w')))"
proof -
  let ?c = "(mk_connection service_manager_id)\<lparr>conn_socket := Some Unconnected\<rparr>"
  let ?s1 = "s\<lparr>ss_connections := (ss_connections s)(service_manager_id \<mapsto> ?c)\<rparr>"
  have emp: "map_emplace (ss_connections s) service_manager_id c = (ss_connections s)(service_manager_id \<mapsto> c)" for c
    using assms(2) by (simp add: map_emplace_def)
  obtain e' where e': "tk_poll_modify T False = Some e'"
    using assms(1) unfolding poll_ok_def by auto
  have "session_send T E start service_manager_id data (s, w) =
      (Inl (Exception (''cannot connect to ServiceManager to create service '' @
         class_id_to_string T service_manager_id)), (?s1, w1))"
    using assms(2,3) by (simp add: session_send_def session_connect_def emp conn_send_def conn_open_def
        with_conn_def mk_connection_def Let_def)
  moreover have "session_send T E' start' service_manager_id data' (?s1, w') = (Inl e', (?s1, w'))" for data' w'
    using e' by (simp add: session_send_def session_connect_def conn_send_def conn_open_def conn_enqueue_def
        enable_write_def mk_connection_def fun_upd_idem)
  ultimately show ?thesis by blast
qed

theorem failed_connect_is_final_witness:
  "\<exists>s1. session_send demo_toolkit (demo_env (Inr VUndefined)) demo_start service_manager_id [1] (empty_session, ()) =
      (Inl (Exception (''cannot connect to ServiceManager to create service '' @
         class_id_to_string demo_toolkit service_manager_id)), (s1, ())) \<and>
    (\<exists>e'. \<forall>data' w'. session_send demo_toolkit ((demo_env (Inr VUndefined))\<lparr>env_connect := \<lambda>p w. (None, w)\<rparr>)
       demo_start service_manager_id data' (s1, w') = (Inl e', (s1, w')))"
  by (rule failed_connect_is_final [OF demo_poll_ok]) (simp_all add: empty_session_def demo_env_def)

end
