(* ===== verification/Session_Input.thy ===== *)
theory Session_Input
  imports Session_Rpc Bus_Link
begin

text \<open>
  The session's input loop implements the read loop. \<open>Frame_Reader\<close> and \<open>Bus_Link\<close> reason about
  \<open>read_loop\<close>, whose read task and serial are arguments; the event handler runs \<open>input_loop\<close>,
  whose read task and serial are members of the connection that the handler of a message can
  reach. While the connection is open the two agree: same messages, same serials, same rest.
\<close>

section \<open>Logging\<close>

text \<open>
  A handler that also keeps a log, which nothing else reads. \<open>ob\<close> says what is recorded of one
  call: it is given the serial, the payload and the session before and after. \<open>logged\<close> records
  serial and payload.
\<close>

type_synonym ('o, 'e) observer = "service_id \<Rightarrow> u32 \<Rightarrow> bytes \<Rightarrow> 'o session \<Rightarrow> 'o session \<Rightarrow> 'e"

definition observed :: "('o, 'e) observer \<Rightarrow> ('o, 'w) data_handler \<Rightarrow> ('o, 'w \<times> 'e list) data_handler" where
  "observed ob h i n m st =
     (case h i n m (fst st, fst (snd st)) of (s, w) \<Rightarrow> (s, (w, snd (snd st) @ [ob i n m (fst st) s])))"

abbreviation logged :: "('o, 'w) data_handler \<Rightarrow> ('o, 'w \<times> (u32 \<times> bytes) list) data_handler" where
  "logged \<equiv> observed (\<lambda>i n m s s'. (n, m))"

definition forget_log :: "('o, 'w \<times> 'l) state \<Rightarrow> ('o, 'w) state" where
  "forget_log st = (fst st, fst (snd st))"

definition map_log :: "('e \<Rightarrow> 'f) \<Rightarrow> ('o, 'w \<times> 'e list) state \<Rightarrow> ('o, 'w \<times> 'f list) state" where
  "map_log f st = (fst st, (fst (snd st), map f (snd (snd st))))"

text \<open>
  The loop commutes with every map of the state that keeps the session, provided the handlers
  commute with it.
\<close>

lemma input_loop_hom:
  assumes same: "\<And>st. fst (g st) = fst st" and conn: "\<And>f st. g (on_conn i f st) = on_conn i f (g st)"
    and hom: "\<And>j n m st. g (h j n m st) = h' j n m (g st)"
  shows "g (input_loop T h i d st) = input_loop T h' i d (g st)"
proof (rule input_loop_induct [where Q = "\<lambda>d st r. g r = input_loop T h' i d (g st)"], goal_cases)
  case (1 d st)
  then show ?case by (subst input_loop.simps) (auto simp: same split: option.split)
next
  case (2 d st c n t r)
  then show ?case by (subst input_loop.simps) (simp add: same conn Let_def)
next
  case (3 d st c n t r)
  then show ?case by (subst input_loop.simps) (simp add: same conn hom input_message_def Let_def)
qed

lemma forget_input_loop: "forget_log (input_loop T (observed ob h) i d st) = input_loop T h i d (forget_log st)"
  by (rule input_loop_hom) (simp_all add: forget_log_def on_conn_def observed_def split: prod.split)

lemma map_log_input_loop:
  "map_log f (input_loop T (observed ob h) i d st) =
     input_loop T (observed (\<lambda>i n m s s'. f (ob i n m s s')) h) i d (map_log f st)"
  by (rule input_loop_hom) (simp_all add: map_log_def on_conn_def observed_def split: prod.split)

section \<open>Open connections\<close>

definition reading :: "('o, 'w) state \<Rightarrow> service_id \<Rightarrow> read_task \<Rightarrow> u32 \<Rightarrow> bool" where
  "reading st i t n \<longleftrightarrow>
     (\<exists>c. open_conn (fst st) i c \<and> conn_service c = i \<and> conn_read_task c = t \<and> conn_read_serial c = n)"

lemma reading_task: "reading st i t n \<Longrightarrow> reading (on_conn i (\<lambda>c. c\<lparr>conn_read_task := t'\<rparr>) st) i t' n"
  by (auto simp: reading_def open_conn_def)

lemma reading_serial: "reading st i t n \<Longrightarrow> reading (on_conn i (\<lambda>c. c\<lparr>conn_read_serial := n'\<rparr>) st) i t n'"
  by (auto simp: reading_def open_conn_def)

lemma reading_logged:
  assumes "poll_ok T" and "spares i E" and "reading st i t n"
  shows "reading (logged (on_incoming_data T E start) i k m st) i t n"
proof -
  obtain c where c: "open_conn (fst st) i c" "conn_service c = i" "conn_read_task c = t" "conn_read_serial c = n"
    using assms(3) unfolding reading_def by blast
  from on_incoming_data_open [OF assms(1) c(1) assms(2), of start k m "fst (snd st)"] c(2-4) show ?thesis
    by (auto simp: reading_def observed_def split: prod.split)
qed

lemma reading_message:
  assumes "poll_ok T" and "spares i E" and "reading st i t n" and "conn_service c = i" and "conn_read_serial c = n"
  shows "reading (input_message (logged (on_incoming_data T E start)) i c m st) i new_read_task (n + 1) \<and>
    snd (snd (input_message (logged (on_incoming_data T E start)) i c m st)) = log_frame (snd (snd st)) n m"
proof
  show "reading (input_message (logged (on_incoming_data T E start)) i c m st) i new_read_task (n + 1)"
    unfolding input_message_def Let_def assms(4,5)
    by (rule reading_task [OF reading_logged [OF assms(1,2) reading_serial [OF assms(3)]]])
  show "snd (snd (input_message (logged (on_incoming_data T E start)) i c m st)) = log_frame (snd (snd st)) n m"
    by (simp add: input_message_def Let_def assms(4,5) on_conn_def observed_def log_frame_def split: prod.split)
qed

lemma input_loop_reads:
  "poll_ok T \<Longrightarrow> spares i E \<Longrightarrow> reading st i t n \<Longrightarrow> snd (snd st) = l \<Longrightarrow> read_loop T log_frame t n l d = (t', n', l') \<Longrightarrow>
    reading (input_loop T (logged (on_incoming_data T E start)) i d st) i t' n' \<and>
    snd (snd (input_loop T (logged (on_incoming_data T E start)) i d st)) = l'"
proof (induction T log_frame t n l d arbitrary: st rule: read_loop.induct)
  case (1 T t n l d)
  let ?h = "logged (on_incoming_data T E start)"
  note T = "1.prems"(1,2) and prems = "1.prems"(3-5)
  obtain c where c: "ss_connections (fst st) i = Some c" "conn_service c = i" "conn_read_task c = t" "conn_read_serial c = n"
    using prems(1) by (auto simp: reading_def open_conn_def)
  show ?case
  proof (cases "d = []")
    case True
    with prems show ?thesis by simp
  next
    case d: False
    obtain k u where r: "rt_read T t d = (k, u)" by (cases "rt_read T t d")
    let ?st1 = "on_conn i (\<lambda>c. c\<lparr>conn_read_task := u\<rparr>) st"
    note loop = input_loop.simps [of T ?h i d st] read_loop.simps [of T log_frame t n l d]
    have st1: "reading ?st1 i u n" "snd (snd ?st1) = l"
      using reading_task [OF prems(1)] prems(2) by (simp_all add: on_conn_def)
    show ?thesis
    proof (cases "rt_finished u")
      case True
      let ?st2 = "input_message ?h i c (rt_data u) ?st1"
      note msg = reading_message [OF T st1(1) c(2,4), of start "rt_data u"]
      have "read_loop T log_frame new_read_task (n + 1) (log_frame l n (rt_data u)) (drop k d) = (t', n', l')"
        using prems(3) d r True by (simp add: loop(2))
      from "1.hyps"(1) [OF d r [symmetric] refl True T conjunct1 [OF msg] trans [OF conjunct2 [OF msg]] this] st1(2)
      show ?thesis by (simp add: loop(1) c d r True Let_def)
    next
      case False
      have "read_loop T log_frame u n l (drop k d) = (t', n', l')"
        using prems(3) d r False by (simp add: loop(2))
      from "1.hyps"(2) [OF d r [symmetric] refl False T st1 this] show ?thesis
        by (simp add: loop(1) c d r False Let_def)
    qed
  qed
qed

section \<open>Properties\<close>

text \<open>
  C15: the session's input loop hands over exactly the messages of the stream. On an open connection
  whose read task is between messages or inside one, an input of any bytes calls
  \<^verbatim>\<open>OnIncomingData\<close> for exactly the frames that the specification \<open>split_frames\<close> finds in the
  bytes held and the bytes read, in order, under consecutive serials; the connection then holds
  the incomplete rest and the next serial. Handling a message cannot disturb this, whatever the
  message is and whatever the called object does, as long as the object does not use this very
  connection itself.
\<close>

theorem session_input_frames:
  assumes "poll_ok T" and "buf_ok T" and "open_conn s i c" and "conn_service c = i" and "rt_open T (conn_read_task c)"
    and "spares i E"
    and "split_frames T (rt_bytes (conn_read_task c) @ d) = (fs, rest)"
  shows "\<exists>s' w' c'. input_loop T (logged (on_incoming_data T E start)) i d (s, (w, [])) =
      (s', (w', dispatch_frames log_frame (conn_read_serial c) [] fs)) \<and>
    input_loop T (on_incoming_data T E start) i d (s, w) = (s', w') \<and>
    open_conn s' i c' \<and> rt_open T (conn_read_task c') \<and> rt_bytes (conn_read_task c') = rest \<and>
    conn_read_serial c' = conn_read_serial c + word_of_nat (length fs)"
proof -
  obtain t n l where r: "read_loop T log_frame (conn_read_task c) (conn_read_serial c) [] d = (t, n, l)"
    by (cases "read_loop T log_frame (conn_read_task c) (conn_read_serial c) [] d")
  note sp = read_loop_split [OF assms(2,5) r assms(7)]
  have "reading (s, (w, [])) i (conn_read_task c) (conn_read_serial c)"
    using assms(3,4) by (auto simp: reading_def)
  note run = input_loop_reads [OF assms(1,6) this _ r, of start]
  obtain s' w' l' where e: "input_loop T (logged (on_incoming_data T E start)) i d (s, (w, [])) = (s', (w', l'))"
    by (metis prod.collapse)
  then have "input_loop T (on_incoming_data T E start) i d (s, w) = (s', w')"
    using forget_input_loop [of T "\<lambda>i n m s s'. (n, m)" "on_incoming_data T E start" i d "(s, (w, []))"] by (simp add: forget_log_def)
  with e run sp show ?thesis
    by (auto simp: reading_def)
qed

theorem session_input_frames_witness:
  "\<exists>s'. input_loop demo_toolkit (logged (on_incoming_data demo_toolkit (demo_env (Inr VUndefined)) demo_start)) demo_peer
      (frame demo_toolkit [9] @ frame demo_toolkit [8, 7]) (demo_session, ((), [])) = (s', ((), [(0, [9]), (1, [8, 7])]))"
proof -
  have sp: "split_frames demo_toolkit (rt_bytes (conn_read_task (mk_accepted_connection demo_peer)) @
      frame demo_toolkit [9] @ frame demo_toolkit [8, 7]) = ([[9], [8, 7]], [])"
    using split_frames_frames [OF demo_le_ok, of "[[9], [8, 7]]" "[]"]
    by (simp add: mk_accepted_connection_def mk_connection_def)
  have "conn_service (mk_accepted_connection demo_peer) = demo_peer"
    "rt_open demo_toolkit (conn_read_task (mk_accepted_connection demo_peer))"
    by (simp_all add: mk_accepted_connection_def mk_connection_def)
  from session_input_frames [OF demo_poll_ok demo_buf_ok demo_open this demo_spares sp, of "Inr VUndefined" demo_start "()"]
  show ?thesis by (auto simp: log_frame_def mk_accepted_connection_def mk_connection_def)
qed

end
