(* ===== verification/Idl.thy ===== *)
theory Idl
  imports Session_Rpc
begin

text \<open>
  The code that the IDL compiler generates for an interface, from the templates
  src/tools/idl/idl/lang/cpp/interface.cpp, interface.h, remote.cpp and remote.h, with the
  root interface \<^verbatim>\<open>core::ICoreObject\<close>, its proxy \<^verbatim>\<open>core::CoreObject\<close>
  (src/src/lib/pbus/idl/core/), and \<^verbatim>\<open>Session::GetService\<close>, which finds an implementation or
  makes a proxy. An interface is a value of the datatype \<open>idl_interface\<close>; the generated
  functions are definitions with the interface as their argument.
\<close>

section \<open>Interfaces\<close>

text \<open>A method with the types of its arguments; the result type \<^verbatim>\<open>void\<close> is \<open>TUndefined\<close>.\<close>

record idl_method =
  im_name :: string
  im_args :: "wire_type list"
  im_result :: wire_type

text \<open>
  \<open>Core_Object\<close> is the root interface. \<open>Interface\<close> has the static \<^verbatim>\<open>ClassId\<close>, those of its
  dependencies, its methods and its base.
\<close>

datatype idl_interface =
    Core_Object
  | Interface class_id "class_id list" "idl_method list" idl_interface

definition core_object_id :: class_id where
  "core_object_id = \<lparr>Name = ''core.CoreObject'', Version = 1\<rparr>"

primrec if_class :: "idl_interface \<Rightarrow> class_id" where
  "if_class Core_Object = core_object_id"
| "if_class (Interface cls deps methods base) = cls"

section \<open>Dispatch\<close>

text \<open>The arguments, each read by \<^verbatim>\<open>ReadSingleValue\<close> at the offset the one before left.\<close>

fun read_args :: "toolkit \<Rightarrow> wire_type list \<Rightarrow> bytes \<Rightarrow> exn + wire_value list \<times> bytes" where
  "read_args T [] d = Inr ([], d)"
| "read_args T (t # ts) d =
     bind_exn (read_value T t d) (\<lambda>(v, d1).
     bind_exn (read_args T ts d1) (\<lambda>(vs, d2). Inr (v # vs, d2)))"

text \<open>
  \<open>'w \<Rightarrow> (exn + wire_value) \<times> 'w\<close> is the implementation's method applied to its arguments. The
  result of a \<^verbatim>\<open>void\<close> method is serialized as \<^verbatim>\<open>Undefined\<close>.
\<close>

type_synonym 'w implementation = "string \<Rightarrow> wire_value list \<Rightarrow> 'w \<Rightarrow> (exn + wire_value) \<times> 'w"

definition method_invoke ::
  "toolkit \<Rightarrow> 'w implementation \<Rightarrow> idl_method \<Rightarrow> bytes \<Rightarrow> 'w \<Rightarrow> (exn + bytes) \<times> 'w" where
  "method_invoke T impl m args_data w =
     (case read_args T (im_args m) args_data of
        Inl e \<Rightarrow> (Inl e, w)
      | Inr (args, _) \<Rightarrow>
          (case impl (im_name m) args w of
             (Inl e, w1) \<Rightarrow> (Inl e, w1)
           | (Inr v, w1) \<Rightarrow>
               (Inr (if im_result m \<noteq> TUndefined then serialize T [v] else serialize T [VUndefined]), w1)))"

text \<open>
  \<^verbatim>\<open>__pbus__invoke\<close>: the chain of comparisons over the methods of the interface, then the
  base's \<^verbatim>\<open>__pbus__invoke\<close>, and at its end that of \<^verbatim>\<open>ICoreObject\<close>, which throws.
\<close>

primrec pbus_invoke ::
  "toolkit \<Rightarrow> 'w implementation \<Rightarrow> idl_interface \<Rightarrow> string \<Rightarrow> bytes \<Rightarrow> 'w \<Rightarrow> (exn + bytes) \<times> 'w" where
  "pbus_invoke T impl Core_Object name args_data w =
     (Inl (Exception (''invoking unknown method '' @ name)), w)"
| "pbus_invoke T impl (Interface cls deps methods base) name args_data w =
     (case find (\<lambda>m. name = im_name m) methods of
        Some m \<Rightarrow> method_invoke T impl m args_data w
      | None \<Rightarrow> pbus_invoke T impl base name args_data w)"

text \<open>The method that a name selects, searched from the interface to the root.\<close>

primrec lookup_method :: "idl_interface \<Rightarrow> string \<Rightarrow> idl_method option" where
  "lookup_method Core_Object name = None"
| "lookup_method (Interface cls deps methods base) name =
     (case find (\<lambda>m. name = im_name m) methods of Some m \<Rightarrow> Some m | None \<Rightarrow> lookup_method base name)"

section \<open>Proxies\<close>

text \<open>
  \<^verbatim>\<open>CoreObject\<close>: the proxy of a remote object. \<^verbatim>\<open>~CoreObject\<close> releases it;
  \<^verbatim>\<open>CreateProxy\<close> makes one.
\<close>

record core_object =
  co_origin :: service_id
  co_id :: object_id

definition create_proxy :: "service_id \<Rightarrow> object_id \<Rightarrow> core_object" where
  "create_proxy origin i = \<lparr>co_origin = origin, co_id = i\<rparr>"

definition core_object_destroy ::
  "toolkit \<Rightarrow> ('o, 'w) env \<Rightarrow> ('o, 'w) start_fun \<Rightarrow> core_object \<Rightarrow> ('o, 'w) state \<Rightarrow> ('o, 'w) state" where
  "core_object_destroy T E start p st = session_release T E start (co_origin p) (co_id p) st"

text \<open>
  A method of a proxy (remote.cpp): invoke, then wait. \<open>poll\<close> is the poll of \<^verbatim>\<open>WaitResponse\<close>;
  the result is \<open>None\<close> when waiting does not end.
\<close>

definition proxy_call ::
  "toolkit \<Rightarrow> ('o, 'w) env \<Rightarrow> ('o, 'w) start_fun \<Rightarrow> (('o, 'w) state \<Rightarrow> (exn + nat) \<times> ('o, 'w) state) \<Rightarrow>
   idl_interface \<Rightarrow> idl_method \<Rightarrow> core_object \<Rightarrow> wire_value list \<Rightarrow> ('o, 'w) state \<Rightarrow>
   ((exn + wire_value) \<times> ('o, 'w) state) option" where
  "proxy_call T E start poll I m p args st =
     (case session_invoke T E start (im_result m) (co_origin p) (co_id p)
             \<lparr>Method_Service = if_class I, Method_Name = im_name m\<rparr> args st of
        (Inl e, st1) \<Rightarrow> Some (Inl e, st1)
      | (Inr token, st1) \<Rightarrow> session_wait poll (im_result m) (co_origin p) token st1)"

text \<open>
  \<^verbatim>\<open>RegisterProxy\<close> of an interface: its dependencies, then itself. Every generated proxy class
  inherits \<^verbatim>\<open>InterfaceType = ICoreObject\<close> from \<^verbatim>\<open>CoreObject\<close>, which is the class of the
  objects its factory makes. The factory's service is the class identifier. \<^verbatim>\<open>ICoreObject\<close>
  itself has no \<^verbatim>\<open>RegisterProxy\<close>: \<^verbatim>\<open>GetService\<close> is not instantiated for it.
\<close>

definition register_proxies :: "idl_interface \<Rightarrow> 'o session \<Rightarrow> 'o session" where
  "register_proxies I s =
     (case I of
        Core_Object \<Rightarrow> s
      | Interface cls deps methods base \<Rightarrow>
          register_proxy core_object_id cls False
            (fold (\<lambda>dep. register_proxy core_object_id dep False) deps s))"

section \<open>GetService\<close>

datatype 'o service_ref = Local_Service 'o | Remote_Service core_object

text \<open>
  \<open>implements\<close> says whether the dynamic cast of a local object to the interface succeeds. The
  proxy is created as an object of the interface, so its cast succeeds; the code keeps it in a
  static variable of the instance of the template, and it is the same at every call.
\<close>

definition get_service ::
  "toolkit \<Rightarrow> ('o \<Rightarrow> bool) \<Rightarrow> idl_interface \<Rightarrow> 'o session \<Rightarrow> (exn + 'o service_ref) \<times> 'o session" where
  "get_service T implements I s =
     (let class_id = if_class I in
      case get_local_service class_id s of
        (Some obj, s1) \<Rightarrow>
          if implements obj then (Inr (Local_Service obj), s1)
          else (Inl (Exception (''service registered can't cast to interface for '' @ class_id_to_string T class_id)), s1)
      | (None, s1) \<Rightarrow>
          (let s2 = register_proxies I s1 in
           case mk_class_id (class_id_to_string T class_id) 1 of
             Inl e \<Rightarrow> (Inl e, s2)
           | Inr key \<Rightarrow>
               (case get_factory s2 key of
                  None \<Rightarrow> (Inl (Exception (''no service '' @ class_id_to_string T class_id @ '' registered'')), s2)
                | Some _ \<Rightarrow> (Inr (Remote_Service (create_proxy class_id (mk_object_id class_id 0))), s2))))"

section \<open>Lemmas\<close>

lemma read_args_serialize:
  "bson_ok T \<Longrightarrow> map type_of args = ts \<Longrightarrow> read_args T ts (serialize T args @ rest) = Inr (args, rest)"
  by (induction args arbitrary: ts) auto

lemma pbus_invoke_lookup:
  "pbus_invoke T impl I name d w =
     (case lookup_method I name of
        Some m \<Rightarrow> method_invoke T impl m d w
      | None \<Rightarrow> (Inl (Exception (''invoking unknown method '' @ name)), w))"
  by (induction I) (simp_all split: option.split)

lemma lookup_method_name: "lookup_method I name = Some m \<Longrightarrow> im_name m = name"
  by (induction I) (auto simp: find_Some_iff split: option.splits)

lemma method_invoke_serialized:
  assumes "bson_ok T" and "map type_of args = im_args m"
  shows "method_invoke T impl m (serialize T args @ rest) w =
    (case impl (im_name m) args w of
       (Inl e, w1) \<Rightarrow> (Inl e, w1)
     | (Inr v, w1) \<Rightarrow> (Inr (ser_value T (if im_result m \<noteq> TUndefined then v else VUndefined)), w1))"
  by (simp add: method_invoke_def read_args_serialize [OF assms] split: prod.split sum.split)

lemma fold_register_proxy:
  "ss_factories (fold (\<lambda>dep. register_proxy cls dep False) deps s) i =
     (if ss_factories s i = None \<and> i \<in> set deps then Some (mk_component_factory cls i) else ss_factories s i)"
  by (induction deps arbitrary: s) (auto simp: register_proxy_def)

lemma register_proxy_frame [simp]:
  "ss_services (register_proxy cls i force s) = ss_services s"
  "ss_connections (register_proxy cls i force s) = ss_connections s"
  "ss_requests (register_proxy cls i force s) = ss_requests s"
  "ss_local_objects (register_proxy cls i force s) = ss_local_objects s"
  by (simp_all add: register_proxy_def)

lemma fold_register_proxy_frame [simp]:
  "ss_services (fold (\<lambda>dep. register_proxy cls dep False) deps s) = ss_services s"
  "ss_connections (fold (\<lambda>dep. register_proxy cls dep False) deps s) = ss_connections s"
  "ss_requests (fold (\<lambda>dep. register_proxy cls dep False) deps s) = ss_requests s"
  "ss_local_objects (fold (\<lambda>dep. register_proxy cls dep False) deps s) = ss_local_objects s"
  by (induction deps arbitrary: s) simp_all

lemma register_proxies_frame [simp]:
  "ss_services (register_proxies I s) = ss_services s"
  "ss_connections (register_proxies I s) = ss_connections s"
  "ss_requests (register_proxies I s) = ss_requests s"
  "ss_local_objects (register_proxies I s) = ss_local_objects s"
  by (cases I; simp add: register_proxies_def)+

lemma register_proxies_factory:
  "I \<noteq> Core_Object \<Longrightarrow> ss_factories (register_proxies I s) (if_class I) =
     (case ss_factories s (if_class I) of
        None \<Rightarrow> Some (mk_component_factory core_object_id (if_class I))
      | Some f \<Rightarrow> Some f)"
  by (cases I) (auto simp: register_proxies_def register_proxy_def fold_register_proxy split: option.split)

lemma get_service_proxy:
  assumes "fmt_ok T" and "I \<noteq> Core_Object" and "class_id_wf (if_class I)" and "ss_services s (if_class I) = None"
  shows "get_service T implements I s =
    (Inr (Remote_Service (create_proxy (if_class I) (mk_object_id (if_class I) 0))), register_proxies I s) \<and>
    (\<exists>factories. register_proxies I s = s\<lparr>ss_factories := factories\<rparr> \<and> ss_factories s \<subseteq>\<^sub>m factories)"
proof
  show "get_service T implements I s =
    (Inr (Remote_Service (create_proxy (if_class I) (mk_object_id (if_class I) 0))), register_proxies I s)"
    using register_proxies_factory [OF assms(2), of s]
    by (cases "ss_factories s (if_class I)")
      (simp_all add: get_service_def get_local_service_def assms(4) class_id_reparse [OF assms(1,3)] get_factory_def Let_def)
  have "register_proxies I s = s\<lparr>ss_factories := ss_factories (register_proxies I s)\<rparr>"
    by (rule session.equality) simp_all
  moreover have "ss_factories s \<subseteq>\<^sub>m ss_factories (register_proxies I s)"
    by (cases I) (auto simp: register_proxies_def register_proxy_def fold_register_proxy map_le_def)
  ultimately show "\<exists>factories. register_proxies I s = s\<lparr>ss_factories := factories\<rparr> \<and> ss_factories s \<subseteq>\<^sub>m factories"
    by blast
qed

section \<open>The interfaces of the system\<close>

text \<open>
  The interfaces that src/src/idl/system declares and the program uses. An interface without
  a declared base has the base \<^verbatim>\<open>core.CoreObject\<close>, which is always among its dependencies.
\<close>

definition random_generator_if :: idl_interface where
  "random_generator_if =
     Interface \<lparr>Name = ''system.RandomGenerator'', Version = 1\<rparr> [core_object_id]
       [\<lparr>im_name = ''getInteger'', im_args = [TU32], im_result = TU32\<rparr>] Core_Object"

definition service_manager_if :: idl_interface where
  "service_manager_if =
     Interface service_manager_id [core_object_id]
       [\<lparr>im_name = ''start'', im_args = [TString, TU16], im_result = TUndefined\<rparr>] Core_Object"

section \<open>Properties\<close>

text \<open>
  C18: the generated dispatch calls the right method with the right arguments. For arguments of
  the declared types, written by the proxy's serializer, \<^verbatim>\<open>__pbus__invoke\<close> calls the method
  that the name selects, the interface's own before an inherited one, once and with exactly
  these arguments, and serializes its result, or \<^verbatim>\<open>Undefined\<close> for \<^verbatim>\<open>void\<close>; a name that no
  interface of the chain declares calls nothing and throws.
\<close>

theorem idl_dispatch:
  assumes "bson_ok T" and "\<forall>m. lookup_method I name = Some m \<longrightarrow> map type_of args = im_args m"
  shows "pbus_invoke T impl I name (serialize T args @ rest) w =
    (case lookup_method I name of
       None \<Rightarrow> (Inl (Exception (''invoking unknown method '' @ name)), w)
     | Some m \<Rightarrow>
         (case impl name args w of
            (Inl e, w') \<Rightarrow> (Inl e, w')
          | (Inr v, w') \<Rightarrow> (Inr (ser_value T (if im_result m \<noteq> TUndefined then v else VUndefined)), w')))"
  using assms(2)
  by (auto simp: pbus_invoke_lookup method_invoke_serialized [OF assms(1)] dest: lookup_method_name split: option.split)

theorem idl_dispatch_witness:
  "pbus_invoke demo_toolkit (\<lambda>name args w. (Inr (VU32 7), Suc w)) random_generator_if ''getInteger''
     (serialize demo_toolkit [VU32 100]) 0 = (Inr (ser_value demo_toolkit (VU32 7)), Suc 0)"
  using idl_dispatch [OF demo_bson_ok, of random_generator_if "''getInteger''" "[VU32 100]"
      "\<lambda>name args w. (Inr (VU32 7), Suc w)" "[]" 0]
  by (simp add: random_generator_if_def)

text \<open>
  The proxy factories make objects of the wrong class. Whatever interface is registered, its
  factory, found under the interface's identifier, creates objects of class
  \<^verbatim>\<open>core.CoreObject\<close>, because a generated proxy class inherits \<^verbatim>\<open>InterfaceType\<close> from
  \<^verbatim>\<open>CoreObject\<close>. \<^verbatim>\<open>GetService\<close> does not use the factory it has looked up.
\<close>

lemma proxy_factory_class:
  assumes "I \<noteq> Core_Object" and "ss_factories s (if_class I) = None"
  shows "\<exists>f. get_factory (register_proxies I s) (if_class I) = Some f \<and>
    cf_create_root f = (if_class I, mk_object_id core_object_id 0) \<and>
    Type (snd (fst (cf_create f))) = core_object_id"
  using register_proxies_factory [OF assms(1), of s] assms(2)
  by (simp add: get_factory_def cf_create_root_def cf_create_def mk_component_factory_def)

end
