(* ===== verification/Remote_Call.thy ===== *)
theory Remote_Call
  imports Idl
begin

text \<open>
  A remote call as a whole: the proxy of the caller, its socket events, the bytes on the
  wire, the socket event of the server, the generated dispatch of the interface and the
  answer's way back.
\<close>

section \<open>Events\<close>

text \<open>
  A connection between two messages: connected and in the poll, nothing to write, nothing
  read of the next message.
\<close>

definition idle_conn :: "toolkit \<Rightarrow> 'o session \<Rightarrow> service_id \<Rightarrow> connection \<Rightarrow> bool" where
  "idle_conn T s i c \<longleftrightarrow>
     ss_connections s i = Some c \<and> conn_service c = i \<and> conn_socket c = Some Connected \<and>
     conn_registered c \<and> conn_write_queue c = [] \<and> rt_open T (conn_read_task c) \<and> rt_bytes (conn_read_task c) = []"

definition input_event :: socket_event where
  "input_event = \<lparr>ev_hangup = False, ev_output = False, ev_input = True\<rparr>"

definition output_event :: socket_event where
  "output_event = \<lparr>ev_hangup = False, ev_output = True, ev_input = False\<rparr>"

text \<open>An input event that reads the bytes \<open>d\<close>; an output event whose socket takes the whole buffer.\<close>

definition receive_bytes ::
  "toolkit \<Rightarrow> ('o, 'w) env \<Rightarrow> ('o, 'w) start_fun \<Rightarrow> service_id \<Rightarrow> bytes \<Rightarrow> ('o, 'w) state \<Rightarrow> exn option \<times> ('o, 'w) state" where
  "receive_bytes T E start i d st =
     handle_socket_event T E start i input_event (\<lambda>b. Inr 0) (Inr (int (length d), d)) st"

definition flush_output ::
  "toolkit \<Rightarrow> ('o, 'w) env \<Rightarrow> ('o, 'w) start_fun \<Rightarrow> service_id \<Rightarrow> ('o, 'w) state \<Rightarrow> exn option \<times> ('o, 'w) state" where
  "flush_output T E start i st =
     handle_socket_event T E start i output_event (\<lambda>b. Inr (length b)) (Inr (0, [])) st"

text \<open>
  The polls of a caller that waits: while output is enabled the output event is delivered,
  then an input event with the bytes \<open>d\<close>.
\<close>

definition caller_poll ::
  "toolkit \<Rightarrow> ('o, 'w) env \<Rightarrow> ('o, 'w) start_fun \<Rightarrow> service_id \<Rightarrow> bytes \<Rightarrow> ('o, 'w) state \<Rightarrow> (exn + nat) \<times> ('o, 'w) state" where
  "caller_poll T E start server d st =
     (case ss_connections (fst st) server of
        None \<Rightarrow> (Inr 0, st)
      | Some c \<Rightarrow>
          (Inr 1, snd (if conn_out c then flush_output T E start server st else receive_bytes T E start server d st)))"

section \<open>One message\<close>

lemma rt_read_frame:
  assumes "le_ok T" and "buf_ok T" and "length body < 2 ^ 32" and "rt_open T t" and "rt_bytes t = []"
  shows "\<exists>t'. rt_read T t (frame T body) = (length (frame T body), t') \<and> rt_finished t' \<and> rt_data t' = body"
proof -
  obtain n t' where r: "rt_read T t (frame T body) = (n, t')" by (cases "rt_read T t (frame T body)")
  note ok = rt_read_ok [OF assms(2,4) r, unfolded rt_step_ok_def]
  have sp: "split_frames T (frame T body) = ([body], [])"
    using split_frames_frame [OF assms(1,3), of "[]"] by simp
  have fin: "rt_finished t'"
  proof (rule ccontr)
    assume "\<not> rt_finished t'"
    then have "rt_open T t'" "rt_bytes t' = frame T body" using ok assms(5) by auto
    then show False using rt_open_split [of T t'] sp by simp
  qed
  then obtain h where h: "length h = 4" "unat (tk_le_read T h) = length (rt_data t')"
      "take n (frame T body) = h @ rt_data t'" and n: "n \<le> length (frame T body)"
    using ok assms(5) by auto
  have "split_frames T (h @ rt_data t' @ drop n (frame T body)) = ([body], [])"
    using sp h(3) by (metis append.assoc append_take_drop_id)
  then have "rt_data t' = body"
    by (simp add: split_frames_Cons [OF h(1,2)])
  moreover have "length (take n (frame T body)) = 4 + length body"
    using h calculation by simp
  ultimately show ?thesis
    using r fin n assms(1) by (auto simp: frame_def)
qed

lemma with_conn_same [simp]: "with_conn i (\<lambda>c. c) s = s"
  by (cases s) (auto simp: with_conn_def fun_upd_idem split: option.split)

lemma with_conn_lookup:
  "ss_connections s i = Some c \<Longrightarrow> with_conn i f s = s\<lparr>ss_connections := (ss_connections s)(i \<mapsto> f c)\<rparr>"
  by (simp add: with_conn_def)

lemma session_conns_idem [simp]: "s\<lparr>ss_connections := ss_connections s\<rparr> = s"
  by simp

lemma input_loop_frame:
  assumes "le_ok T" and "buf_ok T" and "length body < 2 ^ 32" and "ss_connections s i = Some c"
    and "rt_open T (conn_read_task c)" and "rt_bytes (conn_read_task c) = []"
  shows "\<exists>t. rt_finished t \<and> rt_data t = body \<and> input_loop T h i (frame T body) (s, w) =
    input_message h i c body (on_conn i (\<lambda>c. c\<lparr>conn_read_task := t\<rparr>) (s, w))"
proof -
  obtain t where t: "rt_read T (conn_read_task c) (frame T body) = (length (frame T body), t)"
      "rt_finished t" "rt_data t = body"
    using rt_read_frame [OF assms(1-3,5,6)] by blast
  show ?thesis
    by (intro exI [of _ t] conjI t(2,3), subst input_loop.simps) (simp add: assms(1,4) t Let_def)
qed

lemma receive_bytes_loop:
  assumes "ss_connections (fst st) i = Some c" and "chunk \<noteq> []"
  shows "receive_bytes T E start i chunk st = (None, input_loop T (on_incoming_data T E start) i chunk st)"
proof -
  have "with_conn i (\<lambda>_. c) (fst st) = fst st"
    using assms(1) by (simp add: with_conn_lookup fun_upd_idem)
  then show ?thesis
    using assms
    by (cases st) (simp add: receive_bytes_def handle_socket_event_def input_event_def conn_input_event_def conn_input_def)
qed

lemma receive_frame:
  assumes "le_ok T" and "buf_ok T" and "length body < 2 ^ 32" and "ss_connections s i = Some c"
    and "rt_open T (conn_read_task c)" and "rt_bytes (conn_read_task c) = []"
  shows "\<exists>t. rt_finished t \<and> rt_data t = body \<and> receive_bytes T E start i (frame T body) (s, w) =
    (None, input_message (on_incoming_data T E start) i c body (on_conn i (\<lambda>c. c\<lparr>conn_read_task := t\<rparr>) (s, w)))"
proof -
  have "frame T body \<noteq> []"
    using assms(1) by simp
  then show ?thesis
    using input_loop_frame [OF assms, of "on_incoming_data T E start" w] receive_bytes_loop [of "(s, w)" i c "frame T body" T E start] assms(4)
    by auto
qed

lemma flush_one:
  assumes "poll_ok T" and "ss_connections s i = Some c" and "conn_registered c" and "conn_out c"
    and "conn_write_queue c = [mk_write_task d]" and "d \<noteq> []"
  shows "flush_output T E start i (s, w) =
    (None, (s\<lparr>ss_connections := (ss_connections s)(i \<mapsto> c\<lparr>conn_write_queue := [], conn_out := False\<rparr>)\<rparr>, w))"
proof -
  have "conn_ready c"
    using assms by (simp add: conn_ready_def)
  from conn_output_ok [OF assms(1) this assms(5), of "\<lambda>b. Inr (length b)" "length d"]
  have "conn_output T (\<lambda>b. Inr (length b)) c = (None, c\<lparr>conn_write_queue := [], conn_out := False\<rparr>, d)"
    by simp
  then show ?thesis
    using assms(2) by (simp add: flush_output_def handle_socket_event_def output_event_def with_conn_lookup)
qed

section \<open>The server\<close>

text \<open>The payload by which a server answers the request it read under serial \<open>n\<close>.\<close>

definition answer_payload :: "toolkit \<Rightarrow> u32 \<Rightarrow> exn + wire_value \<Rightarrow> bytes" where
  "answer_payload T n r =
     (case r of Inl e \<Rightarrow> exception_payload T n (exn_what e) | Inr v \<Rightarrow> result_payload T n (ser_value T v))"

text \<open>
  The state of the session and of the connection in which the implementation is called: the
  message is complete, the read task still holds it, and the serial has been taken.
\<close>

definition handling_conn :: "read_task \<Rightarrow> connection \<Rightarrow> connection" where
  "handling_conn t c = c\<lparr>conn_read_task := t, conn_read_serial := conn_read_serial c + 1\<rparr>"

definition handling_session :: "service_id \<Rightarrow> read_task \<Rightarrow> connection \<Rightarrow> 'o session \<Rightarrow> 'o session" where
  "handling_session i t c s = s\<lparr>ss_connections := (ss_connections s)(i \<mapsto> handling_conn t c)\<rparr>"

lemma handling_session_simps [simp]:
  "ss_connections (handling_session i t c s) = (ss_connections s)(i \<mapsto> handling_conn t c)"
  "ss_local_objects (handling_session i t c s) = ss_local_objects s"
  "ss_services (handling_session i t c s) = ss_services s"
  "ss_requests (handling_session i t c s) = ss_requests s"
  "ss_factories (handling_session i t c s) = ss_factories s"
  "get_response_parser (handling_session i t c s) o' n = get_response_parser s o' n"
  by (simp_all add: handling_session_def get_response_parser_def)

text \<open>
  A complete request is handled. The implementation may change the session (\<open>s1\<close> is the session it
  leaves, \<open>c1\<close> the connection it was called on); its result is queued there.
\<close>

lemma input_message_request:
  assumes T: "le_ok T" "buf_ok T" "bson_ok T" "poll_ok T"
    and c: "ss_connections s client = Some c" "conn_service c = client"
    and i: "class_id_wf (Type i)" "Version (Type i) = 1" "ss_local_objects s i = Some obj"
    and E: "env_invoke E obj m (serialize T args)
        (s\<lparr>ss_connections := (ss_connections s)(client \<mapsto> c\<lparr>conn_read_serial := conn_read_serial c + 1\<rparr>)\<rparr>, w) =
      (map_sum id (ser_value T) r, (s1, w1))"
    and c1: "open_conn s1 client c1"
  shows "input_message (on_incoming_data T E start) client c (invoke_payload T i m args) (s, w) =
    (s1\<lparr>ss_connections := (ss_connections s1)(client \<mapsto>
      (snd (conn_enqueue T (frame T (answer_payload T (conn_read_serial c) r)) c1))\<lparr>conn_read_task := new_read_task\<rparr>)\<rparr>, w1)"
proof -
  let ?s = "s\<lparr>ss_connections := (ss_connections s)(client \<mapsto> c\<lparr>conn_read_serial := conn_read_serial c + 1\<rparr>)\<rparr>"
  have "ss_local_objects ?s i = Some obj" using i(3) by simp
  from rpc_request [where start = start and n = "conn_read_serial c", OF T(3,4) E c1 i(1,2) this]
  have "on_incoming_data T E start client (conn_read_serial c) (invoke_payload T i m args) (?s, w) =
      (queue_message T client c1 (answer_payload T (conn_read_serial c) r) s1, w1)"
    by (cases r) (simp_all add: answer_payload_def)
  then show ?thesis
    using c by (simp add: input_message_def on_conn_def with_conn_lookup Let_def queue_message_def message_bytes_frame T(1,2))
qed

lemma receive_request:
  assumes T: "le_ok T" "buf_ok T" "bson_ok T" "poll_ok T" and idle: "idle_conn T sb client cb"
    and i: "class_id_wf (Type i)" "Version (Type i) = 1" "ss_local_objects sb i = Some obj"
    and E: "\<forall>t. rt_finished t \<longrightarrow> rt_data t = invoke_payload T i m args \<longrightarrow>
      env_invoke E obj m (serialize T args) (handling_session client t cb sb, wb) =
        (map_sum id (ser_value T) r, (sb1 t, wb_end t)) \<and> open_conn (sb1 t) client (cb1 t)"
    and len: "length (invoke_payload T i m args) < 2 ^ 32"
  shows "\<exists>t. rt_finished t \<and> rt_data t = invoke_payload T i m args \<and>
    receive_bytes T E start client (frame T (invoke_payload T i m args)) (sb, wb) =
      (None, ((sb1 t)\<lparr>ss_connections := (ss_connections (sb1 t))(client \<mapsto>
        (snd (conn_enqueue T (frame T (answer_payload T (conn_read_serial cb) r)) (cb1 t)))\<lparr>conn_read_task := new_read_task\<rparr>)\<rparr>, wb_end t))"
proof -
  let ?req = "invoke_payload T i m args"
  have cb: "ss_connections sb client = Some cb" "conn_service cb = client"
      "rt_open T (conn_read_task cb)" "rt_bytes (conn_read_task cb) = []"
    using idle by (simp_all add: idle_conn_def)
  obtain t where t: "rt_finished t" "rt_data t = ?req" "receive_bytes T E start client (frame T ?req) (sb, wb) =
      (None, input_message (on_incoming_data T E start) client cb ?req (on_conn client (\<lambda>c. c\<lparr>conn_read_task := t\<rparr>) (sb, wb)))"
    using receive_frame [where E = E and start = start and w = wb, OF T(1,2) len cb(1,3,4)] by blast
  let ?s = "sb\<lparr>ss_connections := (ss_connections sb)(client \<mapsto> cb\<lparr>conn_read_task := t\<rparr>)\<rparr>"
  have s: "ss_connections ?s client = Some (cb\<lparr>conn_read_task := t\<rparr>)" "conn_service (cb\<lparr>conn_read_task := t\<rparr>) = client"
      "ss_local_objects ?s i = Some obj"
    using cb(2) i(3) by simp_all
  have inv: "env_invoke E obj m (serialize T args) (?s\<lparr>ss_connections := (ss_connections ?s)(client \<mapsto>
        (cb\<lparr>conn_read_task := t\<rparr>)\<lparr>conn_read_serial := conn_read_serial (cb\<lparr>conn_read_task := t\<rparr>) + 1\<rparr>)\<rparr>, wb) =
      (map_sum id (ser_value T) r, (sb1 t, wb_end t))" and c1: "open_conn (sb1 t) client (cb1 t)"
    using E t(1,2) by (simp_all add: handling_session_def handling_conn_def)
  have same: "input_message h client cb d (on_conn client (\<lambda>c. c\<lparr>conn_read_task := t\<rparr>) (sb, wb)) =
      input_message h client (cb\<lparr>conn_read_task := t\<rparr>) d (?s, wb)" for h d
    using cb(1) by (simp add: input_message_def on_conn_def with_conn_lookup)
  from input_message_request [where start = start, OF T s(1,2) i(1,2) s(3) inv c1] t show ?thesis
    by (intro exI [of _ t]) (simp add: same)
qed

text \<open>A connection after a request on it: the answer is queued, the read task is new.\<close>

definition answered_conn :: "toolkit \<Rightarrow> exn + wire_value \<Rightarrow> connection \<Rightarrow> connection" where
  "answered_conn T r c =
     (snd (conn_enqueue T (frame T (answer_payload T (conn_read_serial c) r)) (c\<lparr>conn_read_serial := conn_read_serial c + 1\<rparr>)))
       \<lparr>conn_read_task := new_read_task\<rparr>"

lemma answered_conn_simps:
  assumes "poll_ok T" and "le_ok T" and "conn_registered c"
  shows "conn_registered (answered_conn T r c)" "conn_socket (answered_conn T r c) = conn_socket c"
    "conn_service (answered_conn T r c) = conn_service c" "conn_read_serial (answered_conn T r c) = conn_read_serial c + 1"
    "conn_read_task (answered_conn T r c) = new_read_task"
    "queued_bytes (answered_conn T r c) = queued_bytes c @ frame T (answer_payload T (conn_read_serial c) r)"
  using assms by (simp_all add: answered_conn_def conn_enqueue_registered queued_bytes_def)

lemma answered_conn_idle:
  assumes "poll_ok T" and "idle_conn T s i c"
  shows "answered_conn T r c = c\<lparr>conn_read_task := new_read_task, conn_read_serial := conn_read_serial c + 1, conn_out := True,
    conn_write_queue := [mk_write_task (frame T (answer_payload T (conn_read_serial c) r))], conn_write_serial := conn_write_serial c + 1\<rparr>"
  using assms by (simp add: answered_conn_def idle_conn_def conn_enqueue_registered)

text \<open>The implementation leaves the connection it was called on as it is.\<close>

lemma server_answers_request:
  assumes T: "le_ok T" "buf_ok T" "bson_ok T" "poll_ok T" and idle: "idle_conn T sb client cb"
    and i: "class_id_wf (Type i)" "Version (Type i) = 1" "ss_local_objects sb i = Some obj"
    and E: "\<forall>t. env_invoke E obj m (serialize T args) (handling_session client t cb sb, wb) =
        (map_sum id (ser_value T) r, (sb1 t, wb_end t)) \<and>
      ss_connections (sb1 t) client = Some (handling_conn t cb)"
    and len: "length (invoke_payload T i m args) < 2 ^ 32"
  shows "\<exists>t. receive_bytes T E start client (frame T (invoke_payload T i m args)) (sb, wb) =
    (None, ((sb1 t)\<lparr>ss_connections := (ss_connections (sb1 t))(client \<mapsto> answered_conn T r cb)\<rparr>, wb_end t))"
proof -
  have c: "conn_registered (handling_conn t cb)" "conn_socket (handling_conn t cb) = Some Connected" for t
    using idle by (simp_all add: idle_conn_def handling_conn_def)
  have "\<forall>t. rt_finished t \<longrightarrow> rt_data t = invoke_payload T i m args \<longrightarrow>
      env_invoke E obj m (serialize T args) (handling_session client t cb sb, wb) =
        (map_sum id (ser_value T) r, (sb1 t, wb_end t)) \<and> open_conn (sb1 t) client (handling_conn t cb)"
    using E c by (simp add: open_conn_def)
  from receive_request [where start = start, OF T idle i this len]
  obtain t where t: "receive_bytes T E start client (frame T (invoke_payload T i m args)) (sb, wb) =
      (None, ((sb1 t)\<lparr>ss_connections := (ss_connections (sb1 t))(client \<mapsto>
        (snd (conn_enqueue T (frame T (answer_payload T (conn_read_serial cb) r)) (handling_conn t cb)))\<lparr>conn_read_task := new_read_task\<rparr>)\<rparr>, wb_end t))"
    by blast
  moreover have "(snd (conn_enqueue T d (handling_conn t cb)))\<lparr>conn_read_task := new_read_task\<rparr> =
      (snd (conn_enqueue T d (cb\<lparr>conn_read_serial := conn_read_serial cb + 1\<rparr>)))\<lparr>conn_read_task := new_read_task\<rparr>" for d
    using c(1) [of t] T(4) idle by (simp add: conn_enqueue_registered idle_conn_def handling_conn_def)
  ultimately show ?thesis
    by (intro exI [of _ t]) (simp add: answered_conn_def)
qed

lemma server_handles_request_state:
  assumes T: "le_ok T" "buf_ok T" "bson_ok T" "poll_ok T" and idle: "idle_conn T sb client cb"
    and i: "class_id_wf (Type i)" "Version (Type i) = 1" "ss_local_objects sb i = Some obj"
    and E: "\<forall>t. env_invoke E obj m (serialize T args) (handling_session client t cb sb, wb) =
        (map_sum id (ser_value T) r, (sb1 t, wb_end)) \<and>
      ss_connections (sb1 t) client = Some (handling_conn t cb)"
    and len: "length (invoke_payload T i m args) < 2 ^ 32"
  defines "n \<equiv> conn_read_serial cb"
  shows "\<exists>t sb_end cb_end. receive_bytes T E start client (frame T (invoke_payload T i m args)) (sb, wb) = (None, (sb_end, wb_end)) \<and>
    sb_end = (sb1 t)\<lparr>ss_connections := (ss_connections (sb1 t))(client \<mapsto> cb_end)\<rparr> \<and>
    queued_bytes cb_end = frame T (answer_payload T n r) \<and> conn_ready cb_end \<and>
    conn_read_serial cb_end = n + 1 \<and> conn_read_task cb_end = new_read_task"
proof -
  have "queued_bytes (answered_conn T r cb) = frame T (answer_payload T n r)" "conn_ready (answered_conn T r cb)"
    using idle T(1,4) by (simp_all add: answered_conn_idle [OF T(4) idle] queued_bytes_def conn_ready_def n_def) (simp add: idle_conn_def)
  moreover have "conn_read_serial (answered_conn T r cb) = n + 1" "conn_read_task (answered_conn T r cb) = new_read_task"
    by (simp_all add: answered_conn_idle [OF T(4) idle] n_def)
  ultimately show ?thesis
    using server_answers_request [where start = start, OF T idle i E len] by blast
qed

lemma server_handles_request:
  assumes "le_ok T" and "buf_ok T" and "bson_ok T" and "poll_ok T" and "idle_conn T sb client cb"
    and "class_id_wf (Type i)" and "Version (Type i) = 1" and "ss_local_objects sb i = Some obj"
    and "\<forall>s. env_invoke E obj m (serialize T args) (s, wb) = (map_sum id (ser_value T) r, (s, wb_end))"
    and "length (invoke_payload T i m args) < 2 ^ 32"
  defines "n \<equiv> conn_read_serial cb"
  shows "\<exists>sb_end cb_end. receive_bytes T E start client (frame T (invoke_payload T i m args)) (sb, wb) = (None, (sb_end, wb_end)) \<and>
    ss_connections sb_end = (ss_connections sb)(client \<mapsto> cb_end) \<and> ss_local_objects sb_end = ss_local_objects sb \<and>
    queued_bytes cb_end = frame T (answer_payload T n r) \<and> conn_ready cb_end \<and>
    conn_read_serial cb_end = n + 1 \<and> conn_read_task cb_end = new_read_task"
proof -
  have "\<forall>t. env_invoke E obj m (serialize T args) (handling_session client t cb sb, wb) =
        (map_sum id (ser_value T) r, (handling_session client t cb sb, wb_end)) \<and>
      ss_connections (handling_session client t cb sb) client = Some (handling_conn t cb)"
    using assms(9) by simp
  from server_handles_request_state [where start = start, OF assms(1-8) this assms(10)] show ?thesis
    unfolding n_def by auto
qed

lemma type_of_undefined: "type_of v = TUndefined \<Longrightarrow> v = VUndefined"
  by (cases v) simp_all

section \<open>The caller\<close>

text \<open>What a caller gets when the method yields \<open>r\<close>.\<close>

definition rethrown :: "exn + wire_value \<Rightarrow> exn + wire_value" where
  "rethrown r = (case r of Inl e \<Rightarrow> Inl (Runtime_Error (exn_what e)) | Inr v \<Rightarrow> Inr v)"

lemma answer_delivered:
  assumes "bson_ok T" and "get_response_parser s server n = Some (mk_response_parser t)"
    and "\<forall>v. r = Inr v \<longrightarrow> type_of v = t"
  shows "\<exists>p. on_incoming_data T E start server k (answer_payload T n r) (s, w) = (put_parser server n p s, w) \<and>
    rp_finished p \<and> rp_extract t p = rethrown r"
proof (cases r)
  case (Inl e)
  then show ?thesis
    using on_incoming_exception_payload [OF assms(1), of E start server k n "exn_what e" s w] assms(2)
    by (intro exI [of _ "rp_set_exception (Runtime_Error (exn_what e)) (mk_response_parser t)"])
      (simp add: answer_payload_def rethrown_def rp_set_exception_def rp_extract_def)
next
  case (Inr v)
  let ?p = "mk_response_parser t"
  have "rp_type ?p = t" "rp_exception ?p = None"
    by (simp_all add: mk_response_parser_def)
  then show ?thesis
    using on_incoming_result_payload [OF assms(1), of E start server k n "ser_value T v" s w] assms(2,3) Inr
      any_slot.deliver_finished rp_deliver_result [OF assms(1), of ?p v "[]"]
    by (intro exI [of _ "deliver (rp_parse T) rp_set_exception (Result_Data (ser_value T v)) ?p"])
      (simp add: answer_payload_def rethrown_def rp_typed_new del: deliver.simps)
qed

text \<open>
  The two polls of a caller whose request is queued on an idle connection: the first writes
  the request, the second reads the answer.
\<close>

lemma caller_first_poll:
  assumes "le_ok T" and "poll_ok T" and "ss_connections s server = Some c" and "conn_registered c" and "conn_out c"
    and "conn_write_queue c = [mk_write_task (frame T request)]"
  shows "caller_poll T E start server d (s, w) =
    (Inr 1, (s\<lparr>ss_connections := (ss_connections s)(server \<mapsto> c\<lparr>conn_write_queue := [], conn_out := False\<rparr>)\<rparr>, w))"
  using flush_one [where E = E and start = start and w = w, OF assms(2-6)] assms(1,3,5) by (simp add: caller_poll_def)

lemma caller_second_poll:
  assumes "le_ok T" and "buf_ok T" and "bson_ok T" and "idle_conn T s server c" and "\<not> conn_out c"
    and "get_response_parser s server n = Some (mk_response_parser t)" and "\<forall>v. r = Inr v \<longrightarrow> type_of v = t"
    and "length (answer_payload T n r) < 2 ^ 32"
  shows "\<exists>s_end p. caller_poll T E start server (frame T (answer_payload T n r)) (s, w) = (Inr 1, (s_end, w)) \<and>
    get_response_parser s_end server n = Some p \<and> rp_finished p \<and> rp_extract t p = rethrown r \<and>
    s_end = put_parser server n p (s\<lparr>ss_connections := (ss_connections s)(server \<mapsto>
      c\<lparr>conn_read_task := new_read_task, conn_read_serial := conn_read_serial c + 1\<rparr>)\<rparr>)"
proof -
  let ?ans = "answer_payload T n r"
  have c: "ss_connections s server = Some c" "conn_service c = server"
      "rt_open T (conn_read_task c)" "rt_bytes (conn_read_task c) = []"
    using assms(4) by (simp_all add: idle_conn_def)
  obtain u where u: "receive_bytes T E start server (frame T ?ans) (s, w) =
      (None, input_message (on_incoming_data T E start) server c ?ans (on_conn server (\<lambda>c. c\<lparr>conn_read_task := u\<rparr>) (s, w)))"
    using receive_frame [where E = E and start = start and w = w, OF assms(1,2,8) c(1,3,4)] by blast
  let ?c = "c\<lparr>conn_read_task := u, conn_read_serial := conn_read_serial c + 1\<rparr>"
  let ?s = "s\<lparr>ss_connections := (ss_connections s)(server \<mapsto> ?c)\<rparr>"
  obtain p where p: "on_incoming_data T E start server (conn_read_serial c) ?ans (?s, w) = (put_parser server n p ?s, w)"
      "rp_finished p" "rp_extract t p = rethrown r"
    using answer_delivered [OF assms(3) _ assms(7), of ?s server n E start "conn_read_serial c" w] assms(6) by auto
  then have "input_message (on_incoming_data T E start) server c ?ans (on_conn server (\<lambda>c. c\<lparr>conn_read_task := u\<rparr>) (s, w)) =
      on_conn server (\<lambda>c. c\<lparr>conn_read_task := new_read_task\<rparr>) (put_parser server n p ?s, w)"
    using c by (simp add: input_message_def on_conn_def with_conn_lookup Let_def)
  moreover have "with_conn server (\<lambda>c. c\<lparr>conn_read_task := new_read_task\<rparr>) (put_parser server n p ?s) =
      put_parser server n p (s\<lparr>ss_connections := (ss_connections s)(server \<mapsto>
        c\<lparr>conn_read_task := new_read_task, conn_read_serial := conn_read_serial c + 1\<rparr>)\<rparr>)"
    by (cases s; cases c) (simp add: with_conn_def put_parser_def)
  ultimately show ?thesis
    using p u assms(5) c(1)
    by (intro exI [of _ "put_parser server n p (s\<lparr>ss_connections := (ss_connections s)(server \<mapsto>
        c\<lparr>conn_read_task := new_read_task, conn_read_serial := conn_read_serial c + 1\<rparr>)\<rparr>)"] exI [of _ p])
      (simp add: caller_poll_def on_conn_def get_put_parser)
qed

lemma not_finished_parser [simp]: "\<not> rp_finished (mk_response_parser t)"
  by (simp add: mk_response_parser_def)

lemma wait_two_rounds:
  assumes "poll st = (Inr 1, st_sent)" and "poll st_sent = (Inr 1, st_end)"
    and "get_response_parser (fst st_sent) origin n = Some q" and "\<not> rp_finished q"
    and "get_response_parser (fst st_end) origin n = Some p" and "rp_finished p"
  shows "session_wait poll t origin n st = Some (rp_extract t p, st_end)"
  using assms wait_response_unfold [where poll = poll and st = st and c = 0 and origin = origin and n = n and ?st1.0 = st_sent]
    wait_response_found [where poll = poll and st = st_sent and c = 0 and origin = origin and n = n and ?st1.0 = st_end and p = p]
  by (simp add: session_wait_def answered_def)

text \<open>
  The whole call, for any poll that first writes the request and then reads the answer. Between the two
  the rest of the world may change.
\<close>

lemma caller_gets_answer_rounds:
  assumes T: "le_ok T" "buf_ok T" "bson_ok T" "poll_ok T" and idle: "idle_conn T sa server ca"
    and r: "\<forall>v. r = Inr v \<longrightarrow> type_of v = im_result m"
    and len: "length (answer_payload T (conn_write_serial ca) r) < 2 ^ 32"
    and sends: "\<forall>s c. (\<forall>j. j \<noteq> server \<longrightarrow> ss_connections s j = ss_connections sa j) \<longrightarrow> ss_connections s server = Some c \<longrightarrow> conn_write_serial c = conn_write_serial ca + 1 \<longrightarrow>
      conn_registered c \<longrightarrow> conn_out c \<longrightarrow>
      conn_write_queue c = [mk_write_task (frame T (invoke_payload T i (im_name m) args))] \<longrightarrow>
      poll (s, wa) = (Inr 1, (s\<lparr>ss_connections := (ss_connections s)(server \<mapsto> c\<lparr>conn_write_queue := [], conn_out := False\<rparr>)\<rparr>, wb))"
    and reads: "\<forall>s c. (\<forall>j. j \<noteq> server \<longrightarrow> ss_connections s j = ss_connections sa j) \<longrightarrow> idle_conn T s server c \<longrightarrow> conn_write_serial c = conn_write_serial ca + 1 \<longrightarrow> \<not> conn_out c \<longrightarrow>
      poll (s, wb) = (Inr 1, snd (receive_bytes T E start server (frame T (answer_payload T (conn_write_serial ca) r)) (s, wc)))"
  defines "n \<equiv> conn_write_serial ca"
  shows "\<exists>sa_end c. proxy_call T E start poll I m
      (create_proxy server i) args (sa, wa) = Some (rethrown r, (sa_end, wc)) \<and>
    ss_connections sa_end = (ss_connections sa)(server \<mapsto> c) \<and> idle_conn T sa_end server c \<and>
    conn_write_serial c = n + 1 \<and> conn_read_serial c = conn_read_serial ca + 1 \<and>
    ss_services sa_end = ss_services sa \<and> ss_factories sa_end = ss_factories sa \<and> ss_local_objects sa_end = ss_local_objects sa"
proof -
  let ?req = "invoke_payload T i (im_name m) args"
  let ?c = "snd (conn_enqueue T (frame T ?req) ca)" and ?t = "im_result m"
  let ?s = "put_parser server n (mk_response_parser ?t) (queue_message T server ca ?req sa)"
  have open_c: "open_conn sa server ca"
    using idle by (simp add: open_conn_def idle_conn_def)
  have inv: "session_invoke T E start ?t server i \<lparr>Method_Service = if_class I, Method_Name = im_name m\<rparr> args (sa, wa) =
      (Inr n, (?s, wa))"
    using session_invoke_open [where E = E and start = start and w = wa, OF T(4) open_c] by (simp add: n_def)
  have c: "?c = ca\<lparr>conn_out := True, conn_write_queue := [mk_write_task (frame T ?req)], conn_write_serial := n + 1\<rparr>"
    using T(4) idle by (simp add: conn_enqueue_registered idle_conn_def n_def)
  have conn: "ss_connections ?s server = Some ?c"
    by (simp add: queue_message_def message_bytes_frame T(1,2))
  let ?d = "?c\<lparr>conn_write_queue := [], conn_out := False\<rparr>"
  let ?sent = "?s\<lparr>ss_connections := (ss_connections ?s)(server \<mapsto> ?d)\<rparr>"
  have others: "\<forall>j. j \<noteq> server \<longrightarrow> ss_connections ?s j = ss_connections sa j" "\<forall>j. j \<noteq> server \<longrightarrow> ss_connections ?sent j = ss_connections sa j"
    by (simp_all add: queue_message_def put_parser_def)
  have one: "poll (?s, wa) = (Inr 1, (?sent, wb))"
    using sends others(1) conn idle by (simp add: c n_def idle_conn_def)
  have sent: "idle_conn T ?sent server ?d" "\<not> conn_out ?d" "conn_write_serial ?d = conn_write_serial ca + 1"
    using idle by (simp_all add: idle_conn_def c n_def)
  have wait: "get_response_parser ?sent server n = Some (mk_response_parser ?t)"
    by (simp add: get_put_parser)
  obtain s_end p where two: "caller_poll T E start server (frame T (answer_payload T n r)) (?sent, wc) = (Inr 1, (s_end, wc))"
      "get_response_parser s_end server n = Some p" "rp_finished p" "rp_extract ?t p = rethrown r"
      "s_end = put_parser server n p (?sent\<lparr>ss_connections := (ss_connections ?sent)(server \<mapsto>
        ?d\<lparr>conn_read_task := new_read_task, conn_read_serial := conn_read_serial ?d + 1\<rparr>)\<rparr>)"
    using caller_second_poll [OF T(1-3) sent(1,2) wait r len [folded n_def], of E start wc] by blast
  then have "snd (receive_bytes T E start server (frame T (answer_payload T n r)) (?sent, wc)) = (s_end, wc)"
    using sent(2) by (simp add: caller_poll_def)
  then have "poll (?sent, wb) = (Inr 1, (s_end, wc))"
    using reads others(2) sent by (simp add: n_def)
  from wait_two_rounds [OF one this _ not_finished_parser _ two(3), of server n] wait
  have "session_wait poll ?t server n (?s, wa) = Some (rp_extract ?t p, (s_end, wc))"
    by (simp add: two(2))
  moreover have "ss_connections s_end = (ss_connections sa)(server \<mapsto>
      ?d\<lparr>conn_read_task := new_read_task, conn_read_serial := conn_read_serial ca + 1\<rparr>)"
    using T(4) idle by (simp add: two(5) queue_message_def put_parser_def c)
  moreover have "ss_services s_end = ss_services sa" "ss_factories s_end = ss_factories sa" "ss_local_objects s_end = ss_local_objects sa"
    by (simp_all add: two(5) put_parser_def)
  ultimately show ?thesis
    using two(4) idle
    by (intro exI [of _ s_end] exI [of _ "?d\<lparr>conn_read_task := new_read_task, conn_read_serial := conn_read_serial ca + 1\<rparr>"])
      (simp add: proxy_call_def create_proxy_def inv idle_conn_def c)
qed

lemma caller_gets_answer_poll:
  assumes T: "le_ok T" "buf_ok T" "bson_ok T" "poll_ok T" and idle: "idle_conn T sa server ca"
    and r: "\<forall>v. r = Inr v \<longrightarrow> type_of v = im_result m"
    and len: "length (answer_payload T (conn_write_serial ca) r) < 2 ^ 32"
    and poll: "\<forall>st c. ss_connections (fst st) server = Some c \<longrightarrow> conn_write_serial c = conn_write_serial ca + 1 \<longrightarrow>
      poll st = caller_poll T E start server (frame T (answer_payload T (conn_write_serial ca) r)) st"
  defines "n \<equiv> conn_write_serial ca"
  shows "\<exists>sa_end c. proxy_call T E start poll I m
      (create_proxy server i) args (sa, wa) = Some (rethrown r, (sa_end, wa)) \<and>
    ss_connections sa_end = (ss_connections sa)(server \<mapsto> c) \<and> idle_conn T sa_end server c \<and>
    conn_write_serial c = n + 1 \<and> conn_read_serial c = conn_read_serial ca + 1 \<and>
    ss_services sa_end = ss_services sa \<and> ss_factories sa_end = ss_factories sa \<and> ss_local_objects sa_end = ss_local_objects sa"
  unfolding n_def
  by (rule caller_gets_answer_rounds [where E = E and start = start, OF T idle r len])
    (use poll caller_first_poll [OF T(1,4), where E = E and start = start and w = wa] in
      \<open>auto simp: caller_poll_def idle_conn_def\<close>)

lemma caller_gets_answer_state:
  assumes "le_ok T" and "buf_ok T" and "bson_ok T" and "poll_ok T" and "idle_conn T sa server ca"
    and "\<forall>v. r = Inr v \<longrightarrow> type_of v = im_result m"
    and "length (answer_payload T (conn_write_serial ca) r) < 2 ^ 32"
  defines "n \<equiv> conn_write_serial ca"
  shows "\<exists>sa_end c. proxy_call T E start (caller_poll T E start server (frame T (answer_payload T n r))) I m
      (create_proxy server i) args (sa, wa) = Some (rethrown r, (sa_end, wa)) \<and>
    ss_connections sa_end = (ss_connections sa)(server \<mapsto> c) \<and> idle_conn T sa_end server c \<and>
    conn_write_serial c = n + 1 \<and> conn_read_serial c = conn_read_serial ca + 1 \<and>
    ss_services sa_end = ss_services sa \<and> ss_factories sa_end = ss_factories sa \<and> ss_local_objects sa_end = ss_local_objects sa"
  unfolding n_def
  by (rule caller_gets_answer_poll [OF assms(1-7)]) simp

lemma caller_gets_answer:
  assumes "le_ok T" and "buf_ok T" and "bson_ok T" and "poll_ok T" and "idle_conn T sa server ca"
    and "\<forall>v. r = Inr v \<longrightarrow> type_of v = im_result m"
    and "length (answer_payload T (conn_write_serial ca) r) < 2 ^ 32"
  shows "\<exists>sa_end. proxy_call T E start (caller_poll T E start server (frame T (answer_payload T (conn_write_serial ca) r))) I m
      (create_proxy server i) args (sa, wa) = Some (rethrown r, (sa_end, wa))"
  using caller_gets_answer_state [OF assms, of E start I i args wa] by blast

section \<open>The first connection\<close>

lemma connected_mk [simp]: "conn_connected ((mk_connection i)\<lparr>conn_socket := Some Unconnected\<rparr>) = mk_accepted_connection i"
  by (simp add: conn_connected_def mk_accepted_connection_def mk_connection_def)

text \<open>A send that connects at the first attempt, and a call that does, go on as if the connection had been there.\<close>

lemma send_connects:
  assumes "poll_ok T" and "ss_connections s i = None" and "env_connect E (get_socket_path T (env_devel E) i) w = (None, w1)"
  shows "session_send T E start i data (s, w) =
    session_send T E start i data (s\<lparr>ss_connections := (ss_connections s)(i \<mapsto> mk_accepted_connection i)\<rparr>, w1)"
proof -
  have "map_emplace (ss_connections s) i c = (ss_connections s)(i \<mapsto> c)" for c
    using assms(2) by (simp add: map_emplace_def)
  moreover have "conn_service (mk_connection i) = i" "conn_socket (mk_connection i) = None"
      "conn_socket (mk_accepted_connection i) = Some Connected"
    by (simp_all add: mk_connection_def mk_accepted_connection_def)
  ultimately show ?thesis
    using assms
    by (simp add: session_send_def session_connect_def conn_send_def conn_open_def with_conn_lookup Let_def)
qed

lemma call_sends:
  assumes "\<And>data. session_send T E start (co_origin p) data st = session_send T E start (co_origin p) data st'"
  shows "proxy_call T E start poll I m p args st = proxy_call T E start poll I m p args st'"
  unfolding proxy_call_def session_invoke_def make_request_def assms ..

lemma call_connects:
  assumes "poll_ok T" and "ss_connections s (co_origin p) = None" and "env_connect E (get_socket_path T (env_devel E) (co_origin p)) w = (None, w1)"
  shows "proxy_call T E start poll I m p args (s, w) =
    proxy_call T E start poll I m p args
      (s\<lparr>ss_connections := (ss_connections s)(co_origin p \<mapsto> mk_accepted_connection (co_origin p))\<rparr>, w1)"
  by (rule call_sends [OF send_connects [OF assms]])

text \<open>The same when the attempt fails and the service is started: the send goes on where the start has left the session.\<close>

lemma send_starts:
  assumes "poll_ok T" and "ss_connections s i = None" and "i \<noteq> service_manager_id"
    and "env_connect E (get_socket_path T (env_devel E) i) w = (Some e, w1)"
    and "start i (s\<lparr>ss_connections := (ss_connections s)(i \<mapsto> (mk_connection i)\<lparr>conn_socket := Some Unconnected\<rparr>)\<rparr>, w1) =
      (None, (s2, w2))"
    and "ss_connections s2 i = Some ((mk_connection i)\<lparr>conn_socket := Some Unconnected\<rparr>)"
    and "env_connect E (get_socket_path T (env_devel E) i) w2 = (None, w3)"
  shows "session_send T E start i data (s, w) =
    session_send T E start i data (s2\<lparr>ss_connections := (ss_connections s2)(i \<mapsto> mk_accepted_connection i)\<rparr>, w3)"
proof -
  have "map_emplace (ss_connections s) i c = (ss_connections s)(i \<mapsto> c)" for c
    using assms(2) by (simp add: map_emplace_def)
  moreover have "conn_service (mk_connection i) = i" "conn_socket (mk_connection i) = None"
      "conn_socket (mk_accepted_connection i) = Some Connected"
    by (simp_all add: mk_connection_def mk_accepted_connection_def)
  ultimately show ?thesis
    using assms
    by (simp add: session_send_def session_connect_def conn_send_def conn_open_def with_conn_lookup Let_def)
qed

section \<open>A client and a server\<close>

text \<open>
  For the witnesses of other theories: a client and the random number service, each with a connection to the
  other; the service's object answers \<^verbatim>\<open>getInteger(max)\<close> with half of \<open>max\<close> and counts the calls.
\<close>

definition demo_random :: class_id where
  "demo_random = \<lparr>Name = ''system.RandomGenerator'', Version = 1\<rparr>"

definition demo_client_session :: "nat session" where
  "demo_client_session = empty_session\<lparr>ss_connections := [demo_random \<mapsto> mk_accepted_connection demo_random]\<rparr>"

definition demo_server_session :: "nat session" where
  "demo_server_session = empty_session\<lparr>ss_connections := [demo_peer \<mapsto> mk_accepted_connection demo_peer],
     ss_local_objects := [mk_object_id demo_random 0 \<mapsto> 5]\<rparr>"

definition demo_half :: "nat implementation" where
  "demo_half name args w =
     (case args of [VU32 k] \<Rightarrow> (Inr (VU32 (k div 2)), Suc w) | _ \<Rightarrow> (Inl (Exception ''bad arguments''), w))"

definition demo_random_env :: "(nat, nat) env" where
  "demo_random_env = \<lparr>env_connect = (\<lambda>path w. (Some (System_Exception ''connect''), w)),
     env_invoke = (\<lambda>obj m d. on_world (pbus_invoke demo_toolkit demo_half random_generator_if m d)), env_devel = True\<rparr>"

definition demo_random_start :: "(nat, nat) start_fun" where
  "demo_random_start i st = (Some (Exception ''no service manager''), st)"

lemma idle_accepted:
  "ss_connections s i = Some (mk_accepted_connection i) \<Longrightarrow> idle_conn T s i (mk_accepted_connection i)"
  by (simp add: idle_conn_def mk_accepted_connection_def mk_connection_def)

lemma length_demo_put:
  "length (demo_put_chars s) = Suc (2 * length s)" "length (tk_put_u8 demo_toolkit b) = 2"
  "length (tk_put_u32 demo_toolkit w) = 5" "length (tk_put_str demo_toolkit s) = 2 + 2 * length s"
proof -
  show chars: "length (demo_put_chars s) = Suc (2 * length s)" for s
    by (induction s) (simp_all add: demo_put_chars_def)
  show "length (tk_put_u8 demo_toolkit b) = 2" "length (tk_put_u32 demo_toolkit w) = 5"
    "length (tk_put_str demo_toolkit s) = 2 + 2 * length s"
    by (simp_all add: demo_toolkit_def demo_le_write_def chars)
qed

end
