(* ===== verification/Bus_Handling.thy ===== *)
theory Bus_Handling
  imports Session_Input Remote_Call
begin

text \<open>
  What one input event does to the session that gets it, message by message: the answers it
  queues on the connection, and what the answers it gets bring to its response parsers.
\<close>

section \<open>One message\<close>

text \<open>An answer, parsed: the serial it names and what it brings to the slot of that request.\<close>

definition parse_answer :: "toolkit \<Rightarrow> bytes \<Rightarrow> (u32 \<times> answer) option" where
  "parse_answer T m =
     (case tk_get_u8 T m of
        Inl _ \<Rightarrow> None
      | Inr (t, d) \<Rightarrow>
          (case tk_get_u32 T d of
             Inl _ \<Rightarrow> None
           | Inr (n, d1) \<Rightarrow>
               if t = response_result then Some (n, Result_Data d1)
               else if t = response_exception then
                 Some (n, Remote_Exception
                   (case bind_exn (tk_get_str T d1) (\<lambda>(exception_type, d2). tk_get_str T d2) of
                      Inr (exception_arg1, _) \<Rightarrow> Runtime_Error exception_arg1
                    | Inl e \<Rightarrow> e))
               else None))"

definition answers :: "toolkit \<Rightarrow> u32 \<Rightarrow> bytes \<Rightarrow> bool" where
  "answers T n m = (case parse_answer T m of None \<Rightarrow> False | Some (k, _) \<Rightarrow> k = n)"

definition absorb :: "toolkit \<Rightarrow> u32 \<Rightarrow> bytes \<Rightarrow> response_parser \<Rightarrow> response_parser" where
  "absorb T n m p =
     (case parse_answer T m of
        None \<Rightarrow> p
      | Some (k, a) \<Rightarrow> if k = n then deliver (rp_parse T) rp_set_exception a p else p)"

lemma answers_is_answer: "answers T n m \<Longrightarrow> is_answer T m"
  by (auto simp: answers_def parse_answer_def is_answer_def split: sum.splits if_splits)

lemma absorb_other: "\<not> answers T n m \<Longrightarrow> absorb T n m p = p"
  by (auto simp: answers_def absorb_def split: option.splits)

lemma answers_unique: "answers T n m \<Longrightarrow> answers T k m \<Longrightarrow> n = k"
  by (auto simp: answers_def split: option.splits)

lemma absorb_finished: "answers T n m \<Longrightarrow> rp_finished (absorb T n m p)"
  by (auto simp: answers_def absorb_def any_slot.deliver_finished simp del: deliver.simps split: option.splits)

lemma answers_result [simp]: "bson_ok T \<Longrightarrow> answers T n (result_payload T k out) \<longleftrightarrow> k = n"
  by (simp add: answers_def parse_answer_def result_payload_def)

lemma answers_exception [simp]: "bson_ok T \<Longrightarrow> answers T n (exception_payload T k msg) \<longleftrightarrow> k = n"
  by (simp add: answers_def parse_answer_def exception_payload_def)

lemma not_answer_request [simp]:
  "bson_ok T \<Longrightarrow> \<not> is_answer T (invoke_payload T i m args)"
  "bson_ok T \<Longrightarrow> \<not> is_answer T (serialize T (VU8 request_release # vs))"
  by (simp_all add: is_answer_def invoke_payload_def)

lemma answer_absorbed:
  assumes "is_answer T m"
  shows "\<exists>s'. on_incoming_data T E start i k m (s, w) = (s', w) \<and> ss_connections s' = ss_connections s \<and>
    (\<forall>n. get_response_parser s' i n = map_option (absorb T n m) (get_response_parser s i n))"
proof -
  obtain t d where m: "tk_get_u8 T m = Inr (t, d)" and t: "t = response_result \<or> t = response_exception"
    using assms by (auto simp: is_answer_def split: sum.splits)
  have put: "ss_connections (put_parser i k p s) = ss_connections s" for k p
    by (simp add: put_parser_def)
  show ?thesis
  proof (cases "tk_get_u32 T d")
    case (Inl e)
    then have "absorb T n m = (\<lambda>p. p)" for n
      using m by (simp add: fun_eq_iff absorb_def parse_answer_def)
    with Inl m t show ?thesis
      by (auto simp: on_incoming_data_def on_incoming_result_def on_incoming_exception_def option.map_ident)
  next
    case (Inr r)
    obtain j d1 where r: "r = (j, d1)" by (cases r)
    obtain a where a: "parse_answer T m = Some (j, a)"
      and h: "fst (on_incoming_data T E start i k m (s, w)) =
        (case get_response_parser s i j of None \<Rightarrow> s
         | Some p \<Rightarrow> put_parser i j (deliver (rp_parse T) rp_set_exception a p) s)"
      and w: "snd (on_incoming_data T E start i k m (s, w)) = w"
      using t m Inr r
      by (auto simp: parse_answer_def on_incoming_data_def on_incoming_result_def on_incoming_exception_def Let_def
          simp del: deliver.simps split: option.split)
    have "absorb T n m = (if n = j then deliver (rp_parse T) rp_set_exception a else (\<lambda>p. p))" for n
      by (simp add: fun_eq_iff absorb_def a del: deliver.simps)
    then have "get_response_parser (fst (on_incoming_data T E start i k m (s, w))) i n =
        map_option (absorb T n m) (get_response_parser s i n)" for n
      by (auto simp: h get_put_parser option.map_ident simp del: deliver.simps split: option.split)
    then show ?thesis
      using w put by (intro exI [of _ "fst (on_incoming_data T E start i k m (s, w))"])
        (auto simp: h prod_eq_iff split: option.split)
  qed
qed

section \<open>A run of the input loop\<close>

text \<open>
  What a process did with one message: its serial, its payload and the payloads queued on the
  connection meanwhile, read off the connection's queue.
\<close>

record handling =
  h_serial :: u32
  h_message :: bytes
  h_replies :: "bytes list"

definition queued_since :: "connection \<Rightarrow> connection \<Rightarrow> bytes list" where
  "queued_since c c' = map (\<lambda>t. drop 4 (wt_data t)) (drop (length (conn_write_queue c)) (conn_write_queue c'))"

definition sent_since :: "service_id \<Rightarrow> 'o session \<Rightarrow> 'o session \<Rightarrow> bytes list" where
  "sent_since i s s' =
     (case ss_connections s i of
        None \<Rightarrow> []
      | Some c \<Rightarrow> (case ss_connections s' i of None \<Rightarrow> [] | Some c' \<Rightarrow> queued_since c c'))"

definition watch :: "('o, handling) observer" where
  "watch i n m s s' = \<lparr>h_serial = n, h_message = m, h_replies = sent_since i s s'\<rparr>"

text \<open>The sending half of a connection, and the frames of a list of payloads queued on it.\<close>

definition sending :: "connection \<Rightarrow> connection" where
  "sending c = c\<lparr>conn_read_task := new_read_task, conn_read_serial := 0\<rparr>"

definition enqueue_all :: "toolkit \<Rightarrow> bytes list \<Rightarrow> connection \<Rightarrow> connection" where
  "enqueue_all T bs c = fold (\<lambda>b c. snd (conn_enqueue T (frame T b) c)) bs c"

definition handling_ok :: "toolkit \<Rightarrow> handling \<Rightarrow> bool" where
  "handling_ok T h \<longleftrightarrow>
     (if is_answer T (h_message h) then h_replies h = []
      else \<exists>b. h_replies h = [b] \<and> answers T (h_serial h) b)"

definition replies :: "handling list \<Rightarrow> bytes list" where
  "replies l = concat (map h_replies l)"

definition advances :: "toolkit \<Rightarrow> service_id \<Rightarrow> 'o session \<Rightarrow> handling list \<Rightarrow> 'o session \<Rightarrow> bool" where
  "advances T i s l s' \<longleftrightarrow>
     (\<forall>c. open_conn s i c \<and> conn_service c = i \<longrightarrow>
        (\<exists>c'. open_conn s' i c' \<and> conn_service c' = i \<and> sending c' = enqueue_all T (replies l) (sending c)) \<and>
        (\<forall>n. get_response_parser s' i n =
           map_option (fold (absorb T n) (map h_message l)) (get_response_parser s i n)) \<and>
        list_all (handling_ok T) l)"

lemma replies_simps [simp]:
  "replies [] = []" "replies (h # l) = h_replies h @ replies l" "replies (l @ l') = replies l @ replies l'"
  by (simp_all add: replies_def)

lemma enqueue_all_simps [simp]:
  "enqueue_all T [] c = c"
  "enqueue_all T (b # bs) c = enqueue_all T bs (snd (conn_enqueue T (frame T b) c))"
  "enqueue_all T (bs @ bs') c = enqueue_all T bs' (enqueue_all T bs c)"
  by (simp_all add: enqueue_all_def)

lemma sending_enqueue: "sending (snd (conn_enqueue T d c)) = snd (conn_enqueue T d (sending c))"
  by (simp add: conn_enqueue_def enable_write_def conn_push_def sending_def split: option.split)

lemma sending_fields [simp]:
  "conn_registered (sending c) = conn_registered c" "conn_write_serial (sending c) = conn_write_serial c"
  "conn_write_queue (sending c) = conn_write_queue c" "conn_out (sending c) = conn_out c"
  "conn_socket (sending c) = conn_socket c" "conn_service (sending c) = conn_service c"
  "sending (c\<lparr>conn_read_task := t\<rparr>) = sending c" "sending (c\<lparr>conn_read_serial := n\<rparr>) = sending c"
  by (simp_all add: sending_def)

lemma advances_refl: "advances T i s [] s"
  by (auto simp: advances_def option.map_id)

lemma advances_trans:
  assumes "advances T i s l s'" and "advances T i s' l' s''"
  shows "advances T i s (l @ l') s''"
  unfolding advances_def
proof (intro allI impI)
  fix c assume "open_conn s i c \<and> conn_service c = i"
  with assms(1) obtain c' where c': "open_conn s' i c'" "conn_service c' = i"
      "sending c' = enqueue_all T (replies l) (sending c)"
    and p: "\<And>n. get_response_parser s' i n = map_option (fold (absorb T n) (map h_message l)) (get_response_parser s i n)"
    and ok: "list_all (handling_ok T) l"
    unfolding advances_def by blast
  from assms(2) c'(1,2) obtain c'' where c'': "open_conn s'' i c''" "conn_service c'' = i"
      "sending c'' = enqueue_all T (replies l') (sending c')"
    and p': "\<And>n. get_response_parser s'' i n = map_option (fold (absorb T n) (map h_message l')) (get_response_parser s' i n)"
    and ok': "list_all (handling_ok T) l'"
    unfolding advances_def by blast
  show "(\<exists>c'. open_conn s'' i c' \<and> conn_service c' = i \<and> sending c' = enqueue_all T (replies (l @ l')) (sending c)) \<and>
    (\<forall>n. get_response_parser s'' i n =
       map_option (fold (absorb T n) (map h_message (l @ l'))) (get_response_parser s i n)) \<and>
    list_all (handling_ok T) (l @ l')"
    using c' c'' ok ok' by (auto simp: p p' option.map_comp comp_def)
qed

lemma on_conn_world [simp]: "snd (on_conn i f st) = snd st"
  by (simp add: on_conn_def)

lemma advances_conn:
  assumes "\<And>c. conn_socket (f c) = conn_socket c \<and> conn_registered (f c) = conn_registered c \<and>
    conn_service (f c) = conn_service c \<and> sending (f c) = sending c"
  shows "advances T i (fst st) [] (fst (on_conn i f st))"
  using assms
  by (auto simp: advances_def open_conn_def option.map_id get_response_parser_def on_conn_def with_conn_def)

lemma advances_task: "advances T i (fst st) [] (fst (on_conn i (\<lambda>c. c\<lparr>conn_read_task := t\<rparr>) st))"
  by (rule advances_conn) simp

lemma queued_since_enqueue:
  "poll_ok T \<Longrightarrow> le_ok T \<Longrightarrow> conn_registered c \<Longrightarrow> queued_since c (snd (conn_enqueue T (frame T b) c)) = [b]"
  by (simp add: queued_since_def conn_enqueue_registered mk_write_task_def frame_def)

lemma queued_since_same [simp]: "queued_since c c = []"
  by (simp add: queued_since_def)

lemma advances_message:
  assumes T: "le_ok T" "buf_ok T" "bson_ok T" "poll_ok T" and E: "spares i E"
    and r: "on_incoming_data T E start i n m (s, w) = (s', w')"
  shows "advances T i s [watch i n m s s'] s'"
  unfolding advances_def
proof (intro allI impI)
  fix c assume c: "open_conn s i c \<and> conn_service c = i"
  then have reg: "conn_registered c" and look: "ss_connections s i = Some c"
    by (simp_all add: open_conn_def)
  show "(\<exists>c'. open_conn s' i c' \<and> conn_service c' = i \<and>
      sending c' = enqueue_all T (replies [watch i n m s s']) (sending c)) \<and>
    (\<forall>k. get_response_parser s' i k =
       map_option (fold (absorb T k) (map h_message [watch i n m s s'])) (get_response_parser s i k)) \<and>
    list_all (handling_ok T) [watch i n m s s']"
  proof (cases "is_answer T m")
    case True
    from answer_absorbed [where E = E and start = start and k = n and w = w and s = s and i = i, OF this] r c look show ?thesis
      by (auto simp: watch_def sent_since_def handling_ok_def True open_conn_def)
  next
    case False
    let ?f = "\<lambda>b. snd (conn_enqueue T (frame T b) c)"
    from request_handled [OF T(4) conjunct1 [OF c] E False, of n start w] obtain b where
      q: "answer_queued T E i c n s s' b"
      unfolding r fst_conv by blast
    then have b: "ss_connections s' i = Some (?f b)" "ss_requests s' i = ss_requests s i" and a: "answers T n b"
      using T unfolding answer_queued_def by (auto simp: message_bytes_frame)
    have "absorb T k m = (\<lambda>p. p)" for k
      using False answers_is_answer by (auto simp: fun_eq_iff intro: absorb_other)
    moreover have "h_replies (watch i n m s s') = [b]"
      using T reg by (simp add: watch_def sent_since_def look b queued_since_enqueue)
    moreover have "get_response_parser s' i k = get_response_parser s i k" for k
      by (simp add: get_response_parser_def b)
    moreover have "open_conn s' i (?f b)" "conn_service (?f b) = i"
      using c T by (auto simp: open_conn_def b conn_enqueue_registered)
    ultimately show ?thesis
      using False a by (auto simp: handling_ok_def sending_enqueue option.map_ident watch_def)
  qed
qed

lemma input_message_advances:
  assumes T: "le_ok T" "buf_ok T" "bson_ok T" "poll_ok T" and E: "spares i E" and c: "conn_service c = i"
  shows "\<exists>l. snd (snd (input_message (observed watch (on_incoming_data T E start)) i c m st)) = snd (snd st) @ l \<and>
    advances T i (fst st) l (fst (input_message (observed watch (on_incoming_data T E start)) i c m st))"
proof -
  let ?h = "on_incoming_data T E start" and ?n = "conn_read_serial c"
  let ?st1 = "on_conn i (\<lambda>c. c\<lparr>conn_read_serial := ?n + 1\<rparr>) st"
  obtain s' w' where r: "?h i ?n m (fst ?st1, fst (snd ?st1)) = (s', w')"
    by (cases "?h i ?n m (fst ?st1, fst (snd ?st1))")
  let ?l = "[watch i ?n m (fst ?st1) s']"
  let ?st2 = "(s', (w', snd (snd st) @ ?l))"
  have e: "input_message (observed watch ?h) i c m st = on_conn i (\<lambda>c. c\<lparr>conn_read_task := new_read_task\<rparr>) ?st2"
    using r by (simp add: input_message_def observed_def c Let_def)
  have "advances T i (fst st) [] (fst ?st1)"
    by (rule advances_conn) simp
  moreover have "advances T i (fst ?st1) ?l (fst ?st2)"
    using advances_message [OF T E r] by simp
  moreover have "advances T i (fst ?st2) [] (fst (on_conn i (\<lambda>c. c\<lparr>conn_read_task := new_read_task\<rparr>) ?st2))"
    by (rule advances_conn) simp
  ultimately have "advances T i (fst st) ([] @ ?l @ []) (fst (on_conn i (\<lambda>c. c\<lparr>conn_read_task := new_read_task\<rparr>) ?st2))"
    by (intro advances_trans)
  then show ?thesis
    by (intro exI [of _ ?l]) (simp add: e)
qed

lemma input_loop_advances:
  assumes T: "le_ok T" "buf_ok T" "bson_ok T" "poll_ok T" and E: "spares i E"
  shows "\<exists>l. snd (snd (input_loop T (observed watch (on_incoming_data T E start)) i d st)) = snd (snd st) @ l \<and>
    advances T i (fst st) l (fst (input_loop T (observed watch (on_incoming_data T E start)) i d st))"
proof -
  let ?h = "observed watch (on_incoming_data T E start)"
  let ?Q = "\<lambda>d st r. \<exists>l. snd (snd r) = snd (snd st) @ l \<and> advances T i (fst st) l (fst r)"
  show ?thesis
  proof (rule input_loop_induct [where Q = ?Q], goal_cases)
    case (1 d st)
    then show ?case using advances_refl by auto
  next
    case (2 d st c n t r)
    then obtain l where l: "snd (snd r) = snd (snd st) @ l"
        "advances T i (fst (on_conn i (\<lambda>c. c\<lparr>conn_read_task := t\<rparr>) st)) l (fst r)"
      by auto
    from advances_trans [OF advances_task l(2)] l(1) show ?case by auto
  next
    case (3 d st c n t r)
    let ?st1 = "on_conn i (\<lambda>c. c\<lparr>conn_read_task := t\<rparr>) st"
    show ?case
    proof (cases "conn_service c = i")
      case True
      obtain l where l: "snd (snd (input_message ?h i c (rt_data t) ?st1)) = snd (snd st) @ l"
          "advances T i (fst ?st1) l (fst (input_message ?h i c (rt_data t) ?st1))"
        using input_message_advances [OF T E True, of start "rt_data t" ?st1] by auto
      from 3 l(1) obtain l' where l': "snd (snd r) = snd (snd st) @ l @ l'"
          "advances T i (fst (input_message ?h i c (rt_data t) ?st1)) l' (fst r)"
        by auto
      from advances_trans [OF advances_task advances_trans [OF l(2) l'(2)]] l'(1) show ?thesis by auto
    next
      case False
      with 3(1) have "advances T i (fst st) l (fst r)" for l
        by (auto simp: advances_def open_conn_def)
      moreover obtain l where "snd (snd r) = snd (snd st) @ l"
        using 3(5) by (auto simp: input_message_def observed_def Let_def split: prod.splits)
      ultimately show ?thesis by blast
    qed
  qed
qed

end
