(* ===== verification/Bus_System.thy ===== *)
theory Bus_System
  imports Bus_Handling
begin

text \<open>
  Two processes and the connection between them: both sessions with their tables, their
  connections to each other and the two directions of the socket. Either process may call the
  other. The pair is shown to implement two independent links of \<open>Bus_Link\<close>, and to keep an
  invariant that says which messages answer which calls.
\<close>

section \<open>The two processes\<close>

datatype side = Left_End | Right_End

primrec other :: "side \<Rightarrow> side" where
  "other Left_End = Right_End"
| "other Right_End = Left_End"

lemma other_simps [simp]: "other (other x) = x" "other x \<noteq> x" "x \<noteq> other x"
  by (cases x; simp)+

lemma side_cases: "y = x \<or> y = other x"
  by (cases x; cases y) simp_all

text \<open>
  Each process has its environment, and a name under which the connection to the other one is
  filed. \<open>bs_wire x\<close> are the bytes that \<open>x\<close> has written and the other has not read;
  \<open>bs_sent\<close>, \<open>bs_calls\<close> and \<open>bs_handled\<close> are observations: the payloads that a process has
  queued, the serials and result types of its calls, the messages it has handled.
\<close>

record ('o, 'w) bus_config =
  bc_peer :: "side \<Rightarrow> service_id"
  bc_env :: "side \<Rightarrow> ('o, 'w) env"
  bc_start :: "side \<Rightarrow> ('o, 'w) start_fun"

text \<open>The implementations of neither process use the connection between the two.\<close>

definition isolated :: "('o, 'w) bus_config \<Rightarrow> bool" where
  "isolated G \<longleftrightarrow> (\<forall>x. spares (bc_peer G x) (bc_env G x))"

record ('o, 'w) bus_system =
  bs_state :: "side \<Rightarrow> ('o, 'w) state"
  bs_wire :: "side \<Rightarrow> bytes"
  bs_sent :: "side \<Rightarrow> bytes list"
  bs_calls :: "side \<Rightarrow> (u32 \<times> wire_type) list"
  bs_handled :: "side \<Rightarrow> handling list"

definition short :: "bytes list \<Rightarrow> bool" where
  "short bs \<longleftrightarrow> list_all (\<lambda>b. length b < 2 ^ 32) bs"

definition watched_input ::
  "toolkit \<Rightarrow> ('o, 'w) env \<Rightarrow> ('o, 'w) start_fun \<Rightarrow> service_id \<Rightarrow> bytes \<Rightarrow> ('o, 'w) state \<Rightarrow> handling list \<Rightarrow> handling list" where
  "watched_input T E start i chunk st l =
     snd (snd (input_loop T (observed watch (on_incoming_data T E start)) i chunk (fst st, (snd st, l))))"

text \<open>
  Beside the events of the connection between the two, a process may do anything at all that leaves
  this connection and the requests made over it alone: serve other clients, call other services,
  start services, fail (\<open>bus_elsewhere\<close>).
\<close>

inductive bus_step ::
  "toolkit \<Rightarrow> ('o, 'w) bus_config \<Rightarrow> ('o, 'w) bus_system \<Rightarrow> ('o, 'w) bus_system \<Rightarrow> bool" for T G where
  bus_invoke: "session_invoke T (bc_env G x) (bc_start G x) t (bc_peer G x) i m args (bs_state B x) = (Inr n, st) \<Longrightarrow>
    new = sent_since (bc_peer G x) (fst (bs_state B x)) (fst st) \<Longrightarrow> short new \<Longrightarrow>
    bus_step T G B (B\<lparr>bs_state := (bs_state B)(x := st), bs_sent := (bs_sent B)(x := bs_sent B x @ new),
      bs_calls := (bs_calls B)(x := bs_calls B x @ [(n, t)])\<rparr>)"
| bus_release: "session_release T (bc_env G x) (bc_start G x) (bc_peer G x) i (bs_state B x) = st \<Longrightarrow>
    new = sent_since (bc_peer G x) (fst (bs_state B x)) (fst st) \<Longrightarrow> short new \<Longrightarrow>
    bus_step T G B (B\<lparr>bs_state := (bs_state B)(x := st), bs_sent := (bs_sent B)(x := bs_sent B x @ new)\<rparr>)"
| bus_output: "ss_connections (fst (bs_state B x)) (bc_peer G x) = Some c \<Longrightarrow> conn_out c \<Longrightarrow>
    \<forall>b r. w b = Inr r \<longrightarrow> r \<le> length b \<Longrightarrow> conn_output T w c = (None, c', out) \<Longrightarrow>
    handle_socket_event T (bc_env G x) (bc_start G x) (bc_peer G x) output_event w rd (bs_state B x) = (None, st) \<Longrightarrow>
    bus_step T G B (B\<lparr>bs_state := (bs_state B)(x := st), bs_wire := (bs_wire B)(x := bs_wire B x @ out)\<rparr>)"
| bus_input: "bs_wire B (other x) = chunk @ rest \<Longrightarrow> chunk \<noteq> [] \<Longrightarrow>
    receive_bytes T (bc_env G x) (bc_start G x) (bc_peer G x) chunk (bs_state B x) = (None, st) \<Longrightarrow>
    watched_input T (bc_env G x) (bc_start G x) (bc_peer G x) chunk (bs_state B x) (bs_handled B x) = bs_handled B x @ l \<Longrightarrow>
    short (replies l) \<Longrightarrow>
    bus_step T G B (B\<lparr>bs_state := (bs_state B)(x := st), bs_wire := (bs_wire B)(other x := rest),
      bs_sent := (bs_sent B)(x := bs_sent B x @ replies l),
      bs_handled := (bs_handled B)(x := bs_handled B x @ l)\<rparr>)"
| bus_elsewhere: "same_at (bc_peer G x) (fst (bs_state B x)) (fst st) \<Longrightarrow>
    bus_step T G B (B\<lparr>bs_state := (bs_state B)(x := st)\<rparr>)"

text \<open>Two processes that have just connected: nothing sent, nothing pending for the peer.\<close>

definition connected :: "('o, 'w) bus_config \<Rightarrow> (side \<Rightarrow> ('o, 'w) state) \<Rightarrow> bool" where
  "connected G st \<longleftrightarrow>
     (\<forall>x. ss_connections (fst (st x)) (bc_peer G x) = Some (mk_accepted_connection (bc_peer G x)) \<and>
          ss_requests (fst (st x)) (bc_peer G x) = None)"

definition init_system :: "(side \<Rightarrow> ('o, 'w) state) \<Rightarrow> ('o, 'w) bus_system" where
  "init_system st =
     \<lparr>bs_state = st, bs_wire = (\<lambda>_. []), bs_sent = (\<lambda>_. []), bs_calls = (\<lambda>_. []), bs_handled = (\<lambda>_. [])\<rparr>"

section \<open>Two links\<close>

definition end_conn :: "('o, 'w) bus_config \<Rightarrow> ('o, 'w) bus_system \<Rightarrow> side \<Rightarrow> connection" where
  "end_conn G B x = the (ss_connections (fst (bs_state B x)) (bc_peer G x))"

definition end_open :: "('o, 'w) bus_config \<Rightarrow> ('o, 'w) bus_system \<Rightarrow> side \<Rightarrow> bool" where
  "end_open G B x \<longleftrightarrow>
     open_conn (fst (bs_state B x)) (bc_peer G x) (end_conn G B x) \<and> conn_service (end_conn G B x) = bc_peer G x"

text \<open>The direction from \<open>x\<close> to the other side, as a link.\<close>

definition link_of :: "('o, 'w) bus_config \<Rightarrow> ('o, 'w) bus_system \<Rightarrow> side \<Rightarrow> link" where
  "link_of G B x =
     \<lparr>lk_tx = sending (end_conn G B x), lk_wire = bs_wire B x,
      lk_rx = conn_read_task (end_conn G B (other x)), lk_rx_serial = conn_read_serial (end_conn G B (other x)),
      lk_sent = numbered (bs_sent B x),
      lk_got = map (\<lambda>h. (h_serial h, h_message h)) (bs_handled B (other x))\<rparr>"

lemma link_sends:
  assumes "poll_ok T"
  shows "short bs \<Longrightarrow> conn_registered (lk_tx l) \<Longrightarrow> conn_write_serial (lk_tx l) = word_of_nat (length ps) \<Longrightarrow>
    lk_sent l = numbered ps \<Longrightarrow>
    (link_step T)\<^sup>*\<^sup>* l (l\<lparr>lk_tx := enqueue_all T bs (lk_tx l), lk_sent := numbered (ps @ bs)\<rparr>)"
proof (induction bs arbitrary: l ps)
  case Nil
  then have "l\<lparr>lk_tx := enqueue_all T [] (lk_tx l), lk_sent := numbered (ps @ [])\<rparr> = l" by simp
  then show ?case by simp
next
  case (Cons b bs)
  let ?l = "l\<lparr>lk_tx := snd (conn_enqueue T (frame T b) (lk_tx l)), lk_sent := lk_sent l @ [(word_of_nat (length ps), b)]\<rparr>"
  have "link_step T l ?l"
    using Cons.prems assms by (intro link_send) (simp_all add: short_def conn_enqueue_registered)
  moreover have "(link_step T)\<^sup>*\<^sup>* ?l (?l\<lparr>lk_tx := enqueue_all T bs (lk_tx ?l), lk_sent := numbered ((ps @ [b]) @ bs)\<rparr>)"
    using Cons.prems assms
    by (intro Cons.IH) (simp_all add: short_def conn_enqueue_registered numbered_snoc)
  ultimately show ?case
    by (auto intro: converse_rtranclp_into_rtranclp)
qed

lemma link_serial:
  assumes "link_inv T (link_of G B x)"
  shows "conn_write_serial (end_conn G B x) = word_of_nat (length (bs_sent B x))"
proof -
  from assms obtain ps where "conn_write_serial (lk_tx (link_of G B x)) = word_of_nat (length ps)"
      "lk_sent (link_of G B x) = numbered ps"
    unfolding link_inv_def by blast
  then have "conn_write_serial (end_conn G B x) = word_of_nat (length ps)" "numbered (bs_sent B x) = numbered ps"
    by (simp_all add: link_of_def)
  then show ?thesis by (metis length_numbered)
qed

lemma end_update:
  assumes "bs_state B' = (bs_state B)(x := st)" and "open_conn (fst st) (bc_peer G x) c" and "conn_service c = bc_peer G x"
    and "end_open G B (other x)"
  shows "end_conn G B' x = c" "end_conn G B' (other x) = end_conn G B (other x)" "\<forall>y. end_open G B' y"
proof -
  show c: "end_conn G B' x = c" and o: "end_conn G B' (other x) = end_conn G B (other x)"
    using assms(1,2) by (simp_all add: end_conn_def open_conn_def)
  show "\<forall>y. end_open G B' y"
  proof
    fix y
    from side_cases [of y x] show "end_open G B' y"
      using assms c o by (auto simp: end_open_def)
  qed
qed

lemma enqueue_links:
  assumes T: "poll_ok T" and ends: "\<forall>x. end_open G B x" and inv: "\<forall>x. link_inv T (link_of G B x)"
    and B': "bs_state B' = (bs_state B)(x := st)" "bs_wire B' = bs_wire B" "bs_handled B' = bs_handled B"
      "bs_sent B' = (bs_sent B)(x := bs_sent B x @ bs)"
    and c: "open_conn (fst st) (bc_peer G x) c" "conn_service c = bc_peer G x"
      "sending c = enqueue_all T bs (sending (end_conn G B x))"
      "conn_read_task c = conn_read_task (end_conn G B x)" "conn_read_serial c = conn_read_serial (end_conn G B x)"
    and bs: "short bs"
  shows "(\<forall>y. end_open G B' y) \<and> (\<forall>y. (link_step T)\<^sup>*\<^sup>* (link_of G B y) (link_of G B' y))"
proof -
  note e = end_update [OF B'(1) c(1,2) ends [rule_format, of "other x"]]
  let ?l = "link_of G B x"
  have "(link_step T)\<^sup>*\<^sup>* ?l (?l\<lparr>lk_tx := enqueue_all T bs (lk_tx ?l), lk_sent := numbered (bs_sent B x @ bs)\<rparr>)"
    using ends [rule_format, of x] link_serial [OF inv [rule_format, of x]]
    by (intro link_sends [OF T bs]) (simp_all add: link_of_def end_open_def open_conn_def)
  moreover have "link_of G B' x = ?l\<lparr>lk_tx := enqueue_all T bs (lk_tx ?l), lk_sent := numbered (bs_sent B x @ bs)\<rparr>"
    by (simp add: link_of_def e c B')
  moreover have "link_of G B' (other x) = link_of G B (other x)"
    by (simp add: link_of_def e c B')
  ultimately have "(link_step T)\<^sup>*\<^sup>* (link_of G B y) (link_of G B' y)" for y
    using side_cases [of y x] by auto
  with e show ?thesis by blast
qed

lemma watched_input_advances:
  assumes T: "le_ok T" "buf_ok T" "bson_ok T" "poll_ok T" and E: "spares i E"
    and c: "open_conn (fst st) i c" "conn_service c = i" and d: "chunk \<noteq> []"
    and r: "receive_bytes T E start i chunk st = (None, st')" and w: "watched_input T E start i chunk st l0 = l0 @ l"
  shows "advances T i (fst st) l (fst st')"
    and "\<exists>c' t n. open_conn (fst st') i c' \<and> conn_service c' = i \<and> conn_read_task c' = t \<and> conn_read_serial c' = n \<and>
      read_loop T log_frame (conn_read_task c) (conn_read_serial c) (map (\<lambda>h. (h_serial h, h_message h)) l0) chunk =
        (t, n, map (\<lambda>h. (h_serial h, h_message h)) (l0 @ l))"
proof -
  let ?h = "on_incoming_data T E start" and ?f = "\<lambda>h. (h_serial h, h_message h)"
  let ?run = "input_loop T (observed watch ?h) i chunk (fst st, (snd st, l0))"
  have st': "fst ?run = fst st'"
    using r c(1) d arg_cong [OF forget_input_loop [of T watch ?h i chunk "(fst st, (snd st, l0))"], of fst]
    by (auto simp: receive_bytes_loop open_conn_def forget_log_def)
  from input_loop_advances [OF T E, of start chunk "(fst st, (snd st, l0))"] w
  show "advances T i (fst st) l (fst st')"
    by (auto simp: watched_input_def st')
  have log: "map_log ?f ?run = input_loop T (logged ?h) i chunk (fst st, (snd st, map ?f l0))"
    by (simp add: map_log_input_loop watch_def) (simp add: map_log_def)
  obtain t n g where g: "read_loop T log_frame (conn_read_task c) (conn_read_serial c) (map ?f l0) chunk = (t, n, g)"
    by (cases "read_loop T log_frame (conn_read_task c) (conn_read_serial c) (map ?f l0) chunk")
  have "reading (fst st, (snd st, map ?f l0)) i (conn_read_task c) (conn_read_serial c)"
    using c by (auto simp: reading_def)
  from input_loop_reads [OF T(4) E this _ g, of start, folded log] w
  have "reading (map_log ?f ?run) i t n" "g = map ?f (l0 @ l)"
    by (auto simp: map_log_def watched_input_def)
  with g show "\<exists>c' t n. open_conn (fst st') i c' \<and> conn_service c' = i \<and> conn_read_task c' = t \<and> conn_read_serial c' = n \<and>
      read_loop T log_frame (conn_read_task c) (conn_read_serial c) (map ?f l0) chunk = (t, n, map ?f (l0 @ l))"
    by (auto simp: reading_def map_log_def st')
qed

lemma input_links:
  assumes T: "le_ok T" "buf_ok T" "bson_ok T" "poll_ok T" and G: "isolated G"
    and ends: "\<forall>x. end_open G B x" and inv: "\<forall>x. link_inv T (link_of G B x)"
    and wire: "bs_wire B (other x) = chunk @ rest" "chunk \<noteq> []"
    and r: "receive_bytes T (bc_env G x) (bc_start G x) (bc_peer G x) chunk (bs_state B x) = (None, st)"
    and w: "watched_input T (bc_env G x) (bc_start G x) (bc_peer G x) chunk (bs_state B x) (bs_handled B x) =
      bs_handled B x @ l"
    and bs: "short (replies l)"
  defines "B' \<equiv> B\<lparr>bs_state := (bs_state B)(x := st), bs_wire := (bs_wire B)(other x := rest),
      bs_sent := (bs_sent B)(x := bs_sent B x @ replies l),
      bs_handled := (bs_handled B)(x := bs_handled B x @ l)\<rparr>"
  shows "(\<forall>y. end_open G B' y) \<and> (\<forall>y. (link_step T)\<^sup>*\<^sup>* (link_of G B y) (link_of G B' y))"
proof -
  let ?c = "end_conn G B x" and ?f = "\<lambda>h. (h_serial h, h_message h)"
  have c: "open_conn (fst (bs_state B x)) (bc_peer G x) ?c" "conn_service ?c = bc_peer G x"
    using ends by (auto simp: end_open_def)
  have E: "spares (bc_peer G x) (bc_env G x)"
    using G by (simp add: isolated_def)
  note adv = watched_input_advances [OF T E c wire(2) r w]
  from adv(1) c obtain c' where c': "open_conn (fst st) (bc_peer G x) c'" "conn_service c' = bc_peer G x"
      "sending c' = enqueue_all T (replies l) (sending ?c)"
    unfolding advances_def by blast
  from adv(2) c'(1) have rd: "read_loop T log_frame (conn_read_task ?c) (conn_read_serial ?c) (map ?f (bs_handled B x)) chunk =
      (conn_read_task c', conn_read_serial c', map ?f (bs_handled B x @ l))"
    by (auto simp: open_conn_def)
  have state: "bs_state B' = (bs_state B)(x := st)" by (simp add: B'_def)
  note e = end_update [OF state c'(1,2) ends [rule_format, of "other x"]]
  let ?l = "link_of G B x" and ?m = "link_of G B (other x)"
  have "(link_step T)\<^sup>*\<^sup>* ?l (?l\<lparr>lk_tx := enqueue_all T (replies l) (lk_tx ?l), lk_sent := numbered (bs_sent B x @ replies l)\<rparr>)"
    using c link_serial [OF inv [rule_format, of x]]
    by (intro link_sends [OF T(4) bs]) (simp_all add: link_of_def open_conn_def)
  moreover have "link_of G B' x = ?l\<lparr>lk_tx := enqueue_all T (replies l) (lk_tx ?l), lk_sent := numbered (bs_sent B x @ replies l)\<rparr>"
    by (simp add: link_of_def e c') (simp add: B'_def)
  moreover have "link_step T ?m (link_of G B' (other x))"
  proof -
    have "link_step T ?m (?m\<lparr>lk_rx := conn_read_task c', lk_rx_serial := conn_read_serial c',
        lk_got := map ?f (bs_handled B x @ l), lk_wire := rest\<rparr>)"
      by (rule link_input [OF _ wire(2)]) (simp_all add: link_of_def wire(1) rd del: map_append)
    moreover have "link_of G B' (other x) = ?m\<lparr>lk_rx := conn_read_task c', lk_rx_serial := conn_read_serial c',
        lk_got := map ?f (bs_handled B x @ l), lk_wire := rest\<rparr>"
      by (simp add: link_of_def e) (simp add: B'_def)
    ultimately show ?thesis by simp
  qed
  ultimately have "(link_step T)\<^sup>*\<^sup>* (link_of G B y) (link_of G B' y)" for y
    using side_cases [of y x] by auto
  with e show ?thesis by blast
qed

lemma queued_sent:
  assumes T: "le_ok T" "poll_ok T" and c: "open_conn s i c"
    and s': "ss_connections s' = (ss_connections s)(i \<mapsto> snd (conn_enqueue T (frame T b) c))"
  shows "sent_since i s s' = [b]" and "open_conn s' i (snd (conn_enqueue T (frame T b) c))"
    and "sending (snd (conn_enqueue T (frame T b) c)) = enqueue_all T [b] (sending c)"
    and "conn_read_task (snd (conn_enqueue T (frame T b) c)) = conn_read_task c"
    and "conn_read_serial (snd (conn_enqueue T (frame T b) c)) = conn_read_serial c"
    and "conn_service (snd (conn_enqueue T (frame T b) c)) = conn_service c"
  using c T queued_since_enqueue [of T c b]
  by (auto simp: sent_since_def s' open_conn_def conn_enqueue_registered sending_def)

lemma queued_links:
  assumes T: "le_ok T" "poll_ok T" and ends: "\<forall>x. end_open G B x" and inv: "\<forall>x. link_inv T (link_of G B x)"
    and B': "bs_state B' = (bs_state B)(x := st)" "bs_wire B' = bs_wire B" "bs_handled B' = bs_handled B"
      "bs_sent B' = (bs_sent B)(x := bs_sent B x @ sent_since (bc_peer G x) (fst (bs_state B x)) (fst st))"
    and st: "ss_connections (fst st) = (ss_connections (fst (bs_state B x)))(bc_peer G x \<mapsto>
      snd (conn_enqueue T (frame T b) (end_conn G B x)))"
    and short: "short (sent_since (bc_peer G x) (fst (bs_state B x)) (fst st))"
  shows "(\<forall>y. end_open G B' y) \<and> (\<forall>y. (link_step T)\<^sup>*\<^sup>* (link_of G B y) (link_of G B' y))"
proof -
  have c: "open_conn (fst (bs_state B x)) (bc_peer G x) (end_conn G B x)" "conn_service (end_conn G B x) = bc_peer G x"
    using ends by (auto simp: end_open_def)
  note q = queued_sent [OF T c(1) st]
  show ?thesis
    by (rule enqueue_links [OF T(2) ends inv B'(1-3), where c = "snd (conn_enqueue T (frame T b) (end_conn G B x))" and bs = "[b]"])
      (use q c(2) B'(4) short in simp_all)
qed

lemma output_links:
  assumes ends: "\<forall>x. end_open G B x"
    and c: "ss_connections (fst (bs_state B x)) (bc_peer G x) = Some c" "conn_out c"
    and w: "\<forall>b r. w b = Inr r \<longrightarrow> r \<le> length b" "conn_output T w c = (None, c', out)"
    and r: "handle_socket_event T (bc_env G x) (bc_start G x) (bc_peer G x) output_event w rd (bs_state B x) = (None, st)"
    and B': "B' = B\<lparr>bs_state := (bs_state B)(x := st), bs_wire := (bs_wire B)(x := bs_wire B x @ out)\<rparr>"
  shows "(\<forall>y. end_open G B' y) \<and> (\<forall>y. (link_step T)\<^sup>*\<^sup>* (link_of G B y) (link_of G B' y))"
proof -
  have c0: "c = end_conn G B x" "open_conn (fst (bs_state B x)) (bc_peer G x) c" "conn_service c = bc_peer G x"
    using ends c(1) by (auto simp: end_open_def open_conn_def)
  note keep = conn_output_keeps [OF w(2)]
  have st: "fst st = with_conn (bc_peer G x) (\<lambda>_. c') (fst (bs_state B x))"
    using c(1) w(2) r by (auto simp: handle_socket_event_def output_event_def split: prod.splits)
  have c': "open_conn (fst st) (bc_peer G x) c'" "conn_service c' = bc_peer G x"
    using c0 keep by (auto simp: st open_conn_def with_conn_lookup)
  have state: "bs_state B' = (bs_state B)(x := st)" by (simp add: B')
  note e = end_update [OF state c' ends [rule_format, of "other x"]]
  have "conn_output T w (sending c) = (None, sending c', out)"
    using w(2)
    by (auto simp: conn_output_def enable_write_def sending_def Let_def split: list.splits sum.splits option.splits if_splits)
  then have "link_step T (link_of G B x) ((link_of G B x)\<lparr>lk_tx := sending c', lk_wire := bs_wire B x @ out\<rparr>)"
    using link_output [where l = "link_of G B x" and w = w and T = T] c(2) w(1) c0(1) by (simp add: link_of_def)
  moreover have "link_of G B' x = (link_of G B x)\<lparr>lk_tx := sending c', lk_wire := bs_wire B x @ out\<rparr>"
    by (simp add: link_of_def e) (simp add: B')
  moreover have "link_of G B' (other x) = link_of G B (other x)"
    using keep c0(1) by (simp add: link_of_def e) (simp add: B')
  ultimately have "(link_step T)\<^sup>*\<^sup>* (link_of G B y) (link_of G B' y)" for y
    using side_cases [of y x] by auto
  with e show ?thesis by blast
qed

lemma bus_step_links:
  assumes T: "le_ok T" "buf_ok T" "bson_ok T" "poll_ok T" and G: "isolated G"
    and ends: "\<forall>x. end_open G B x" and inv: "\<forall>x. link_inv T (link_of G B x)"
    and "bus_step T G B B'"
  shows "(\<forall>y. end_open G B' y) \<and> (\<forall>y. (link_step T)\<^sup>*\<^sup>* (link_of G B y) (link_of G B' y))"
proof -
  have c: "open_conn (fst (bs_state B x)) (bc_peer G x) (end_conn G B x)" "conn_service (end_conn G B x) = bc_peer G x" for x
    using ends by (auto simp: end_open_def)
  from assms(8) show ?thesis
  proof cases
    case (bus_invoke x t i m args n st new)
    have "ss_connections (fst st) = (ss_connections (fst (bs_state B x)))(bc_peer G x \<mapsto>
        snd (conn_enqueue T (frame T (invoke_payload T i (Method_Name m) args)) (end_conn G B x)))"
      using bus_invoke(2) session_invoke_open [where E = "bc_env G x" and start = "bc_start G x" and w = "snd (bs_state B x)", OF T(4) c(1) [of x]]
      by (auto simp: put_parser_def queue_message_def message_bytes_frame T)
    then show ?thesis
      by (intro queued_links [OF T(1,4) ends inv, where x = x and st = st]) (use bus_invoke in simp_all)
  next
    case (bus_release x i st new)
    have "ss_connections (fst st) = (ss_connections (fst (bs_state B x)))(bc_peer G x \<mapsto>
        snd (conn_enqueue T (frame T (serialize T (VU8 request_release # object_id_write i))) (end_conn G B x)))"
      using bus_release(2) make_request_open [where E = "bc_env G x" and start = "bc_start G x" and w = "snd (bs_state B x)", OF T(4) c(1) [of x]]
      by (auto simp: session_release_def queue_message_def message_bytes_frame T simp del: serialize_simps)
    then show ?thesis
      by (intro queued_links [OF T(1,4) ends inv, where x = x and st = st]) (use bus_release in simp_all)
  next
    case (bus_output x c w c' out rd st)
    show ?thesis by (rule output_links [OF ends bus_output(2-6,1)])
  next
    case (bus_input x chunk rest st l)
    show ?thesis
      unfolding bus_input(1) by (rule input_links [OF T G ends inv bus_input(2-6)])
  next
    case (bus_elsewhere x st)
    show ?thesis
      by (rule enqueue_links [OF T(4) ends inv, where x = x and c = "end_conn G B x" and bs = "[]" and st = st])
        (use c same_at_open [OF bus_elsewhere(2)] bus_elsewhere(1) in \<open>simp_all add: short_def\<close>)
  qed
qed

section \<open>The invariant\<close>

text \<open>The serials of a process do not wrap: it has sent at most \<open>2\<^sup>3\<^sup>2\<close> messages.\<close>

definition bounded :: "('o, 'w) bus_system \<Rightarrow> bool" where
  "bounded B \<longleftrightarrow> (\<forall>x. length (bs_sent B x) \<le> 2 ^ 32)"

definition replies_ok :: "toolkit \<Rightarrow> ('o, 'w) bus_system \<Rightarrow> side \<Rightarrow> bool" where
  "replies_ok T B x \<longleftrightarrow>
     filter (is_answer T) (bs_sent B x) = replies (bs_handled B x) \<and> list_all (handling_ok T) (bs_handled B x)"

definition call_ok :: "toolkit \<Rightarrow> ('o, 'w) bus_config \<Rightarrow> ('o, 'w) bus_system \<Rightarrow> side \<Rightarrow> u32 \<times> wire_type \<Rightarrow> bool" where
  "call_ok T G B x = (\<lambda>(n, t).
     \<exists>j < length (bs_sent B x). n = word_of_nat j \<and> \<not> is_answer T (bs_sent B x ! j) \<and>
       get_response_parser (fst (bs_state B x)) (bc_peer G x) n =
         Some (fold (absorb T n) (map h_message (bs_handled B x)) (mk_response_parser t)))"

definition bus_inv :: "toolkit \<Rightarrow> ('o, 'w) bus_config \<Rightarrow> ('o, 'w) bus_system \<Rightarrow> bool" where
  "bus_inv T G B \<longleftrightarrow>
     (\<forall>x. end_open G B x) \<and> (\<forall>x. link_inv T (link_of G B x)) \<and> (\<forall>x. replies_ok T B x) \<and>
     (bounded B \<longrightarrow> (\<forall>x. list_all (call_ok T G B x) (bs_calls B x)))"

lemma link_of_init:
  assumes "connected G st"
  shows "link_of G (init_system st) x = init_link (bc_peer G x)"
proof -
  have "end_conn G (init_system st) x = mk_accepted_connection (bc_peer G x)" for x
    using assms by (simp add: connected_def end_conn_def init_system_def)
  then show ?thesis
    by (simp add: link_of_def) (simp add: init_link_def init_system_def mk_accepted_connection_def mk_connection_def sending_def)
qed

lemma bus_inv_init:
  assumes "connected G st"
  shows "bus_inv T G (init_system st)"
proof -
  have c: "end_conn G (init_system st) x = mk_accepted_connection (bc_peer G x)" for x
    using assms by (simp add: connected_def end_conn_def init_system_def)
  note link_of_init [OF assms]
  moreover have "replies_ok T (init_system st) x" for x
    by (simp add: replies_ok_def init_system_def)
  moreover have "end_open G (init_system st) x" for x
    using assms by (simp add: end_open_def c)
      (simp add: init_system_def connected_def open_conn_def mk_accepted_connection_def mk_connection_def)
  ultimately show ?thesis
    using link_inv_init by (simp add: bus_inv_def) (simp add: init_system_def)
qed

lemma handled_messages:
  assumes "link_inv T (link_of G B x)"
  shows "length (bs_handled B (other x)) \<le> length (bs_sent B x)"
    and "k < length (bs_handled B (other x)) \<Longrightarrow>
      h_serial (bs_handled B (other x) ! k) = word_of_nat k \<and> h_message (bs_handled B (other x) ! k) = bs_sent B x ! k"
    and "map h_message (bs_handled B (other x)) = take (length (bs_handled B (other x))) (bs_sent B x)"
proof -
  let ?hs = "bs_handled B (other x)" and ?ps = "bs_sent B x"
  have eq: "map (\<lambda>h. (h_serial h, h_message h)) ?hs = take (length ?hs) (numbered ?ps)"
    using link_inv_prefix [OF assms] by (simp add: link_of_def)
  from arg_cong [OF eq, of length] show len: "length ?hs \<le> length ?ps" by simp
  show item: "h_serial (?hs ! k) = word_of_nat k \<and> h_message (?hs ! k) = ?ps ! k" if "k < length ?hs" for k
    using arg_cong [OF eq, of "\<lambda>l. l ! k"] that len by (simp add: numbered_def)
  show "map h_message ?hs = take (length ?hs) ?ps"
    using len item by (intro nth_equalityI) simp_all
qed

lemma filter_replies:
  "list_all (handling_ok T) hs \<Longrightarrow> filter (answers T n) (replies hs) = replies (filter (\<lambda>h. h_serial h = n) hs)"
proof (induction hs)
  case (Cons h hs)
  then have "filter (answers T n) (h_replies h) = (if h_serial h = n then h_replies h else [])"
    by (auto simp: handling_ok_def dest: answers_unique split: if_splits)
  with Cons show ?case by simp
qed simp

lemma filter_replies_answers: "list_all (handling_ok T) hs \<Longrightarrow> filter (is_answer T) (replies hs) = replies hs"
  by (induction hs) (auto simp: handling_ok_def answers_is_answer split: if_splits)

lemma filter_answers: "filter (answers T n) (filter (is_answer T) ps) = filter (answers T n) ps"
  by (induction ps) (auto simp: answers_is_answer)

lemma fold_absorb: "fold (absorb T n) ms p = fold (absorb T n) (filter (answers T n) ms) p"
  by (induction ms arbitrary: p) (simp_all add: absorb_other)

lemma filter_serial:
  assumes "j < 2 ^ 32"
  shows "\<forall>k<length hs. h_serial (hs ! k) = word_of_nat k \<Longrightarrow> length hs \<le> 2 ^ 32 \<Longrightarrow>
    filter (\<lambda>h. h_serial h = word_of_nat j) hs = (if j < length hs then [hs ! j] else [])"
proof (induction hs rule: rev_induct)
  case (snoc h hs)
  have "h_serial h = word_of_nat (length hs)"
    using snoc.prems(1) by (auto dest: spec [of _ "length hs"])
  moreover have "\<forall>k<length hs. h_serial (hs ! k) = word_of_nat k"
    using snoc.prems(1) by (metis length_append_singleton less_SucI nth_append)
  moreover have "(word_of_nat (length hs) :: u32) = word_of_nat j \<longleftrightarrow> length hs = j"
    using assms snoc.prems(2) by (auto simp: word_of_nat_eq_iff take_bit_nat_eq_self)
  ultimately show ?case
    using snoc.IH snoc.prems(2) by (auto simp: nth_append)
qed simp

text \<open>In all that \<open>y\<close> has sent, the answers to the message that \<open>x\<close> sent under serial \<open>j\<close>.\<close>

lemma answers_sent:
  assumes "link_inv T (link_of G B x)" and "replies_ok T B (other x)" and "length (bs_sent B x) \<le> 2 ^ 32" and "j < 2 ^ 32"
  shows "filter (answers T (word_of_nat j)) (bs_sent B (other x)) =
    (if j < length (bs_handled B (other x)) then h_replies (bs_handled B (other x) ! j) else [])"
proof -
  let ?hs = "bs_handled B (other x)" and ?n = "word_of_nat j :: u32"
  have "filter (answers T ?n) (bs_sent B (other x)) = replies (filter (\<lambda>h. h_serial h = ?n) ?hs)"
    using assms(2) filter_answers [of T ?n "bs_sent B (other x)"] filter_replies [of T ?hs ?n] by (simp add: replies_ok_def)
  also have "filter (\<lambda>h. h_serial h = ?n) ?hs = (if j < length ?hs then [?hs ! j] else [])"
    using handled_messages [OF assms(1)] assms(3,4) by (intro filter_serial) auto
  finally show ?thesis by simp
qed

text \<open>No message that a process has handled answers a request it has not made yet.\<close>

lemma no_early_answer:
  assumes "bus_inv T G B" and "length (bs_sent B x) < 2 ^ 32"
  shows "filter (answers T (word_of_nat (length (bs_sent B x)))) (map h_message (bs_handled B x)) = []"
proof -
  have inv: "link_inv T (link_of G B x)" "link_inv T (link_of G B (other x))" "replies_ok T B (other x)"
    using assms(1) by (simp_all add: bus_inv_def)
  have "filter (answers T (word_of_nat (length (bs_sent B x)))) (bs_sent B (other x)) = []"
    using answers_sent [OF inv(1,3)] handled_messages(1) [OF inv(1)] assms(2) by simp
  then show ?thesis
    using handled_messages(3) [OF inv(2)] by (auto simp: filter_empty_conv dest: in_set_takeD)
qed

lemma replies_ok_send:
  assumes "replies_ok T B x" and "\<not> is_answer T b"
    and "bs_sent B' = (bs_sent B)(x := bs_sent B x @ [b])" and "bs_handled B' = bs_handled B" and "replies_ok T B y"
  shows "replies_ok T B' y"
  using assms by (simp add: replies_ok_def)

lemma call_okI:
  "j < length (bs_sent B x) \<Longrightarrow> \<not> is_answer T (bs_sent B x ! j) \<Longrightarrow>
   get_response_parser (fst (bs_state B x)) (bc_peer G x) (word_of_nat j) =
     Some (fold (absorb T (word_of_nat j)) (map h_message (bs_handled B x)) (mk_response_parser t)) \<Longrightarrow>
   call_ok T G B x (word_of_nat j, t)"
  unfolding call_ok_def by blast

lemma call_okE:
  assumes "call_ok T G B x c"
  obtains j t where "c = (word_of_nat j, t)" "j < length (bs_sent B x)" "\<not> is_answer T (bs_sent B x ! j)"
    "get_response_parser (fst (bs_state B x)) (bc_peer G x) (word_of_nat j) =
       Some (fold (absorb T (word_of_nat j)) (map h_message (bs_handled B x)) (mk_response_parser t))"
  using assms unfolding call_ok_def by auto

lemma call_ok_step:
  assumes c: "call_ok T G B x c" and "bs_sent B' x = bs_sent B x @ bs" and "bs_handled B' x = bs_handled B x @ l"
    and "get_response_parser (fst (bs_state B' x)) (bc_peer G x) (fst c) =
      map_option (fold (absorb T (fst c)) (map h_message l)) (get_response_parser (fst (bs_state B x)) (bc_peer G x) (fst c))"
  shows "call_ok T G B' x c"
  using c
proof (rule call_okE)
  fix j t
  assume "c = (word_of_nat j, t)" "j < length (bs_sent B x)" "\<not> is_answer T (bs_sent B x ! j)"
    "get_response_parser (fst (bs_state B x)) (bc_peer G x) (word_of_nat j) =
       Some (fold (absorb T (word_of_nat j)) (map h_message (bs_handled B x)) (mk_response_parser t))"
  with assms(2-4) show ?thesis
    by (auto simp: nth_append intro!: call_okI)
qed

lemma call_ok_mono:
  assumes "call_ok T G B x c" and "bs_sent B' x = bs_sent B x @ bs" and "bs_handled B' x = bs_handled B x"
    and "get_response_parser (fst (bs_state B' x)) (bc_peer G x) (fst c) =
      get_response_parser (fst (bs_state B x)) (bc_peer G x) (fst c)"
  shows "call_ok T G B' x c"
  by (rule call_ok_step [OF assms(1,2), where l = "[]"]) (simp_all add: assms(3,4) option.map_id)

lemma bounded_mono:
  assumes "bounded B'" and "bs_sent B' = (bs_sent B)(x := bs_sent B x @ bs)"
  shows "bounded B"
  unfolding bounded_def
proof
  fix y
  from assms show "length (bs_sent B y) \<le> 2 ^ 32"
    by (cases "y = x") (auto simp: bounded_def dest: spec [of _ y])
qed

lemma invoke_calls:
  assumes inv: "bus_inv T G B" and b: "bounded B'"
    and B': "bs_sent B' = (bs_sent B)(x := bs_sent B x @ [b])" "bs_handled B' = bs_handled B"
      "bs_calls B' = (bs_calls B)(x := bs_calls B x @ [(word_of_nat (length (bs_sent B x)), t)])"
      "bs_state B' = (bs_state B)(x := st)"
    and p: "\<And>n. get_response_parser (fst st) (bc_peer G x) n =
      (if n = word_of_nat (length (bs_sent B x)) then Some (mk_response_parser t)
       else get_response_parser (fst (bs_state B x)) (bc_peer G x) n)"
    and new: "\<not> is_answer T b"
  shows "list_all (call_ok T G B' y) (bs_calls B' y)"
proof -
  let ?k = "length (bs_sent B x)"
  have len: "?k < 2 ^ 32"
    using b by (auto simp: bounded_def B'(1) dest: spec [of _ x])
  have old: "list_all (call_ok T G B z) (bs_calls B z)" for z
    using inv bounded_mono [OF b B'(1)] by (simp add: bus_inv_def)
  have "call_ok T G B' x (word_of_nat ?k, t)"
    using no_early_answer [OF inv len] new
    by (intro call_okI) (simp_all add: B' p fold_absorb [where ms = "map h_message (bs_handled B x)"])
  moreover have "call_ok T G B' x c" if c: "call_ok T G B x c" for c
  proof (rule call_ok_mono [OF c])
    from c obtain j where "j < ?k" "fst c = word_of_nat j"
      by (auto simp: call_ok_def)
    then have "fst c \<noteq> word_of_nat ?k"
      using len by (simp add: word_of_nat_eq_iff take_bit_nat_eq_self)
    then show "get_response_parser (fst (bs_state B' x)) (bc_peer G x) (fst c) =
        get_response_parser (fst (bs_state B x)) (bc_peer G x) (fst c)"
      by (simp add: B' p)
  qed (simp_all add: B')
  moreover have "call_ok T G B' (other x) c" if "call_ok T G B (other x) c" for c
    by (rule call_ok_mono [OF that, where bs = "[]"]) (simp_all add: B')
  ultimately show ?thesis
    using side_cases [of y x] old by (auto simp: B' list_all_iff)
qed

lemma get_response_parser_conns [simp]:
  "get_response_parser (with_conn j f s) i n = get_response_parser s i n"
  "get_response_parser (s\<lparr>ss_connections := m\<rparr>) i n = get_response_parser s i n"
  by (simp_all add: get_response_parser_def with_conn_def split: option.split)

lemma calls_frame:
  assumes inv: "bus_inv T G B" and b: "bounded B'"
    and B': "bs_sent B' = (bs_sent B)(x := bs_sent B x @ bs)" "bs_handled B' = (bs_handled B)(x := bs_handled B x @ l)"
      "bs_calls B' = bs_calls B" "bs_state B' = (bs_state B)(x := st)"
    and p: "\<And>n. get_response_parser (fst st) (bc_peer G x) n =
      map_option (fold (absorb T n) (map h_message l)) (get_response_parser (fst (bs_state B x)) (bc_peer G x) n)"
  shows "list_all (call_ok T G B' y) (bs_calls B' y)"
proof -
  have "list_all (call_ok T G B z) (bs_calls B z)" for z
    using inv bounded_mono [OF b B'(1)] by (simp add: bus_inv_def)
  moreover have "call_ok T G B' x c" if "call_ok T G B x c" for c
    by (rule call_ok_step [OF that, where bs = bs and l = l]) (simp_all add: B' p)
  moreover have "call_ok T G B' (other x) c" if "call_ok T G B (other x) c" for c
    by (rule call_ok_mono [OF that, where bs = "[]"]) (simp_all add: B')
  ultimately show ?thesis
    using side_cases [of y x] by (auto simp: B' list_all_iff)
qed

text \<open>What the invariant says of answers and calls, event by event.\<close>

definition calls_inv :: "toolkit \<Rightarrow> ('o, 'w) bus_config \<Rightarrow> ('o, 'w) bus_system \<Rightarrow> bool" where
  "calls_inv T G B \<longleftrightarrow>
     (\<forall>x. replies_ok T B x) \<and> (bounded B \<longrightarrow> (\<forall>x. list_all (call_ok T G B x) (bs_calls B x)))"

lemma bus_inv_calls:
  "bus_inv T G B \<longleftrightarrow> (\<forall>x. end_open G B x) \<and> (\<forall>x. link_inv T (link_of G B x)) \<and> calls_inv T G B"
  by (auto simp: bus_inv_def calls_inv_def)

lemma bus_inv_end:
  assumes "bus_inv T G B"
  shows "open_conn (fst (bs_state B x)) (bc_peer G x) (end_conn G B x)" "conn_service (end_conn G B x) = bc_peer G x"
    "link_inv T (link_of G B x)" "replies_ok T B x"
  using assms by (simp_all add: bus_inv_def end_open_def)

lemma invoke_keeps_calls:
  assumes T: "le_ok T" "buf_ok T" "bson_ok T" "poll_ok T" and inv: "bus_inv T G B"
    and r: "session_invoke T (bc_env G x) (bc_start G x) t (bc_peer G x) i m args (bs_state B x) = (Inr n, st)"
  defines "new \<equiv> sent_since (bc_peer G x) (fst (bs_state B x)) (fst st)"
  shows "calls_inv T G (B\<lparr>bs_state := (bs_state B)(x := st), bs_sent := (bs_sent B)(x := bs_sent B x @ new),
    bs_calls := (bs_calls B)(x := bs_calls B x @ [(n, t)])\<rparr>)"
    (is "calls_inv T G ?B")
proof -
  note e = bus_inv_end [OF inv]
  let ?c = "end_conn G B x" and ?b = "invoke_payload T i (Method_Name m) args"
  have st: "fst st = put_parser (bc_peer G x) n (mk_response_parser t) (queue_message T (bc_peer G x) ?c ?b (fst (bs_state B x)))"
    and n: "n = word_of_nat (length (bs_sent B x))"
    using r link_serial [OF e(3) [of x]]
      session_invoke_open [where E = "bc_env G x" and start = "bc_start G x" and w = "snd (bs_state B x)", OF T(4) e(1) [of x]]
    by auto
  have new: "new = [?b]"
    using queued_sent(1) [OF T(1,4) e(1) [of x], of "fst st" ?b]
    by (simp add: new_def st put_parser_def queue_message_def message_bytes_frame T)
  have b: "\<not> is_answer T ?b" using T by simp
  have "replies_ok T ?B y" for y
    by (rule replies_ok_send [OF e(4) [of x] b _ _ e(4) [of y]]) (simp_all add: new)
  moreover have "list_all (call_ok T G ?B y) (bs_calls ?B y)" if "bounded ?B" for y
    by (rule invoke_calls [OF inv that, where x = x and st = st and b = ?b and t = t])
      (simp_all add: new st n get_put_parser T)
  ultimately show ?thesis by (simp add: calls_inv_def)
qed

lemma release_keeps_calls:
  assumes T: "le_ok T" "buf_ok T" "bson_ok T" "poll_ok T" and inv: "bus_inv T G B"
    and r: "session_release T (bc_env G x) (bc_start G x) (bc_peer G x) i (bs_state B x) = st"
  defines "new \<equiv> sent_since (bc_peer G x) (fst (bs_state B x)) (fst st)"
  shows "calls_inv T G (B\<lparr>bs_state := (bs_state B)(x := st), bs_sent := (bs_sent B)(x := bs_sent B x @ new)\<rparr>)"
    (is "calls_inv T G ?B")
proof -
  note e = bus_inv_end [OF inv]
  let ?c = "end_conn G B x" and ?b = "serialize T (VU8 request_release # object_id_write i)"
  have st: "fst st = queue_message T (bc_peer G x) ?c ?b (fst (bs_state B x))"
    using r make_request_open [where E = "bc_env G x" and start = "bc_start G x" and w = "snd (bs_state B x)", OF T(4) e(1) [of x]]
    by (auto simp: session_release_def simp del: serialize_simps)
  have new: "new = [?b]"
    using queued_sent(1) [OF T(1,4) e(1) [of x], of "fst st" ?b]
    by (simp add: new_def st queue_message_def message_bytes_frame T del: serialize_simps)
  have b: "\<not> is_answer T ?b" by (rule not_answer_request(2) [OF T(3)])
  have "replies_ok T ?B y" for y
    by (rule replies_ok_send [OF e(4) [of x] b _ _ e(4) [of y]]) (simp_all add: new del: serialize_simps)
  moreover have "list_all (call_ok T G ?B y) (bs_calls ?B y)" if "bounded ?B" for y
    by (rule calls_frame [OF inv that, where x = x and st = st and bs = "[?b]" and l = "[]"])
      (simp_all add: new st option.map_id del: serialize_simps)
  ultimately show ?thesis by (simp add: calls_inv_def)
qed

lemma input_keeps_calls:
  assumes T: "le_ok T" "buf_ok T" "bson_ok T" "poll_ok T" and G: "isolated G" and inv: "bus_inv T G B" and d: "chunk \<noteq> []"
    and r: "receive_bytes T (bc_env G x) (bc_start G x) (bc_peer G x) chunk (bs_state B x) = (None, st)"
    and w: "watched_input T (bc_env G x) (bc_start G x) (bc_peer G x) chunk (bs_state B x) (bs_handled B x) = bs_handled B x @ l"
  shows "calls_inv T G (B\<lparr>bs_state := (bs_state B)(x := st), bs_wire := (bs_wire B)(other x := rest),
    bs_sent := (bs_sent B)(x := bs_sent B x @ replies l), bs_handled := (bs_handled B)(x := bs_handled B x @ l)\<rparr>)"
    (is "calls_inv T G ?B")
proof -
  note e = bus_inv_end [OF inv]
  have E: "spares (bc_peer G x) (bc_env G x)"
    using G by (simp add: isolated_def)
  from watched_input_advances(1) [OF T E e(1,2) d r w] e(1,2) [of x]
  have p: "\<And>n. get_response_parser (fst st) (bc_peer G x) n =
      map_option (fold (absorb T n) (map h_message l)) (get_response_parser (fst (bs_state B x)) (bc_peer G x) n)"
    and ok: "list_all (handling_ok T) l"
    unfolding advances_def by blast+
  have "replies_ok T ?B y" for y
    using e(4) [of y] ok filter_replies_answers [OF ok] by (auto simp: replies_ok_def)
  moreover have "list_all (call_ok T G ?B y) (bs_calls ?B y)" if "bounded ?B" for y
    by (rule calls_frame [OF inv that, where x = x and st = st and bs = "replies l" and l = l]) (simp_all add: p)
  ultimately show ?thesis by (simp add: calls_inv_def)
qed

text \<open>An event after which nothing has been sent, called or handled.\<close>

lemma silent_keeps_calls:
  assumes inv: "bus_inv T G B" and B': "bs_sent B' = bs_sent B" "bs_calls B' = bs_calls B" "bs_handled B' = bs_handled B"
      "bs_state B' = (bs_state B)(x := st)"
    and p: "\<And>n. get_response_parser (fst st) (bc_peer G x) n = get_response_parser (fst (bs_state B x)) (bc_peer G x) n"
  shows "calls_inv T G B'"
proof -
  have "list_all (call_ok T G B' y) (bs_calls B' y)" if "bounded B'" for y
    by (rule calls_frame [OF inv that, where x = x and st = st and bs = "[]" and l = "[]"])
      (simp_all add: B' p option.map_id)
  moreover have "replies_ok T B' y" for y
    using bus_inv_end(4) [OF inv, of y] by (simp add: replies_ok_def B')
  ultimately show ?thesis by (simp add: calls_inv_def)
qed

lemma bus_inv_step:
  assumes T: "le_ok T" "buf_ok T" "bson_ok T" "poll_ok T" and G: "isolated G" and inv: "bus_inv T G B" and step: "bus_step T G B B'"
  shows "bus_inv T G B'"
proof -
  have ends: "\<forall>x. end_open G B x" and link: "\<forall>x. link_inv T (link_of G B x)"
    using inv by (simp_all add: bus_inv_def)
  note links = bus_step_links [OF T G ends link step]
  have "calls_inv T G B'"
    using step
  proof cases
    case (bus_invoke x t i m args n st new)
    show ?thesis
      unfolding bus_invoke(1,3) by (rule invoke_keeps_calls [OF T inv bus_invoke(2)])
  next
    case (bus_release x i st new)
    show ?thesis
      unfolding bus_release(1,3) by (rule release_keeps_calls [OF T inv bus_release(2)])
  next
    case (bus_output x c w c' out rd st)
    then have "fst st = with_conn (bc_peer G x) (\<lambda>_. c') (fst (bs_state B x))"
      by (auto simp: handle_socket_event_def output_event_def split: prod.splits)
    then show ?thesis
      by (intro silent_keeps_calls [OF inv, where x = x and st = st]) (simp_all add: bus_output(1))
  next
    case (bus_input x chunk rest st l)
    show ?thesis
      unfolding bus_input(1) by (rule input_keeps_calls [OF T G inv bus_input(3-5)])
  next
    case (bus_elsewhere x st)
    then show ?thesis
      by (intro silent_keeps_calls [OF inv, where x = x and st = st]) (simp_all add: same_at_parser)
  qed
  moreover have "\<forall>x. link_inv T (link_of G B' x)"
    using links link link_inv_steps [OF T(1,2,4)] by blast
  ultimately show ?thesis
    using links by (simp add: bus_inv_calls)
qed

lemma bus_inv_steps:
  assumes "le_ok T" "buf_ok T" "bson_ok T" "poll_ok T" "isolated G"
  shows "(bus_step T G)\<^sup>*\<^sup>* B B' \<Longrightarrow> bus_inv T G B \<Longrightarrow> bus_inv T G B'"
  by (induction rule: rtranclp_induct) (auto intro: bus_inv_step [OF assms])

text \<open>The slot of a call and the answers to it that the caller has handled.\<close>

lemma call_outcome:
  assumes inv: "bus_inv T G B" and b: "bounded B" and c: "(n, t) \<in> set (bs_calls B x)"
  obtains j where "n = word_of_nat j" "j < length (bs_sent B x)" "j < 2 ^ 32" "\<not> is_answer T (bs_sent B x ! j)"
    "get_response_parser (fst (bs_state B x)) (bc_peer G x) n =
       Some (fold (absorb T n) (filter (answers T n) (map h_message (bs_handled B x))) (mk_response_parser t))"
    "filter (answers T n) (bs_sent B (other x)) =
       (if j < length (bs_handled B (other x)) then h_replies (bs_handled B (other x) ! j) else [])"
proof -
  have "call_ok T G B x (n, t)"
    using inv b c by (auto simp: bus_inv_def list_all_iff)
  then obtain j where j: "n = word_of_nat j" "j < length (bs_sent B x)" "\<not> is_answer T (bs_sent B x ! j)"
    "get_response_parser (fst (bs_state B x)) (bc_peer G x) n =
       Some (fold (absorb T n) (map h_message (bs_handled B x)) (mk_response_parser t))"
    by (auto elim!: call_okE)
  have len: "length (bs_sent B x) \<le> 2 ^ 32"
    using b by (simp add: bounded_def)
  then have small: "j < 2 ^ 32" using j(2) by linarith
  show ?thesis
  proof (rule that [OF j(1,2) small j(3)])
    show "get_response_parser (fst (bs_state B x)) (bc_peer G x) n =
       Some (fold (absorb T n) (filter (answers T n) (map h_message (bs_handled B x))) (mk_response_parser t))"
      using j(4) fold_absorb [of T n "map h_message (bs_handled B x)"] by simp
    show "filter (answers T n) (bs_sent B (other x)) =
        (if j < length (bs_handled B (other x)) then h_replies (bs_handled B (other x) ! j) else [])"
      unfolding j(1) using inv by (intro answers_sent [where G = G, OF _ _ len small]) (simp_all add: bus_inv_def)
  qed
qed

lemma handled_reply:
  assumes inv: "bus_inv T G B" and j: "j < length (bs_handled B (other x))" and "\<not> is_answer T (bs_sent B x ! j)"
  shows "\<exists>m. h_replies (bs_handled B (other x) ! j) = [m] \<and> answers T (word_of_nat j) m \<and>
    bs_handled B (other x) ! j = \<lparr>h_serial = word_of_nat j, h_message = bs_sent B x ! j, h_replies = [m]\<rparr>"
proof -
  let ?h = "bs_handled B (other x) ! j"
  have h: "h_serial ?h = word_of_nat j" "h_message ?h = bs_sent B x ! j"
    using handled_messages(2) [of T G B x, OF _ j] inv by (auto simp: bus_inv_def)
  have "handling_ok T ?h"
    using inv j by (auto simp: bus_inv_def replies_ok_def list_all_length)
  with h assms(3) show ?thesis
    by (cases ?h) (auto simp: handling_ok_def)
qed

lemma quiet_link:
  assumes "le_ok T" and "bus_inv T G B" and "bs_wire B x = []" and "conn_write_queue (end_conn G B x) = []"
  shows "length (bs_handled B (other x)) = length (bs_sent B x)"
proof -
  have "link_inv T (link_of G B x)"
    using assms(2) by (simp add: bus_inv_def)
  from link_inv_quiet [OF assms(1) this] assms(3,4)
  have "map (\<lambda>h. (h_serial h, h_message h)) (bs_handled B (other x)) = numbered (bs_sent B x)"
    by (simp add: link_of_def)
  from arg_cong [OF this, of length] show ?thesis by simp
qed

text \<open>The outcome of a call in every state that satisfies the invariant, and in a quiet one.\<close>

lemma matched_call:
  assumes inv: "bus_inv T G B" and "bounded B" and "(n, t) \<in> set (bs_calls B x)"
  shows "\<exists>p. get_response_parser (fst (bs_state B x)) (bc_peer G x) n = Some p \<and>
    (case filter (answers T n) (map h_message (bs_handled B x)) of
       [] \<Rightarrow> p = mk_response_parser t
     | [m] \<Rightarrow> p = absorb T n m (mk_response_parser t) \<and> rp_finished p \<and>
         \<lparr>h_serial = n, h_message = bs_sent B x ! unat n, h_replies = [m]\<rparr> \<in> set (bs_handled B (other x))
     | _ \<Rightarrow> False)"
proof -
  let ?got = "filter (answers T n) (map h_message (bs_handled B x))"
  obtain j where j: "n = word_of_nat j" "j < length (bs_sent B x)" "j < 2 ^ 32" "\<not> is_answer T (bs_sent B x ! j)"
    and p: "get_response_parser (fst (bs_state B x)) (bc_peer G x) n = Some (fold (absorb T n) ?got (mk_response_parser t))"
    and a: "filter (answers T n) (bs_sent B (other x)) =
       (if j < length (bs_handled B (other x)) then h_replies (bs_handled B (other x) ! j) else [])"
    using call_outcome [OF inv assms(2,3)] by metis
  have "link_inv T (link_of G B (other x))"
    using inv by (simp add: bus_inv_def)
  from handled_messages(3) [OF this]
  have "map h_message (bs_handled B x) @ drop (length (bs_handled B x)) (bs_sent B (other x)) = bs_sent B (other x)"
    by simp
  then obtain rest where "filter (answers T n) (bs_sent B (other x)) = ?got @ rest"
    by (metis filter_append)
  then consider "?got = []" | m where "j < length (bs_handled B (other x))" "?got = [m]"
      "h_replies (bs_handled B (other x) ! j) = [m]"
    using a handled_reply [OF inv _ j(4)] by (cases ?got) (auto split: if_splits)
  then show ?thesis
  proof cases
    case 1
    then show ?thesis using p by simp
  next
    case (2 m)
    have "unat n = j" using j(1,3) by (simp add: unat_of_nat)
    moreover have "bs_handled B (other x) ! j = \<lparr>h_serial = n, h_message = bs_sent B x ! j, h_replies = [m]\<rparr>"
      and "answers T n m"
      using handled_reply [OF inv 2(1) j(4)] 2(3) j(1) by auto
    ultimately show ?thesis
      using p 2 nth_mem [OF 2(1)] by (simp add: absorb_finished)
  qed
qed

lemma answered_call:
  assumes "le_ok T" and inv: "bus_inv T G B" and "bounded B" and "(n, t) \<in> set (bs_calls B x)"
    and "\<forall>y. bs_wire B y = [] \<and> conn_write_queue (end_conn G B y) = []"
  shows "\<exists>m p. filter (answers T n) (map h_message (bs_handled B x)) = [m] \<and>
    get_response_parser (fst (bs_state B x)) (bc_peer G x) n = Some p \<and>
    p = absorb T n m (mk_response_parser t) \<and> rp_finished p \<and>
    \<lparr>h_serial = n, h_message = bs_sent B x ! unat n, h_replies = [m]\<rparr> \<in> set (bs_handled B (other x))"
proof -
  let ?got = "filter (answers T n) (map h_message (bs_handled B x))"
  obtain j where j: "n = word_of_nat j" "j < length (bs_sent B x)" "j < 2 ^ 32" "\<not> is_answer T (bs_sent B x ! j)"
    and p: "get_response_parser (fst (bs_state B x)) (bc_peer G x) n = Some (fold (absorb T n) ?got (mk_response_parser t))"
    and a: "filter (answers T n) (bs_sent B (other x)) =
       (if j < length (bs_handled B (other x)) then h_replies (bs_handled B (other x) ! j) else [])"
    using call_outcome [OF inv assms(3,4)] by metis
  have len: "length (bs_handled B (other y)) = length (bs_sent B y)" for y
    using quiet_link [OF assms(1) inv] assms(5) by blast
  then have done': "j < length (bs_handled B (other x))" using j(2) by simp
  from handled_reply [OF inv done' j(4)] obtain m where m: "h_replies (bs_handled B (other x) ! j) = [m]"
      "answers T n m" "bs_handled B (other x) ! j = \<lparr>h_serial = n, h_message = bs_sent B x ! j, h_replies = [m]\<rparr>"
    using j(1) by auto
  have "link_inv T (link_of G B (other x))"
    using inv by (simp add: bus_inv_def)
  from handled_messages(3) [OF this] len [of "other x"] have "?got = [m]"
    using a m(1) done' by simp
  moreover have "unat n = j" using j(1,3) by (simp add: unat_of_nat)
  ultimately show ?thesis
    using p m(2,3) nth_mem [OF done'] by (auto simp: absorb_finished)
qed

end
