(* ===== verification/Bus_Calls.thy ===== *)
theory Bus_Calls
  imports Bus_System
begin

text \<open>
  The properties of two connected processes: each direction is a link, every call gets the answer
  to itself and no other, and no call is forgotten. First a complete run for the witnesses.
\<close>

section \<open>A run\<close>

text \<open>Single events that move everything there is: used to build a complete run.\<close>

lemma end_ready:
  assumes "bus_inv T G B"
  shows "conn_ready (end_conn G B x)" and "open_conn (fst (bs_state B x)) (bc_peer G x) (end_conn G B x)"
    and "conn_service (end_conn G B x) = bc_peer G x"
proof -
  have "link_inv T (link_of G B x)"
    using assms by (simp add: bus_inv_def)
  from link_inv_ready [OF this] show "conn_ready (end_conn G B x)"
    by (simp add: link_of_def conn_ready_def)
  show "open_conn (fst (bs_state B x)) (bc_peer G x) (end_conn G B x)" and "conn_service (end_conn G B x) = bc_peer G x"
    using assms by (simp_all add: bus_inv_def end_open_def)
qed

lemma flush_step:
  assumes T: "poll_ok T" and inv: "bus_inv T G B" and q: "conn_write_queue (end_conn G B x) = [mk_write_task d]"
  shows "\<exists>B' st. bus_step T G B B' \<and> B' = B\<lparr>bs_state := (bs_state B)(x := st), bs_wire := (bs_wire B)(x := bs_wire B x @ d)\<rparr> \<and>
    conn_write_queue (end_conn G B' x) = [] \<and> end_conn G B' (other x) = end_conn G B (other x)"
proof -
  let ?c = "end_conn G B x" and ?w = "\<lambda>b :: bytes. (Inr (length b) :: exn + nat)"
  note c = end_ready [OF inv, of x]
  let ?c' = "?c\<lparr>conn_write_queue := [], conn_out := False\<rparr>"
  have o: "conn_output T ?w ?c = (None, ?c', d)"
    using conn_output_ok [where sock_write = ?w, OF T c(1) q] by simp
  let ?st = "(with_conn (bc_peer G x) (\<lambda>_. ?c') (fst (bs_state B x)), snd (bs_state B x))"
  let ?B = "B\<lparr>bs_state := (bs_state B)(x := ?st), bs_wire := (bs_wire B)(x := bs_wire B x @ d)\<rparr>"
  have look: "ss_connections (fst (bs_state B x)) (bc_peer G x) = Some ?c"
    using c(2) by (simp add: open_conn_def)
  have "handle_socket_event T (bc_env G x) (bc_start G x) (bc_peer G x) output_event ?w (Inr (0, [])) (bs_state B x) = (None, ?st)"
    using look o by (cases "bs_state B x") (simp add: handle_socket_event_def output_event_def)
  then have "bus_step T G B ?B"
    using c(1) q by (intro bus_output [OF look _ _ o]) (auto simp: conn_ready_def)
  moreover have "end_conn G ?B x = ?c'" "end_conn G ?B (other x) = end_conn G B (other x)"
    using look by (simp_all add: end_conn_def with_conn_lookup)
  ultimately show ?thesis by (intro exI [of _ ?B]) auto
qed

lemma enqueue_all_queue:
  assumes "poll_ok T"
  shows "conn_registered c \<Longrightarrow> conn_write_queue (enqueue_all T bs c) = conn_write_queue c @ map (\<lambda>b. mk_write_task (frame T b)) bs"
  using assms by (induction bs arbitrary: c) (simp_all add: conn_enqueue_registered)

lemma deliver_step:
  assumes T: "le_ok T" "buf_ok T" "bson_ok T" "poll_ok T" and G: "isolated G" and inv: "bus_inv T G B"
    and wire: "bs_wire B (other x) \<noteq> []" and q: "conn_write_queue (end_conn G B (other x)) = []"
    and short: "\<forall>l st. receive_bytes T (bc_env G x) (bc_start G x) (bc_peer G x) (bs_wire B (other x)) (bs_state B x) = (None, st) \<longrightarrow>
      advances T (bc_peer G x) (fst (bs_state B x)) l (fst st) \<longrightarrow> short (replies l)"
  shows "\<exists>B' st l. bus_step T G B B' \<and>
    B' = B\<lparr>bs_state := (bs_state B)(x := st), bs_wire := (bs_wire B)(other x := []),
      bs_sent := (bs_sent B)(x := bs_sent B x @ replies l), bs_handled := (bs_handled B)(x := bs_handled B x @ l)\<rparr> \<and>
    length (bs_handled B x @ l) = length (bs_sent B (other x)) \<and> short (replies l) \<and>
    conn_write_queue (end_conn G B' x) = conn_write_queue (end_conn G B x) @ map (\<lambda>b. mk_write_task (frame T b)) (replies l) \<and>
    end_conn G B' (other x) = end_conn G B (other x)"
proof -
  note c = end_ready [OF inv, of x]
  let ?in = "bs_wire B (other x)" and ?E = "bc_env G x" and ?start = "bc_start G x" and ?i = "bc_peer G x"
  have look: "ss_connections (fst (bs_state B x)) ?i = Some (end_conn G B x)"
    using c(2) by (simp add: open_conn_def)
  have E: "spares ?i ?E"
    using G by (simp add: isolated_def)
  obtain st where r: "receive_bytes T ?E ?start ?i ?in (bs_state B x) = (None, st)"
    using receive_bytes_loop [OF look wire] by blast
  obtain l where l: "watched_input T ?E ?start ?i ?in (bs_state B x) (bs_handled B x) = bs_handled B x @ l"
    using input_loop_advances [OF T E, of ?start ?in "(fst (bs_state B x), (snd (bs_state B x), bs_handled B x))"]
    by (auto simp: watched_input_def)
  note adv = watched_input_advances(1) [OF T E c(2,3) wire r l]
  let ?B = "B\<lparr>bs_state := (bs_state B)(x := st), bs_wire := (bs_wire B)(other x := []),
      bs_sent := (bs_sent B)(x := bs_sent B x @ replies l), bs_handled := (bs_handled B)(x := bs_handled B x @ l)\<rparr>"
  have step: "bus_step T G B ?B"
    by (rule bus_input [OF _ wire r l short [rule_format, OF r adv]]) simp
  have inv': "bus_inv T G ?B" by (rule bus_inv_step [OF T G inv step])
  obtain c' where c': "open_conn (fst st) ?i c'" "sending c' = enqueue_all T (replies l) (sending (end_conn G B x))"
    using adv c(2,3) unfolding advances_def by blast
  have ends: "end_conn G ?B x = c'" "end_conn G ?B (other x) = end_conn G B (other x)"
    using c'(1) by (simp_all add: end_conn_def open_conn_def)
  have "conn_write_queue c' = conn_write_queue (sending c')" by simp
  also have "\<dots> = conn_write_queue (end_conn G B x) @ map (\<lambda>b. mk_write_task (frame T b)) (replies l)"
    using c(2) unfolding c'(2) by (subst enqueue_all_queue [OF T(4)]) (simp_all add: open_conn_def)
  finally have "conn_write_queue c' = conn_write_queue (end_conn G B x) @ map (\<lambda>b. mk_write_task (frame T b)) (replies l)" .
  moreover have "length (bs_handled B x @ l) = length (bs_sent B (other x))"
    using quiet_link [OF T(1) inv', of "other x"] q ends by simp
  ultimately show ?thesis
    using step ends short [rule_format, OF r adv] by (intro exI [of _ ?B] exI [of _ st] exI [of _ l]) simp
qed

lemma bus_steps_links:
  assumes T: "le_ok T" "buf_ok T" "bson_ok T" "poll_ok T" "isolated G"
  shows "(bus_step T G)\<^sup>*\<^sup>* B B' \<Longrightarrow> bus_inv T G B \<Longrightarrow> (link_step T)\<^sup>*\<^sup>* (link_of G B x) (link_of G B' x)"
proof (induction rule: rtranclp_induct)
  case (step B' B'')
  have "bus_inv T G B'"
    by (rule bus_inv_steps [OF T step.hyps(1) step.prems])
  then have "(link_step T)\<^sup>*\<^sup>* (link_of G B' x) (link_of G B'' x)"
    using bus_step_links [OF T _ _ step.hyps(2)] by (simp add: bus_inv_def)
  with step.IH [OF step.prems] show ?case by simp
qed simp

section \<open>A complete run\<close>

lemma short_frames:
  assumes "le_ok T" and "length (concat (map (frame T) bs)) < 2 ^ 32"
  shows "short bs"
  unfolding short_def list_all_iff
proof
  fix b assume "b \<in> set bs"
  then obtain xs ys where "bs = xs @ b # ys" by (auto dest: split_list)
  then show "length b < 2 ^ 32" using assms by (simp add: frame_def)
qed

lemma advances_queue:
  assumes "poll_ok T" and "advances T i s l s'" and "open_conn s i c" and "conn_service c = i" and "conn_write_queue c = []"
    and "ss_connections s' i = Some c'"
  shows "queued_bytes c' = concat (map (frame T) (replies l))"
proof -
  have "sending c' = enqueue_all T (replies l) (sending c)"
    using assms(2,3,4,6) by (auto simp: advances_def open_conn_def)
  moreover have "conn_write_queue (enqueue_all T (replies l) (sending c)) = map (\<lambda>b. mk_write_task (frame T b)) (replies l)"
    using assms(3,5) by (subst enqueue_all_queue [OF assms(1)]) (simp_all add: open_conn_def)
  moreover have "conn_write_queue c' = conn_write_queue (sending c')" by simp
  ultimately show ?thesis
    by (simp add: queued_bytes_def comp_def)
qed

lemma receive_answer:
  assumes "le_ok T" and "buf_ok T" and "length m < 2 ^ 32" and "is_answer T m" and "ss_connections (fst st) i = Some c"
    and "conn_service c = i" and "rt_open T (conn_read_task c)" and "rt_bytes (conn_read_task c) = []"
    and "receive_bytes T E start i (frame T m) st = (None, st')"
  shows "\<exists>c'. ss_connections (fst st') i = Some c' \<and> conn_write_queue c' = conn_write_queue c"
proof -
  obtain s w where st: "st = (s, w)" by (cases st)
  have look: "ss_connections s i = Some c" using assms(5) by (simp add: st)
  obtain t where t: "receive_bytes T E start i (frame T m) (s, w) =
      (None, input_message (on_incoming_data T E start) i c m (on_conn i (\<lambda>c. c\<lparr>conn_read_task := t\<rparr>) (s, w)))"
    using receive_frame [where E = E and start = start and w = w, OF assms(1-3) look assms(7,8)] by blast
  let ?s = "fst (on_conn i (\<lambda>c. c\<lparr>conn_read_serial := conn_read_serial c + 1\<rparr>) (on_conn i (\<lambda>c. c\<lparr>conn_read_task := t\<rparr>) (s, w)))"
  obtain s' where s': "on_incoming_data T E start i (conn_read_serial c) m (?s, w) = (s', w)" "ss_connections s' = ss_connections ?s"
    using answer_absorbed [where E = E and start = start and i = i and k = "conn_read_serial c" and w = w and s = ?s, OF assms(4)] by blast
  show ?thesis
    using look assms(6,9) s' by (auto simp: st t input_message_def Let_def on_conn_def with_conn_lookup)
qed

text \<open>
  For the witnesses: the client of the random number service calls \<^verbatim>\<open>getInteger\<close>, and every byte
  is delivered.
\<close>

definition demo_bus :: "(nat, nat) bus_config" where
  "demo_bus = \<lparr>bc_peer = (\<lambda>x. case x of Left_End \<Rightarrow> demo_random | Right_End \<Rightarrow> demo_peer),
     bc_env = (\<lambda>_. demo_random_env), bc_start = (\<lambda>_. demo_random_start)\<rparr>"

definition demo_ends :: "side \<Rightarrow> (nat, nat) state" where
  "demo_ends x = (case x of Left_End \<Rightarrow> (demo_client_session, 0) | Right_End \<Rightarrow> (demo_server_session, 0))"

definition demo_request :: bytes where
  "demo_request = invoke_payload demo_toolkit (mk_object_id demo_random 0) ''getInteger'' [VU32 100]"

lemma demo_connected [simp]: "connected demo_bus demo_ends"
  unfolding connected_def
proof
  fix x
  show "ss_connections (fst (demo_ends x)) (bc_peer demo_bus x) = Some (mk_accepted_connection (bc_peer demo_bus x)) \<and>
      ss_requests (fst (demo_ends x)) (bc_peer demo_bus x) = None"
    by (cases x) (simp_all add: demo_ends_def demo_bus_def demo_client_session_def demo_server_session_def empty_session_def)
qed

lemma demo_isolated [simp]: "isolated demo_bus"
  unfolding isolated_def by (intro allI spares_on_world) (auto simp: demo_bus_def demo_random_env_def)

lemma demo_short [simp]: "length demo_request < 2 ^ 32" "length (answer_payload demo_toolkit 0 (Inr (VU32 50))) < 2 ^ 32"
  by (simp_all add: demo_request_def invoke_payload_def answer_payload_def result_payload_def object_id_write_def
      class_id_write_def length_demo_put demo_random_def)

lemma demo_request_short [simp]: "short [demo_request]"
  using demo_short(1) by (simp add: short_def)

lemma demo_bus_invoke:
  "\<exists>B. bus_step demo_toolkit demo_bus (init_system demo_ends) B \<and> bs_calls B Left_End = [(0, TU32)] \<and>
    bs_sent B = (\<lambda>_. [])(Left_End := [demo_request]) \<and> bs_wire B = (\<lambda>_. []) \<and> bs_handled B = (\<lambda>_. []) \<and>
    bs_state B Right_End = (demo_server_session, 0) \<and>
    conn_write_queue (end_conn demo_bus B Left_End) = [mk_write_task (frame demo_toolkit demo_request)] \<and>
    end_conn demo_bus B Right_End = mk_accepted_connection demo_peer"
proof -
  let ?T = demo_toolkit and ?m = "\<lparr>Method_Service = demo_random, Method_Name = ''getInteger''\<rparr>"
  let ?i = "mk_object_id demo_random 0" and ?c = "mk_accepted_connection demo_random"
  have c: "open_conn demo_client_session demo_random ?c"
    by (simp add: open_conn_def demo_client_session_def mk_accepted_connection_def)
  let ?s = "put_parser demo_random 0 (mk_response_parser TU32) (queue_message ?T demo_random ?c demo_request demo_client_session)"
  have inv: "session_invoke ?T (bc_env demo_bus Left_End) (bc_start demo_bus Left_End) TU32 (bc_peer demo_bus Left_End) ?i ?m [VU32 100]
      (bs_state (init_system demo_ends) Left_End) = (Inr 0, (?s, 0))"
    using session_invoke_open [where E = demo_random_env and start = demo_random_start and w = 0, OF demo_poll_ok c, of TU32 ?i ?m "[VU32 100]"]
    by (simp add: demo_bus_def init_system_def demo_ends_def demo_request_def)
  have st: "ss_connections ?s = (ss_connections demo_client_session)(demo_random \<mapsto> snd (conn_enqueue ?T (frame ?T demo_request) ?c))"
    by (simp add: put_parser_def queue_message_def message_bytes_frame)
  note q = queued_sent [OF demo_le_ok demo_poll_ok c st]
  let ?I = "init_system demo_ends"
  let ?B = "?I\<lparr>bs_state := (bs_state ?I)(Left_End := (?s, 0)), bs_sent := (bs_sent ?I)(Left_End := bs_sent ?I Left_End @ [demo_request]),
      bs_calls := (bs_calls ?I)(Left_End := bs_calls ?I Left_End @ [(0, TU32)])\<rparr>"
  have "[demo_request] = sent_since (bc_peer demo_bus Left_End) (fst (bs_state ?I Left_End)) (fst (?s, 0 :: nat))"
    using q(1) by (simp add: init_system_def demo_ends_def demo_bus_def)
  from bus_invoke [OF inv this] have "bus_step ?T demo_bus ?I ?B"
    by simp
  moreover have "conn_write_queue (end_conn demo_bus ?B Left_End) = [mk_write_task (frame ?T demo_request)]"
    by (simp add: end_conn_def demo_bus_def put_parser_def queue_message_def message_bytes_frame conn_enqueue_registered
        mk_accepted_connection_def mk_connection_def)
  moreover have "end_conn demo_bus ?B Right_End = mk_accepted_connection demo_peer"
    by (simp add: end_conn_def demo_bus_def init_system_def demo_ends_def demo_server_session_def)
  ultimately show ?thesis
    by (intro exI [of _ ?B]) (simp add: init_system_def demo_ends_def)
qed

lemma demo_bus_written:
  "\<exists>B. (bus_step demo_toolkit demo_bus)\<^sup>*\<^sup>* (init_system demo_ends) B \<and> bus_inv demo_toolkit demo_bus B \<and>
    bs_calls B Left_End = [(0, TU32)] \<and> bs_sent B = (\<lambda>_. [])(Left_End := [demo_request]) \<and>
    bs_wire B = (\<lambda>_. [])(Left_End := frame demo_toolkit demo_request) \<and> bs_handled B = (\<lambda>_. []) \<and>
    bs_state B Right_End = (demo_server_session, 0) \<and> conn_write_queue (end_conn demo_bus B Left_End) = [] \<and>
    end_conn demo_bus B Right_End = mk_accepted_connection demo_peer"
proof -
  let ?T = demo_toolkit and ?G = demo_bus
  note T = demo_le_ok demo_buf_ok demo_bson_ok demo_poll_ok demo_isolated
  obtain B1 where B1: "bus_step ?T ?G (init_system demo_ends) B1" "bs_calls B1 Left_End = [(0, TU32)]"
      "bs_sent B1 = (\<lambda>_. [])(Left_End := [demo_request])" "bs_wire B1 = (\<lambda>_. [])" "bs_handled B1 = (\<lambda>_. [])"
      "bs_state B1 Right_End = (demo_server_session, 0)"
      "conn_write_queue (end_conn ?G B1 Left_End) = [mk_write_task (frame ?T demo_request)]"
      "end_conn ?G B1 Right_End = mk_accepted_connection demo_peer"
    using demo_bus_invoke by blast
  have inv1: "bus_inv ?T ?G B1" by (rule bus_inv_step [OF T bus_inv_init [OF demo_connected] B1(1)])
  obtain B2 st2 where B2: "bus_step ?T ?G B1 B2"
      "B2 = B1\<lparr>bs_state := (bs_state B1)(Left_End := st2), bs_wire := (bs_wire B1)(Left_End := bs_wire B1 Left_End @ frame ?T demo_request)\<rparr>"
      "conn_write_queue (end_conn ?G B2 Left_End) = []" "end_conn ?G B2 (other Left_End) = end_conn ?G B1 (other Left_End)"
    using flush_step [OF demo_poll_ok inv1 B1(7)] by blast
  have "(bus_step ?T ?G)\<^sup>*\<^sup>* (init_system demo_ends) B2"
    using B1(1) B2(1) by (meson converse_rtranclp_into_rtranclp rtranclp.rtrancl_refl)
  with B2(3,4) B1 bus_inv_step [OF T inv1 B2(1)] show ?thesis
    by (intro exI [of _ B2] conjI) (simp_all add: B2(2))
qed

lemma demo_reply_short:
  assumes "receive_bytes demo_toolkit demo_random_env demo_random_start demo_peer (frame demo_toolkit demo_request)
      (demo_server_session, 0) = (None, (s', w'))"
    and "advances demo_toolkit demo_peer demo_server_session l s'"
  shows "short (replies l)"
proof -
  let ?T = demo_toolkit
  have idle: "idle_conn ?T demo_server_session demo_peer (mk_accepted_connection demo_peer)"
    by (rule idle_accepted) (simp add: demo_server_session_def)
  have obj: "ss_local_objects demo_server_session (mk_object_id demo_random 0) = Some 5"
    by (simp add: demo_server_session_def)
  have wf: "class_id_wf (Type (mk_object_id demo_random 0))" "Version (Type (mk_object_id demo_random 0)) = 1"
    by (simp_all add: demo_random_def class_id_wf_def)
  let ?m = "\<lparr>im_name = ''getInteger'', im_args = [TU32], im_result = TU32\<rparr>"
  have env: "\<forall>s. env_invoke demo_random_env 5 ''getInteger'' (serialize ?T [VU32 100]) (s, 0) =
      (map_sum id (ser_value ?T) (Inr (VU32 50)), (s, 1))"
    using method_invoke_serialized [OF demo_bson_ok, of "[VU32 100]" ?m demo_half "[]" 0]
    by (simp add: demo_random_env_def on_world_def pbus_invoke_lookup random_generator_if_def demo_half_def)
  from server_handles_request [where E = demo_random_env and start = demo_random_start,
      OF demo_le_ok demo_buf_ok demo_bson_ok demo_poll_ok idle wf obj env demo_short(1) [unfolded demo_request_def]] assms(1)
  obtain cb where cb: "ss_connections s' demo_peer = Some cb" "queued_bytes cb = frame ?T (answer_payload ?T 0 (Inr (VU32 50)))"
    by (auto simp: demo_request_def mk_accepted_connection_def mk_connection_def)
  have "open_conn demo_server_session demo_peer (mk_accepted_connection demo_peer)"
    by (simp add: open_conn_def demo_server_session_def mk_accepted_connection_def)
  from advances_queue [OF demo_poll_ok assms(2) this _ _ cb(1)] cb(2)
  have "concat (map (frame ?T) (replies l)) = frame ?T (answer_payload ?T 0 (Inr (VU32 50)))"
    by (simp add: mk_accepted_connection_def mk_connection_def)
  then show ?thesis
    by (intro short_frames [OF demo_le_ok]) (simp add: frame_def answer_payload_def result_payload_def length_demo_put)
qed

lemma demo_bus_request:
  "\<exists>B m. (bus_step demo_toolkit demo_bus)\<^sup>*\<^sup>* (init_system demo_ends) B \<and> bus_inv demo_toolkit demo_bus B \<and>
    bs_calls B Left_End = [(0, TU32)] \<and>
    bs_sent B = (\<lambda>_. [])(Left_End := [demo_request], Right_End := [m]) \<and> short [m] \<and> is_answer demo_toolkit m \<and>
    (\<forall>y. bs_wire B y = []) \<and> bs_handled B Left_End = [] \<and> conn_write_queue (end_conn demo_bus B Left_End) = [] \<and>
    conn_write_queue (end_conn demo_bus B Right_End) = [mk_write_task (frame demo_toolkit m)]"
proof -
  let ?T = demo_toolkit and ?G = demo_bus
  note T = demo_le_ok demo_buf_ok demo_bson_ok demo_poll_ok demo_isolated
  obtain B where B: "(bus_step ?T ?G)\<^sup>*\<^sup>* (init_system demo_ends) B" "bus_inv ?T ?G B"
      "bs_calls B Left_End = [(0, TU32)]" "bs_sent B = (\<lambda>_. [])(Left_End := [demo_request])"
      "bs_wire B = (\<lambda>_. [])(Left_End := frame ?T demo_request)" "bs_handled B = (\<lambda>_. [])"
      "bs_state B Right_End = (demo_server_session, 0)" "conn_write_queue (end_conn ?G B Left_End) = []"
      "end_conn ?G B Right_End = mk_accepted_connection demo_peer"
    using demo_bus_written by blast
  have wire: "bs_wire B (other Right_End) \<noteq> []" "conn_write_queue (end_conn ?G B (other Right_End)) = []"
    using B(5,8) by simp_all
  have "\<forall>l st. receive_bytes ?T (bc_env ?G Right_End) (bc_start ?G Right_End) (bc_peer ?G Right_End) (bs_wire B (other Right_End))
        (bs_state B Right_End) = (None, st) \<longrightarrow>
      advances ?T (bc_peer ?G Right_End) (fst (bs_state B Right_End)) l (fst st) \<longrightarrow> short (replies l)"
    using demo_reply_short by (simp add: B(5,7)) (auto simp: demo_bus_def)
  from deliver_step [OF T B(2) wire this] obtain C st l where C: "bus_step ?T ?G B C"
      "C = B\<lparr>bs_state := (bs_state B)(Right_End := st), bs_wire := (bs_wire B)(other Right_End := []),
        bs_sent := (bs_sent B)(Right_End := bs_sent B Right_End @ replies l), bs_handled := (bs_handled B)(Right_End := bs_handled B Right_End @ l)\<rparr>"
      "length (bs_handled B Right_End @ l) = length (bs_sent B (other Right_End))" "short (replies l)"
      "conn_write_queue (end_conn ?G C Right_End) = conn_write_queue (end_conn ?G B Right_End) @ map (\<lambda>b. mk_write_task (frame ?T b)) (replies l)"
      "end_conn ?G C (other Right_End) = end_conn ?G B (other Right_End)"
    by blast
  have inv: "bus_inv ?T ?G C" by (rule bus_inv_step [OF T B(2) C(1)])
  have "length l = 1"
    using C(3) by (simp add: B)
  then obtain h where l: "l = [h]" by (auto simp: length_Suc_conv)
  have h: "bs_handled C (other Left_End) = [h]" "bs_sent C Left_End = [demo_request]"
    by (simp_all add: C(2) B l)
  have "\<not> is_answer ?T (bs_sent C Left_End ! 0)"
    using not_answer_request(1) [OF demo_bson_ok] by (simp add: h demo_request_def)
  from handled_reply [OF inv _ this] h obtain m where m: "h_replies h = [m]" "answers ?T 0 m"
    by auto
  have "(bus_step ?T ?G)\<^sup>*\<^sup>* (init_system demo_ends) C"
    using B(1) C(1) by simp
  moreover have "bs_sent C = (\<lambda>_. [])(Left_End := [demo_request], Right_End := [m])" "\<forall>y. bs_wire C y = []"
      "bs_calls C Left_End = [(0, TU32)]" "bs_handled C Left_End = []"
    by (auto simp: C(2) B l m)
  moreover have "conn_write_queue (end_conn ?G C Left_End) = []"
    using C(6) B(8) by simp
  moreover have "conn_write_queue (end_conn ?G C Right_End) = [mk_write_task (frame ?T m)]"
    using C(5) B(9) by (simp add: l m mk_accepted_connection_def mk_connection_def)
  ultimately show ?thesis
    using C(4) inv m by (intro exI [of _ C] exI [of _ m]) (simp add: l answers_is_answer)
qed

lemma fresh_read_task:
  assumes inv: "bus_inv T G B" and "bs_handled B (other x) = []" and "bs_sent B x = [m]"
    and "bs_wire B x @ queued_bytes (end_conn G B x) = frame T m"
  shows "rt_open T (conn_read_task (end_conn G B (other x))) \<and> rt_bytes (conn_read_task (end_conn G B (other x))) = []"
proof -
  have "link_inv T (link_of G B x)"
    using inv by (simp add: bus_inv_def)
  then obtain ps k where k: "k \<le> length ps" "rt_open T (conn_read_task (end_conn G B (other x)))"
      "rt_bytes (conn_read_task (end_conn G B (other x))) @ bs_wire B x @ queued_bytes (sending (end_conn G B x)) =
        concat (map (frame T) (drop k ps))"
      "numbered [m] = numbered ps" "[] = take k (numbered ps)"
    using assms(2,3) by (auto simp: link_inv_def link_of_def)
  have "map snd (numbered [m]) = map snd (numbered ps)" using k(4) by simp
  moreover have "map snd (numbered qs) = qs" for qs
    by (simp add: numbered_def comp_def map_nth)
  ultimately have "ps = [m]" by metis
  with k assms(4) show ?thesis
    by (cases k) (auto simp: queued_bytes_def numbered_def)
qed

lemma demo_bus_run:
  "\<exists>B. (bus_step demo_toolkit demo_bus)\<^sup>*\<^sup>* (init_system demo_ends) B \<and> bounded B \<and> bs_calls B Left_End = [(0, TU32)] \<and>
    (\<forall>y. bs_wire B y = [] \<and> conn_write_queue (end_conn demo_bus B y) = [])"
proof -
  let ?T = demo_toolkit and ?G = demo_bus
  note T = demo_le_ok demo_buf_ok demo_bson_ok demo_poll_ok demo_isolated
  obtain B m where B: "(bus_step ?T ?G)\<^sup>*\<^sup>* (init_system demo_ends) B" "bus_inv ?T ?G B" "bs_calls B Left_End = [(0, TU32)]"
      "bs_sent B = (\<lambda>_. [])(Left_End := [demo_request], Right_End := [m])" "short [m]" "is_answer ?T m"
      "\<forall>y. bs_wire B y = []" "bs_handled B Left_End = []" "conn_write_queue (end_conn ?G B Left_End) = []"
      "conn_write_queue (end_conn ?G B Right_End) = [mk_write_task (frame ?T m)]"
    using demo_bus_request by blast
  obtain C st where C: "bus_step ?T ?G B C"
      "C = B\<lparr>bs_state := (bs_state B)(Right_End := st), bs_wire := (bs_wire B)(Right_End := bs_wire B Right_End @ frame ?T m)\<rparr>"
      "conn_write_queue (end_conn ?G C Right_End) = []" "end_conn ?G C (other Right_End) = end_conn ?G B (other Right_End)"
    using flush_step [OF demo_poll_ok B(2,10)] by blast
  have inv: "bus_inv ?T ?G C" by (rule bus_inv_step [OF T B(2) C(1)])
  have q: "conn_write_queue (end_conn ?G C Left_End) = []" and wire: "bs_wire C (other Left_End) = frame ?T m" "bs_wire C Left_End = []"
    using B(7,9) C(4) by (simp_all add: C(2))
  have ends: "open_conn (fst (bs_state C Left_End)) (bc_peer ?G Left_End) (end_conn ?G C Left_End)"
      "conn_service (end_conn ?G C Left_End) = bc_peer ?G Left_End"
    using end_ready [OF inv] by simp_all
  have look: "ss_connections (fst (bs_state C Left_End)) (bc_peer ?G Left_End) = Some (end_conn ?G C Left_End)"
    using ends(1) by (simp add: open_conn_def)
  have task: "rt_open ?T (conn_read_task (end_conn ?G C Left_End)) \<and> rt_bytes (conn_read_task (end_conn ?G C Left_End)) = []"
    using fresh_read_task [OF inv, of Right_End m] wire B(4,8) C(3) by (simp add: C(2) queued_bytes_def)
  have "\<forall>l st. receive_bytes ?T (bc_env ?G Left_End) (bc_start ?G Left_End) (bc_peer ?G Left_End) (bs_wire C (other Left_End))
        (bs_state C Left_End) = (None, st) \<longrightarrow>
      advances ?T (bc_peer ?G Left_End) (fst (bs_state C Left_End)) l (fst st) \<longrightarrow> short (replies l)"
  proof (intro allI impI)
    fix l st
    assume r: "receive_bytes ?T (bc_env ?G Left_End) (bc_start ?G Left_End) (bc_peer ?G Left_End) (bs_wire C (other Left_End))
        (bs_state C Left_End) = (None, st)"
      and a: "advances ?T (bc_peer ?G Left_End) (fst (bs_state C Left_End)) l (fst st)"
    from receive_answer [OF demo_le_ok demo_buf_ok _ B(6) look ends(2) conjunct1 [OF task] conjunct2 [OF task] r [unfolded wire]]
    obtain c' where "ss_connections (fst st) (bc_peer ?G Left_End) = Some c'" "conn_write_queue c' = []"
      using B(5) q by (auto simp: short_def)
    with advances_queue [OF demo_poll_ok a ends q] have "concat (map (frame ?T) (replies l)) = []"
      by (simp add: queued_bytes_def)
    then show "short (replies l)"
      by (intro short_frames [OF demo_le_ok]) simp
  qed
  from deliver_step [OF T inv _ _ this] obtain D st' l where D: "bus_step ?T ?G C D"
      "D = C\<lparr>bs_state := (bs_state C)(Left_End := st'), bs_wire := (bs_wire C)(other Left_End := []),
        bs_sent := (bs_sent C)(Left_End := bs_sent C Left_End @ replies l), bs_handled := (bs_handled C)(Left_End := bs_handled C Left_End @ l)\<rparr>"
      "conn_write_queue (end_conn ?G D Left_End) = conn_write_queue (end_conn ?G C Left_End) @ map (\<lambda>b. mk_write_task (frame ?T b)) (replies l)"
      "end_conn ?G D (other Left_End) = end_conn ?G C (other Left_End)"
      "length (bs_handled C Left_End @ l) = length (bs_sent C (other Left_End))"
    using wire C(3) by auto
  have inv': "bus_inv ?T ?G D" by (rule bus_inv_step [OF T inv D(1)])
  have len: "length l = 1" and sent: "bs_sent D (other Left_End) = [m]" "bs_handled D Left_End = l"
    using D(5) by (simp_all add: D(2) C(2) B(4,8))
  have "link_inv ?T (link_of ?G D (other Left_End))" and "list_all (handling_ok ?T) (bs_handled D Left_End)"
    using inv' by (simp_all add: bus_inv_def replies_ok_def)
  with handled_messages(2) [of ?T ?G D "other Left_End" 0] len sent B(6) have "replies l = []"
    by (auto simp: length_Suc_conv handling_ok_def)
  then have "bs_sent D = (\<lambda>_. [])(Left_End := [demo_request], Right_End := [m])" "bs_calls D Left_End = [(0, TU32)]"
      "\<forall>y. bs_wire D y = []"
    using B(7) by (auto simp: D(2) C(2) B(3,4))
  moreover have "conn_write_queue (end_conn ?G D y) = []" for y
    using D(3,4) q C(3) \<open>replies l = []\<close> by (cases y) simp_all
  moreover have "(bus_step ?T ?G)\<^sup>*\<^sup>* (init_system demo_ends) D"
    using B(1) C(1) D(1) by simp
  ultimately show ?thesis
    by (intro exI [of _ D]) (simp add: bounded_def)
qed

section \<open>Properties\<close>

text \<open>
  C10: two processes implement two links. Whatever two connected processes do, with each other and
  with others, each direction of their connection makes only steps that the link of \<open>Bus_Link\<close> can
  make, as long as no implementation that is called uses this connection itself: a queue and a wire with
  a counter at each end, without sessions, tables and objects. What is proved of a link, the
  agreement of the serials, the order and the integrity of the messages, holds of both directions.
\<close>

theorem system_refines_links:
  assumes "le_ok T" and "buf_ok T" and "bson_ok T" and "poll_ok T"
    and "isolated G" and "connected G st" and "(bus_step T G)\<^sup>*\<^sup>* (init_system st) B"
  shows "(link_step T)\<^sup>*\<^sup>* (init_link (bc_peer G x)) (link_of G B x)"
  using bus_steps_links [OF assms(1-5,7) bus_inv_init [OF assms(6)]] link_of_init [OF assms(6)] by simp

theorem system_refines_links_witness:
  "\<exists>B. (bus_step demo_toolkit demo_bus)\<^sup>*\<^sup>* (init_system demo_ends) B \<and> bs_calls B Left_End = [(0, TU32)] \<and>
    (link_step demo_toolkit)\<^sup>*\<^sup>* (init_link demo_random) (link_of demo_bus B Left_End)"
proof -
  obtain B where B: "(bus_step demo_toolkit demo_bus)\<^sup>*\<^sup>* (init_system demo_ends) B" "bs_calls B Left_End = [(0, TU32)]"
    using demo_bus_run by blast
  from system_refines_links [OF demo_le_ok demo_buf_ok demo_bson_ok demo_poll_ok demo_isolated demo_connected B(1), of Left_End] B
  show ?thesis by (auto simp: demo_bus_def)
qed

text \<open>
  C4: every call gets its own answer. Let two processes be connected and let both call, release,
  write and read in any order, in pieces of any length, and do meanwhile whatever they like with
  other processes, as long as neither has sent more than \<open>2\<^sup>3\<^sup>2\<close> messages and no implementation
  uses the connection between the two (it may call other services). For every call that a
  process \<open>x\<close> made under serial \<open>n\<close>, among all the messages it has handled there is at most one
  answer to \<open>n\<close>. While there is none, the slot of the call is untouched. When there is one, it is
  the one message that the other process queued while it handled exactly this request, under this
  serial, and the slot holds exactly what this answer says and is finished.
\<close>

theorem calls_matched:
  assumes "le_ok T" and "buf_ok T" and "bson_ok T" and "poll_ok T"
    and "isolated G" and "connected G st" and "(bus_step T G)\<^sup>*\<^sup>* (init_system st) B" and "bounded B" and "(n, t) \<in> set (bs_calls B x)"
  shows "\<exists>p. get_response_parser (fst (bs_state B x)) (bc_peer G x) n = Some p \<and>
    (case filter (answers T n) (map h_message (bs_handled B x)) of
       [] \<Rightarrow> p = mk_response_parser t
     | [m] \<Rightarrow> p = absorb T n m (mk_response_parser t) \<and> rp_finished p \<and>
         \<lparr>h_serial = n, h_message = bs_sent B x ! unat n, h_replies = [m]\<rparr> \<in> set (bs_handled B (other x))
     | _ \<Rightarrow> False)"
  by (rule matched_call [OF bus_inv_steps [OF assms(1-5,7) bus_inv_init [OF assms(6)]] assms(8,9)])

theorem calls_matched_witness:
  "\<exists>B p. (bus_step demo_toolkit demo_bus)\<^sup>*\<^sup>* (init_system demo_ends) B \<and> bs_calls B Left_End = [(0, TU32)] \<and>
    get_response_parser (fst (bs_state B Left_End)) demo_random 0 = Some p"
proof -
  obtain B where B: "(bus_step demo_toolkit demo_bus)\<^sup>*\<^sup>* (init_system demo_ends) B" "bounded B" "bs_calls B Left_End = [(0, TU32)]"
    using demo_bus_run by blast
  from calls_matched [OF demo_le_ok demo_buf_ok demo_bson_ok demo_poll_ok demo_isolated demo_connected B(1,2), of 0 TU32 Left_End] B(1,3)
  show ?thesis by (auto simp: demo_bus_def)
qed

text \<open>
  C5: no call is forgotten. When nothing is queued and nothing is in transit any more in either
  direction, every call has been answered: its slot is finished and holds exactly what the one
  answer to it says, which is what the other process queued while it handled this request. A
  caller that has polled until the bus is quiet returns from \<^verbatim>\<open>WaitResponse\<close>.
\<close>

theorem quiet_calls_answered:
  assumes "le_ok T" and "buf_ok T" and "bson_ok T" and "poll_ok T"
    and "isolated G" and "connected G st" and "(bus_step T G)\<^sup>*\<^sup>* (init_system st) B" and "bounded B" and "(n, t) \<in> set (bs_calls B x)"
    and "\<forall>y. bs_wire B y = [] \<and> conn_write_queue (end_conn G B y) = []"
  shows "\<exists>m p. filter (answers T n) (map h_message (bs_handled B x)) = [m] \<and>
    get_response_parser (fst (bs_state B x)) (bc_peer G x) n = Some p \<and>
    p = absorb T n m (mk_response_parser t) \<and> rp_finished p \<and>
    \<lparr>h_serial = n, h_message = bs_sent B x ! unat n, h_replies = [m]\<rparr> \<in> set (bs_handled B (other x))"
  by (rule answered_call [OF assms(1) bus_inv_steps [OF assms(1-5,7) bus_inv_init [OF assms(6)]] assms(8-10)])

theorem quiet_calls_answered_witness:
  "\<exists>B p m. (bus_step demo_toolkit demo_bus)\<^sup>*\<^sup>* (init_system demo_ends) B \<and> bs_calls B Left_End = [(0, TU32)] \<and>
    get_response_parser (fst (bs_state B Left_End)) demo_random 0 = Some p \<and> rp_finished p \<and>
    \<lparr>h_serial = 0, h_message = bs_sent B Left_End ! 0, h_replies = [m]\<rparr> \<in> set (bs_handled B Right_End)"
proof -
  obtain B where B: "(bus_step demo_toolkit demo_bus)\<^sup>*\<^sup>* (init_system demo_ends) B" "bounded B" "bs_calls B Left_End = [(0, TU32)]"
      "\<forall>y. bs_wire B y = [] \<and> conn_write_queue (end_conn demo_bus B y) = []"
    using demo_bus_run by blast
  from quiet_calls_answered [OF demo_le_ok demo_buf_ok demo_bson_ok demo_poll_ok demo_isolated demo_connected B(1,2) _ B(4), of 0 TU32 Left_End] B(1,3)
  show ?thesis by (auto simp: demo_bus_def)
qed

end
