(* ===== verification/Bus_Network.thy ===== *)
theory Bus_Network
  imports Bus_Calls
begin

text \<open>
  Any number of processes. Every process has one session, in which the connections to several others
  are filed; the processes act in any order. What one pair does is hidden from no other pair by the
  model: they share sessions. It is shown that each pair of connected processes nevertheless behaves
  like the two processes of \<open>Bus_System\<close>, so that what is proved of two holds in the network.
\<close>

section \<open>The network\<close>

text \<open>
  \<open>nc_peer p q\<close> is the name under which \<open>p\<close> files its connection to \<open>q\<close>. The observations are kept for
  each direction: \<open>ns_sent p q\<close> are the payloads that \<open>p\<close> has queued for \<open>q\<close>, \<open>ns_handled p q\<close> the
  messages of \<open>q\<close> that \<open>p\<close> has handled.
\<close>

record ('p, 'o, 'w) net_config =
  nc_links :: "('p \<times> 'p) set"
  nc_peer :: "'p \<Rightarrow> 'p \<Rightarrow> service_id"
  nc_env :: "'p \<Rightarrow> ('o, 'w) env"
  nc_start :: "'p \<Rightarrow> ('o, 'w) start_fun"

record ('p, 'o, 'w) net =
  ns_state :: "'p \<Rightarrow> ('o, 'w) state"
  ns_wire :: "'p \<Rightarrow> 'p \<Rightarrow> bytes"
  ns_sent :: "'p \<Rightarrow> 'p \<Rightarrow> bytes list"
  ns_calls :: "'p \<Rightarrow> 'p \<Rightarrow> (u32 \<times> wire_type) list"
  ns_handled :: "'p \<Rightarrow> 'p \<Rightarrow> handling list"

definition upd2 :: "('p \<Rightarrow> 'p \<Rightarrow> 'a) \<Rightarrow> 'p \<Rightarrow> 'p \<Rightarrow> 'a \<Rightarrow> 'p \<Rightarrow> 'p \<Rightarrow> 'a" where
  "upd2 f p q v = f(p := (f p)(q := v))"

lemma upd2_same [simp]: "upd2 f p q v p q = v"
  by (simp add: upd2_def)

lemma upd2_other: "(a, b) \<noteq> (p, q) \<Longrightarrow> upd2 f p q v a b = f a b"
  by (auto simp: upd2_def)

text \<open>
  Links go both ways, every process files its connections under different names, and no implementation
  that is called uses a connection of the network.
\<close>

definition net_ok :: "('p, 'o, 'w) net_config \<Rightarrow> bool" where
  "net_ok G \<longleftrightarrow>
     (\<forall>p q. (p, q) \<in> nc_links G \<longrightarrow> p \<noteq> q \<and> (q, p) \<in> nc_links G \<and> spares (nc_peer G p q) (nc_env G p)) \<and>
     (\<forall>p q r. (p, q) \<in> nc_links G \<longrightarrow> (p, r) \<in> nc_links G \<longrightarrow> nc_peer G p q = nc_peer G p r \<longrightarrow> q = r)"

text \<open>
  The events: \<open>p\<close> calls a method on \<open>q\<close>, releases an object of \<open>q\<close>, writes on its connection to \<open>q\<close>,
  reads from it, or does something else that leaves its connections of the network alone.
\<close>

inductive net_step ::
  "toolkit \<Rightarrow> ('p, 'o, 'w) net_config \<Rightarrow> ('p, 'o, 'w) net \<Rightarrow> ('p, 'o, 'w) net \<Rightarrow> bool" for T G where
  net_invoke: "(p, q) \<in> nc_links G \<Longrightarrow>
    session_invoke T (nc_env G p) (nc_start G p) t (nc_peer G p q) i m args (ns_state S p) = (Inr n, st) \<Longrightarrow>
    new = sent_since (nc_peer G p q) (fst (ns_state S p)) (fst st) \<Longrightarrow> short new \<Longrightarrow>
    net_step T G S (S\<lparr>ns_state := (ns_state S)(p := st), ns_sent := upd2 (ns_sent S) p q (ns_sent S p q @ new),
      ns_calls := upd2 (ns_calls S) p q (ns_calls S p q @ [(n, t)])\<rparr>)"
| net_release: "(p, q) \<in> nc_links G \<Longrightarrow>
    session_release T (nc_env G p) (nc_start G p) (nc_peer G p q) i (ns_state S p) = st \<Longrightarrow>
    new = sent_since (nc_peer G p q) (fst (ns_state S p)) (fst st) \<Longrightarrow> short new \<Longrightarrow>
    net_step T G S (S\<lparr>ns_state := (ns_state S)(p := st), ns_sent := upd2 (ns_sent S) p q (ns_sent S p q @ new)\<rparr>)"
| net_output: "(p, q) \<in> nc_links G \<Longrightarrow> ss_connections (fst (ns_state S p)) (nc_peer G p q) = Some c \<Longrightarrow> conn_out c \<Longrightarrow>
    \<forall>b r. w b = Inr r \<longrightarrow> r \<le> length b \<Longrightarrow> conn_output T w c = (None, c', out) \<Longrightarrow>
    handle_socket_event T (nc_env G p) (nc_start G p) (nc_peer G p q) output_event w rd (ns_state S p) = (None, st) \<Longrightarrow>
    net_step T G S (S\<lparr>ns_state := (ns_state S)(p := st), ns_wire := upd2 (ns_wire S) p q (ns_wire S p q @ out)\<rparr>)"
| net_input: "(p, q) \<in> nc_links G \<Longrightarrow> ns_wire S q p = chunk @ rest \<Longrightarrow> chunk \<noteq> [] \<Longrightarrow>
    receive_bytes T (nc_env G p) (nc_start G p) (nc_peer G p q) chunk (ns_state S p) = (None, st) \<Longrightarrow>
    watched_input T (nc_env G p) (nc_start G p) (nc_peer G p q) chunk (ns_state S p) (ns_handled S p q) = ns_handled S p q @ l \<Longrightarrow>
    short (replies l) \<Longrightarrow>
    net_step T G S (S\<lparr>ns_state := (ns_state S)(p := st), ns_wire := upd2 (ns_wire S) q p rest,
      ns_sent := upd2 (ns_sent S) p q (ns_sent S p q @ replies l),
      ns_handled := upd2 (ns_handled S) p q (ns_handled S p q @ l)\<rparr>)"
| net_elsewhere: "\<forall>q. (p, q) \<in> nc_links G \<longrightarrow> same_at (nc_peer G p q) (fst (ns_state S p)) (fst st) \<Longrightarrow>
    net_step T G S (S\<lparr>ns_state := (ns_state S)(p := st)\<rparr>)"

text \<open>All links connected, nothing sent, nothing pending.\<close>

definition net_connected :: "('p, 'o, 'w) net_config \<Rightarrow> ('p \<Rightarrow> ('o, 'w) state) \<Rightarrow> bool" where
  "net_connected G st \<longleftrightarrow>
     (\<forall>p q. (p, q) \<in> nc_links G \<longrightarrow>
        ss_connections (fst (st p)) (nc_peer G p q) = Some (mk_accepted_connection (nc_peer G p q)) \<and>
        ss_requests (fst (st p)) (nc_peer G p q) = None)"

definition init_net :: "('p \<Rightarrow> ('o, 'w) state) \<Rightarrow> ('p, 'o, 'w) net" where
  "init_net st = \<lparr>ns_state = st, ns_wire = (\<lambda>_ _. []), ns_sent = (\<lambda>_ _. []), ns_calls = (\<lambda>_ _. []), ns_handled = (\<lambda>_ _. [])\<rparr>"

section \<open>Pairs\<close>

primrec node :: "'p \<Rightarrow> 'p \<Rightarrow> side \<Rightarrow> 'p" where
  "node p q Left_End = p"
| "node p q Right_End = q"

definition pair_config :: "('p, 'o, 'w) net_config \<Rightarrow> 'p \<Rightarrow> 'p \<Rightarrow> ('o, 'w) bus_config" where
  "pair_config G p q =
     \<lparr>bc_peer = (\<lambda>x. nc_peer G (node p q x) (node p q (other x))), bc_env = (\<lambda>x. nc_env G (node p q x)),
      bc_start = (\<lambda>x. nc_start G (node p q x))\<rparr>"

definition pair_of :: "('p, 'o, 'w) net \<Rightarrow> 'p \<Rightarrow> 'p \<Rightarrow> ('o, 'w) bus_system" where
  "pair_of S p q =
     \<lparr>bs_state = (\<lambda>x. ns_state S (node p q x)), bs_wire = (\<lambda>x. ns_wire S (node p q x) (node p q (other x))),
      bs_sent = (\<lambda>x. ns_sent S (node p q x) (node p q (other x))), bs_calls = (\<lambda>x. ns_calls S (node p q x) (node p q (other x))),
      bs_handled = (\<lambda>x. ns_handled S (node p q x) (node p q (other x)))\<rparr>"

lemma node_eq: "p \<noteq> q \<Longrightarrow> node p q x = node p q y \<longleftrightarrow> x = y"
  by (cases x; cases y) auto

lemma pair_config_simps [simp]:
  "bc_peer (pair_config G p q) x = nc_peer G (node p q x) (node p q (other x))"
  "bc_env (pair_config G p q) x = nc_env G (node p q x)" "bc_start (pair_config G p q) x = nc_start G (node p q x)"
  by (simp_all add: pair_config_def)

lemma pair_of_simps [simp]:
  "bs_state (pair_of S p q) x = ns_state S (node p q x)"
  "bs_wire (pair_of S p q) x = ns_wire S (node p q x) (node p q (other x))"
  "bs_sent (pair_of S p q) x = ns_sent S (node p q x) (node p q (other x))"
  "bs_calls (pair_of S p q) x = ns_calls S (node p q x) (node p q (other x))"
  "bs_handled (pair_of S p q) x = ns_handled S (node p q x) (node p q (other x))"
  by (simp_all add: pair_of_def)

text \<open>An update of one process, and of what it has to do with one other, as the pairs see it.\<close>

lemma node_upd:
  assumes "p \<noteq> q"
  shows "(\<lambda>x. if node p q x = node p q y then v else f (node p q x)) = (\<lambda>x. f (node p q x))(y := v)"
  using assms by (auto simp: fun_eq_iff node_eq)

lemma node_upd2:
  assumes "p \<noteq> q"
  shows "(\<lambda>x. upd2 f (node p q y) (node p q (other y)) v (node p q x) (node p q (other x))) =
    (\<lambda>x. f (node p q x) (node p q (other x)))(y := v)"
  using assms by (auto simp: fun_eq_iff node_eq upd2_def)

lemma pair_upd2_other:
  assumes "\<And>x. (a, b) \<noteq> (node p q x, node p q (other x))"
  shows "(\<lambda>x. upd2 f a b v (node p q x) (node p q (other x))) = (\<lambda>x. f (node p q x) (node p q (other x)))"
proof
  fix x
  show "upd2 f a b v (node p q x) (node p q (other x)) = f (node p q x) (node p q (other x))"
    using assms [of x] by (intro upd2_other) auto
qed

section \<open>What an event leaves alone\<close>

lemma message_elsewhere:
  assumes "poll_ok T" and "open_conn s i c" and "spares i E" and "spares j E" and "j \<noteq> i"
  shows "same_at j s (fst (on_incoming_data T E start i n m (s, w)))"
proof (cases "is_answer T m")
  case True
  then show ?thesis
    using assms(5)
    by (auto simp: is_answer_def same_at_def put_parser_def on_incoming_data_def on_incoming_result_def on_incoming_exception_def
        Let_def simp del: deliver.simps split: sum.splits option.split)
next
  case False
  from request_handled [OF assms(1-3) this, of n start w] assms(4,5) show ?thesis
    unfolding answer_queued_def by blast
qed

lemma on_conn_elsewhere: "j \<noteq> i \<Longrightarrow> same_at j (fst st) (fst (on_conn i f st))"
  by (simp add: same_at_def on_conn_def with_conn_def split: option.split)

lemma input_message_elsewhere:
  assumes "poll_ok T" and "open_conn (fst st) i c0" and "conn_service c = i" and "spares i E" and "spares j E" and "j \<noteq> i"
  shows "same_at j (fst st) (fst (input_message (on_incoming_data T E start) i c m st)) \<and>
    (\<exists>c1. open_conn (fst (input_message (on_incoming_data T E start) i c m st)) i c1 \<and> conn_service c1 = conn_service c0)"
proof -
  let ?st1 = "on_conn i (\<lambda>c'. c'\<lparr>conn_read_serial := conn_read_serial c + 1\<rparr>) st"
  let ?st2 = "on_incoming_data T E start i (conn_read_serial c) m ?st1"
  have c1: "open_conn (fst ?st1) i (c0\<lparr>conn_read_serial := conn_read_serial c + 1\<rparr>)"
    using assms(2) by (simp add: open_conn_def on_conn_def with_conn_lookup)
  from on_incoming_data_open [OF assms(1) this assms(4), of start "conn_read_serial c" m "snd ?st1", unfolded prod.collapse]
  obtain c2 where c2: "open_conn (fst ?st2) i c2" "conn_service c2 = conn_service c0"
    by auto
  have "same_at j (fst ?st1) (fst ?st2)"
    using message_elsewhere [OF assms(1) c1 assms(4-6), of start "conn_read_serial c" m "snd ?st1"] unfolding prod.collapse .
  with on_conn_elsewhere [OF assms(6)] have "same_at j (fst st) (fst (on_conn i (\<lambda>c. c\<lparr>conn_read_task := new_read_task\<rparr>) ?st2))"
    by (meson same_at_trans)
  moreover have "open_conn (fst (on_conn i (\<lambda>c. c\<lparr>conn_read_task := new_read_task\<rparr>) ?st2)) i (c2\<lparr>conn_read_task := new_read_task\<rparr>)"
    using c2(1) by (simp add: open_conn_def on_conn_def with_conn_lookup)
  ultimately show ?thesis
    using assms(3) c2(2) by (auto simp: input_message_def Let_def)
qed

lemma input_loop_elsewhere:
  assumes T: "poll_ok T" and E: "spares i E" "spares j E" "j \<noteq> i"
  shows "open_conn (fst st) i c \<Longrightarrow> conn_service c = i \<Longrightarrow>
    same_at j (fst st) (fst (input_loop T (on_incoming_data T E start) i d st))"
proof (rule input_loop_induct [where Q = "\<lambda>d st r. \<forall>c. open_conn (fst st) i c \<longrightarrow> conn_service c = i \<longrightarrow> same_at j (fst st) (fst r)",
      THEN spec, THEN mp, THEN mp], goal_cases)
  case (1 d st)
  then show ?case by simp
next
  case (2 d st c n t r)
  show ?case
  proof (intro allI impI)
    fix c' assume c': "open_conn (fst st) i c'" "conn_service c' = i"
    let ?st1 = "on_conn i (\<lambda>c. c\<lparr>conn_read_task := t\<rparr>) st"
    have "open_conn (fst ?st1) i (c'\<lparr>conn_read_task := t\<rparr>)" "conn_service (c'\<lparr>conn_read_task := t\<rparr>) = i"
      using c' by (simp_all add: open_conn_def on_conn_def with_conn_lookup)
    then have "same_at j (fst ?st1) (fst r)"
      using 2(7) by blast
    with on_conn_elsewhere [OF E(3), of st] show "same_at j (fst st) (fst r)"
      by (meson same_at_trans)
  qed
next
  case (3 d st c n t r)
  show ?case
  proof (intro allI impI)
    fix c' assume c': "open_conn (fst st) i c'" "conn_service c' = i"
    let ?st1 = "on_conn i (\<lambda>c. c\<lparr>conn_read_task := t\<rparr>) st"
    have "c' = c" using c'(1) 3(3) by (simp add: open_conn_def)
    have "open_conn (fst ?st1) i (c\<lparr>conn_read_task := t\<rparr>)"
      using c' \<open>c' = c\<close> by (simp add: open_conn_def on_conn_def with_conn_lookup)
    from input_message_elsewhere [OF T this _ E, of c start "rt_data t"] c' \<open>c' = c\<close> obtain c1 where
      "same_at j (fst ?st1) (fst (input_message (on_incoming_data T E start) i c (rt_data t) ?st1))"
      "open_conn (fst (input_message (on_incoming_data T E start) i c (rt_data t) ?st1)) i c1" "conn_service c1 = i"
      by auto
    note msg = this
    have "same_at j (fst (input_message (on_incoming_data T E start) i c (rt_data t) ?st1)) (fst r)"
      using 3(7) msg(2,3) by blast
    from same_at_trans [OF on_conn_elsewhere [OF E(3)] same_at_trans [OF msg(1) this]] show "same_at j (fst st) (fst r)" .
  qed
qed simp_all

section \<open>Every pair is a bus\<close>

lemma net_okE:
  assumes "net_ok G" and "(p, q) \<in> nc_links G"
  shows "p \<noteq> q" "(q, p) \<in> nc_links G" "spares (nc_peer G p q) (nc_env G p)"
    "(p, r) \<in> nc_links G \<Longrightarrow> r \<noteq> q \<Longrightarrow> nc_peer G p r \<noteq> nc_peer G p q"
  using assms unfolding net_ok_def by blast+

lemma isolated_pair: "net_ok G \<Longrightarrow> (p, q) \<in> nc_links G \<Longrightarrow> isolated (pair_config G p q)"
  unfolding isolated_def by (intro allI, case_tac x) (auto dest: net_okE)

lemma pair_elsewhere:
  assumes ok: "net_ok G" "(p, q) \<in> nc_links G"
    and same: "\<forall>r. (a, r) \<in> nc_links G \<longrightarrow> r \<noteq> b \<longrightarrow> same_at (nc_peer G a r) (fst (ns_state S a)) (fst st)"
    and out: "\<And>x. (a, b) \<noteq> (node p q x, node p q (other x))"
    and S': "pair_of S' p q = pair_of (S\<lparr>ns_state := (ns_state S)(a := st)\<rparr>) p q"
  shows "(bus_step T (pair_config G p q))\<^sup>*\<^sup>* (pair_of S p q) (pair_of S' p q)"
proof (cases "\<exists>y. a = node p q y")
  case True
  then obtain y where y: "a = node p q y" by blast
  have "(a, node p q (other y)) \<in> nc_links G"
    using ok net_okE(2) [OF ok] by (cases y) (simp_all add: y)
  with same out [of y] have "same_at (bc_peer (pair_config G p q) y) (fst (bs_state (pair_of S p q) y)) (fst st)"
    by (simp add: y)
  from bus_elsewhere [where T = T, OF this]
  have "bus_step T (pair_config G p q) (pair_of S p q) ((pair_of S p q)\<lparr>bs_state := (bs_state (pair_of S p q))(y := st)\<rparr>)" .
  moreover have "pair_of (S\<lparr>ns_state := (ns_state S)(a := st)\<rparr>) p q = (pair_of S p q)\<lparr>bs_state := (bs_state (pair_of S p q))(y := st)\<rparr>"
    by (simp add: pair_of_def y node_upd [OF net_okE(1) [OF ok]])
  ultimately show ?thesis
    by (simp add: S' r_into_rtranclp)
next
  case False
  then have "pair_of (S\<lparr>ns_state := (ns_state S)(a := st)\<rparr>) p q = pair_of S p q"
    by (auto simp: pair_of_def fun_eq_iff)
  then show ?thesis by (simp add: S')
qed

definition net_inv :: "toolkit \<Rightarrow> ('p, 'o, 'w) net_config \<Rightarrow> ('p, 'o, 'w) net \<Rightarrow> bool" where
  "net_inv T G S \<longleftrightarrow> (\<forall>p q. (p, q) \<in> nc_links G \<longrightarrow> bus_inv T (pair_config G p q) (pair_of S p q))"

lemma net_inv_open:
  assumes "net_inv T G S" and "(p, q) \<in> nc_links G"
  obtains c where "open_conn (fst (ns_state S p)) (nc_peer G p q) c" "conn_service c = nc_peer G p q"
proof -
  have "end_open (pair_config G p q) (pair_of S p q) Left_End"
    using assms by (simp add: net_inv_def bus_inv_def)
  then have "open_conn (fst (ns_state S p)) (nc_peer G p q) (end_conn (pair_config G p q) (pair_of S p q) Left_End)"
      "conn_service (end_conn (pair_config G p q) (pair_of S p q) Left_End) = nc_peer G p q"
    by (simp_all add: end_open_def)
  then show ?thesis by (rule that)
qed

text \<open>An event of \<open>a\<close> on its connection to \<open>b\<close> leaves the other connections of \<open>a\<close> alone.\<close>

lemma put_parser_elsewhere: "j \<noteq> i \<Longrightarrow> same_at j s (put_parser i n p s') = same_at j s s'"
  by (simp add: same_at_def put_parser_def)

lemma invoke_elsewhere:
  assumes "poll_ok T" and "open_conn (fst st) i c" and "session_invoke T E start t i obj m args st = (Inr n, st')" and "j \<noteq> i"
  shows "same_at j (fst st) (fst st')"
  using session_invoke_open [where E = E and start = start and w = "snd st", OF assms(1,2), of t obj m args] assms(3,4)
  by (auto simp: put_parser_elsewhere)

lemma release_elsewhere:
  assumes "poll_ok T" and "open_conn (fst st) i c" and "j \<noteq> i"
  shows "same_at j (fst st) (fst (session_release T E start i obj st))"
  using make_request_open [where E = E and start = start and w = "snd st", OF assms(1,2), of request_release "object_id_write obj"] assms(3)
  by (simp add: session_release_def)

lemma output_elsewhere:
  assumes "handle_socket_event T E start i output_event w rd st = (None, st')" and "j \<noteq> i"
  shows "same_at j (fst st) (fst st')"
  using assms
  by (auto simp: handle_socket_event_def output_event_def same_at_def with_conn_def Let_def split: prod.splits option.splits)

lemma receive_elsewhere:
  assumes "poll_ok T" and "spares i E" and "spares j E" and "j \<noteq> i" and "open_conn (fst st) i c" and "conn_service c = i"
    and "d \<noteq> []" and "receive_bytes T E start i d st = (None, st')"
  shows "same_at j (fst st) (fst st')"
  using input_loop_elsewhere [OF assms(1-6), of start d] receive_bytes_loop [of st i c d T E start] assms(5,7,8)
  by (simp add: open_conn_def)

lemma net_event_pair:
  assumes ok: "net_ok G" "(p, q) \<in> nc_links G"
    and same: "\<forall>r. (a, r) \<in> nc_links G \<longrightarrow> r \<noteq> b \<longrightarrow> same_at (nc_peer G a r) (fst (ns_state S a)) (fst st)"
    and inside: "\<And>x. a = node p q x \<Longrightarrow> b = node p q (other x) \<Longrightarrow> bus_step T (pair_config G p q) (pair_of S p q) (pair_of S' p q)"
    and outside: "\<lbrakk>\<And>x. (a, b) \<noteq> (node p q x, node p q (other x)); \<And>x. (b, a) \<noteq> (node p q x, node p q (other x))\<rbrakk> \<Longrightarrow>
      pair_of S' p q = pair_of (S\<lparr>ns_state := (ns_state S)(a := st)\<rparr>) p q"
  shows "(bus_step T (pair_config G p q))\<^sup>*\<^sup>* (pair_of S p q) (pair_of S' p q)"
proof (cases "\<exists>x. a = node p q x \<and> b = node p q (other x)")
  case True
  with inside show ?thesis by blast
next
  case False
  then have "(a, b) \<noteq> (node p q x, node p q (other x))" "(b, a) \<noteq> (node p q x, node p q (other x))" for x
    using False by (auto dest: spec [of _ "other x"])
  from pair_elsewhere [OF ok same this(1) outside [OF this]] show ?thesis .
qed

text \<open>
  The four events of a connection, as a pair sees them: its own event, if they are the two ends, and
  otherwise something else that one of the two does, or nothing.
\<close>

lemmas pair_upd = pair_of_def node_upd node_upd2

lemma node_upd2_wire:
  "p \<noteq> q \<Longrightarrow> (\<lambda>x. upd2 f (node p q (other y)) (node p q y) v (node p q x) (node p q (other x))) =
    (\<lambda>x. f (node p q x) (node p q (other x)))(other y := v)"
  using node_upd2 [of p q f "other y" v] by simp

lemma net_invoke_pair:
  assumes T: "poll_ok T" and ok: "net_ok G" "(p, q) \<in> nc_links G" and inv: "net_inv T G S" and link: "(a, b) \<in> nc_links G"
    and r: "session_invoke T (nc_env G a) (nc_start G a) t (nc_peer G a b) i m args (ns_state S a) = (Inr n, st)"
    and new: "new = sent_since (nc_peer G a b) (fst (ns_state S a)) (fst st)" "short new"
    and S': "S' = S\<lparr>ns_state := (ns_state S)(a := st), ns_sent := upd2 (ns_sent S) a b (ns_sent S a b @ new),
      ns_calls := upd2 (ns_calls S) a b (ns_calls S a b @ [(n, t)])\<rparr>"
  shows "(bus_step T (pair_config G p q))\<^sup>*\<^sup>* (pair_of S p q) (pair_of S' p q)"
proof (rule net_event_pair [OF ok, where a = a and b = b and st = st], goal_cases)
  case 1
  obtain c where c: "open_conn (fst (ns_state S a)) (nc_peer G a b) c"
    using net_inv_open [OF inv link] by metis
  show ?case
    using invoke_elsewhere [OF T c r] net_okE(4) [OF ok(1) link] by blast
next
  case (2 x)
  then show ?case
    using bus_invoke [where T = T and G = "pair_config G p q" and B = "pair_of S p q" and x = x, of t i m args n st new] r new
    by (simp add: S') (simp add: pair_upd net_okE(1) [OF ok])
next
  case 3
  then show ?case by (simp add: S' pair_of_def pair_upd2_other)
qed

lemma net_release_pair:
  assumes T: "poll_ok T" and ok: "net_ok G" "(p, q) \<in> nc_links G" and inv: "net_inv T G S" and link: "(a, b) \<in> nc_links G"
    and r: "session_release T (nc_env G a) (nc_start G a) (nc_peer G a b) i (ns_state S a) = st"
    and new: "new = sent_since (nc_peer G a b) (fst (ns_state S a)) (fst st)" "short new"
    and S': "S' = S\<lparr>ns_state := (ns_state S)(a := st), ns_sent := upd2 (ns_sent S) a b (ns_sent S a b @ new)\<rparr>"
  shows "(bus_step T (pair_config G p q))\<^sup>*\<^sup>* (pair_of S p q) (pair_of S' p q)"
proof (rule net_event_pair [OF ok, where a = a and b = b and st = st], goal_cases)
  case 1
  obtain c where c: "open_conn (fst (ns_state S a)) (nc_peer G a b) c"
    using net_inv_open [OF inv link] by metis
  show ?case
    using release_elsewhere [OF T c] r net_okE(4) [OF ok(1) link] by blast
next
  case (2 x)
  then show ?case
    using bus_release [where T = T and G = "pair_config G p q" and B = "pair_of S p q" and x = x, of i st new] r new
    by (simp add: S') (simp add: pair_upd net_okE(1) [OF ok])
next
  case 3
  then show ?case by (simp add: S' pair_of_def pair_upd2_other)
qed

lemma net_output_pair:
  assumes ok: "net_ok G" "(p, q) \<in> nc_links G" and link: "(a, b) \<in> nc_links G"
    and c: "ss_connections (fst (ns_state S a)) (nc_peer G a b) = Some c" "conn_out c"
    and w: "\<forall>b r. w b = Inr r \<longrightarrow> r \<le> length b" "conn_output T w c = (None, c', out)"
    and r: "handle_socket_event T (nc_env G a) (nc_start G a) (nc_peer G a b) output_event w rd (ns_state S a) = (None, st)"
    and S': "S' = S\<lparr>ns_state := (ns_state S)(a := st), ns_wire := upd2 (ns_wire S) a b (ns_wire S a b @ out)\<rparr>"
  shows "(bus_step T (pair_config G p q))\<^sup>*\<^sup>* (pair_of S p q) (pair_of S' p q)"
proof (rule net_event_pair [OF ok, where a = a and b = b and st = st], goal_cases)
  case 1
  show ?case
    using output_elsewhere [OF r] net_okE(4) [OF ok(1) link] by blast
next
  case (2 x)
  then show ?case
    using bus_output [where T = T and G = "pair_config G p q" and B = "pair_of S p q" and x = x, of c w c' out rd st] c w r
    by (simp add: S') (simp add: pair_upd net_okE(1) [OF ok])
next
  case 3
  then show ?case by (simp add: S' pair_of_def pair_upd2_other)
qed

lemma net_input_pair:
  assumes T: "poll_ok T" and ok: "net_ok G" "(p, q) \<in> nc_links G" and inv: "net_inv T G S" and link: "(a, b) \<in> nc_links G"
    and wire: "ns_wire S b a = chunk @ rest" "chunk \<noteq> []"
    and r: "receive_bytes T (nc_env G a) (nc_start G a) (nc_peer G a b) chunk (ns_state S a) = (None, st)"
    and w: "watched_input T (nc_env G a) (nc_start G a) (nc_peer G a b) chunk (ns_state S a) (ns_handled S a b) = ns_handled S a b @ l"
      "short (replies l)"
    and S': "S' = S\<lparr>ns_state := (ns_state S)(a := st), ns_wire := upd2 (ns_wire S) b a rest,
      ns_sent := upd2 (ns_sent S) a b (ns_sent S a b @ replies l), ns_handled := upd2 (ns_handled S) a b (ns_handled S a b @ l)\<rparr>"
  shows "(bus_step T (pair_config G p q))\<^sup>*\<^sup>* (pair_of S p q) (pair_of S' p q)"
proof (rule net_event_pair [OF ok, where a = a and b = b and st = st], goal_cases)
  case 1
  obtain c where c: "open_conn (fst (ns_state S a)) (nc_peer G a b) c" "conn_service c = nc_peer G a b"
    using net_inv_open [OF inv link] by metis
  show ?case
  proof (intro allI impI)
    fix x assume x: "(a, x) \<in> nc_links G" "x \<noteq> b"
    show "same_at (nc_peer G a x) (fst (ns_state S a)) (fst st)"
      by (rule receive_elsewhere [OF T net_okE(3) [OF ok(1) link] net_okE(3) [OF ok(1) x(1)] net_okE(4) [OF ok(1) link x] c wire(2) r])
  qed
next
  case (2 x)
  then show ?case
    using bus_input [where T = T and G = "pair_config G p q" and B = "pair_of S p q" and x = x, of chunk rest st l] wire r w
    by (simp add: S') (simp add: pair_upd node_upd2_wire net_okE(1) [OF ok])
next
  case 3
  then show ?case by (simp add: S' pair_of_def pair_upd2_other)
qed

lemma net_step_pair:
  assumes T: "poll_ok T" and ok: "net_ok G" "(p, q) \<in> nc_links G" and inv: "net_inv T G S" and step: "net_step T G S S'"
  shows "(bus_step T (pair_config G p q))\<^sup>*\<^sup>* (pair_of S p q) (pair_of S' p q)"
  using step
proof cases
  case (net_invoke a b t i m args n st new)
  then show ?thesis by (intro net_invoke_pair [OF T ok inv net_invoke(2-5)])
next
  case (net_release a b i st new)
  then show ?thesis by (intro net_release_pair [OF T ok inv net_release(2-5)])
next
  case (net_output a b c w c' out rd st)
  then show ?thesis by (intro net_output_pair [OF ok net_output(2-7)])
next
  case (net_input a b chunk rest st l)
  then show ?thesis by (intro net_input_pair [OF T ok inv net_input(2-7)])
next
  case (net_elsewhere a st)
  show ?thesis
  proof (rule net_event_pair [OF ok, where a = a and b = a and st = st], goal_cases)
    case (2 x)
    then show ?case using net_okE(1) [OF ok] by (simp add: node_eq)
  qed (use net_elsewhere in auto)
qed

lemma pair_of_init: "pair_of (init_net st) p q = init_system (\<lambda>x. st (node p q x))"
  by (simp add: pair_of_def init_net_def init_system_def)

lemma pair_connected:
  assumes "net_ok G" and "net_connected G st" and "(p, q) \<in> nc_links G"
  shows "connected (pair_config G p q) (\<lambda>x. st (node p q x))"
  unfolding connected_def
proof
  fix x
  have "(node p q x, node p q (other x)) \<in> nc_links G"
    using assms(3) net_okE(2) [OF assms(1,3)] by (cases x) simp_all
  with assms(2) show "ss_connections (fst (st (node p q x))) (bc_peer (pair_config G p q) x) =
      Some (mk_accepted_connection (bc_peer (pair_config G p q) x)) \<and>
    ss_requests (fst (st (node p q x))) (bc_peer (pair_config G p q) x) = None"
    by (simp add: net_connected_def)
qed

lemma net_inv_init:
  assumes "net_ok G" and "net_connected G st"
  shows "net_inv T G (init_net st)"
  unfolding net_inv_def pair_of_init using bus_inv_init [OF pair_connected [OF assms]] by blast

lemma net_inv_step:
  assumes T: "le_ok T" "buf_ok T" "bson_ok T" "poll_ok T" and ok: "net_ok G" and inv: "net_inv T G S" and step: "net_step T G S S'"
  shows "net_inv T G S'"
  unfolding net_inv_def
proof (intro allI impI)
  fix p q assume pq: "(p, q) \<in> nc_links G"
  have "bus_inv T (pair_config G p q) (pair_of S p q)"
    using inv pq by (simp add: net_inv_def)
  from bus_inv_steps [OF T isolated_pair [OF ok pq] net_step_pair [OF T(4) ok pq inv step] this]
  show "bus_inv T (pair_config G p q) (pair_of S' p q)" .
qed

lemma net_steps_pair:
  assumes T: "le_ok T" "buf_ok T" "bson_ok T" "poll_ok T" and ok: "net_ok G" "net_connected G st"
  shows "(net_step T G)\<^sup>*\<^sup>* (init_net st) S \<Longrightarrow> net_inv T G S \<and>
    (\<forall>p q. (p, q) \<in> nc_links G \<longrightarrow>
      (bus_step T (pair_config G p q))\<^sup>*\<^sup>* (init_system (\<lambda>x. st (node p q x))) (pair_of S p q))"
proof (induction rule: rtranclp_induct)
  case base
  then show ?case
    using net_inv_init [OF ok] by (simp add: pair_of_init)
next
  case (step S S')
  then have "net_inv T G S" by blast
  from net_inv_step [OF T ok(1) this step.hyps(2)] net_step_pair [OF T(4) ok(1) _ this step.hyps(2)] step.IH show ?case
    by (meson rtranclp_trans)
qed

section \<open>A small network\<close>

text \<open>For the witnesses: two clients of one service; the first one calls it.\<close>

datatype demo_node = Node_A | Node_B | Node_Service

fun demo_node_name :: "demo_node \<Rightarrow> service_id" where
  "demo_node_name Node_A = \<lparr>Name = ''a'', Version = 1\<rparr>"
| "demo_node_name Node_B = \<lparr>Name = ''b'', Version = 1\<rparr>"
| "demo_node_name Node_Service = demo_random"

definition demo_net :: "(demo_node, nat, nat) net_config" where
  "demo_net = \<lparr>nc_links = {(Node_A, Node_Service), (Node_Service, Node_A), (Node_B, Node_Service), (Node_Service, Node_B)},
     nc_peer = (\<lambda>p. demo_node_name), nc_env = (\<lambda>p. demo_random_env), nc_start = (\<lambda>p. demo_random_start)\<rparr>"

definition demo_net_states :: "demo_node \<Rightarrow> (nat, nat) state" where
  "demo_net_states p =
     (if p = Node_Service
      then (empty_session\<lparr>ss_connections := [demo_node_name Node_A \<mapsto> mk_accepted_connection (demo_node_name Node_A),
              demo_node_name Node_B \<mapsto> mk_accepted_connection (demo_node_name Node_B)],
              ss_local_objects := [mk_object_id demo_random 0 \<mapsto> 5]\<rparr>, 0)
      else (demo_client_session, 0))"

lemma demo_net_ok [simp]: "net_ok demo_net"
proof -
  have "spares i demo_random_env" for i
    by (rule spares_on_world) (auto simp: demo_random_env_def)
  then show ?thesis
    by (auto simp: net_ok_def demo_net_def demo_random_def)
qed

lemma demo_net_connected [simp]: "net_connected demo_net demo_net_states"
  by (auto simp: net_connected_def demo_net_def demo_net_states_def demo_client_session_def empty_session_def demo_random_def)

lemma demo_net_call:
  "\<exists>S. (net_step demo_toolkit demo_net)\<^sup>*\<^sup>* (init_net demo_net_states) S \<and> ns_calls S Node_A Node_Service = [(0, TU32)] \<and>
    ns_handled S = (\<lambda>_ _. []) \<and> length (ns_sent S Node_A Node_Service) \<le> 1 \<and> ns_sent S Node_Service Node_A = []"
proof -
  let ?T = demo_toolkit and ?m = "\<lparr>Method_Service = demo_random, Method_Name = ''getInteger''\<rparr>"
  let ?i = "mk_object_id demo_random 0" and ?c = "mk_accepted_connection demo_random" and ?I = "init_net demo_net_states"
  have c: "open_conn demo_client_session demo_random ?c"
    by (simp add: open_conn_def demo_client_session_def mk_accepted_connection_def)
  let ?s = "put_parser demo_random 0 (mk_response_parser TU32) (queue_message ?T demo_random ?c demo_request demo_client_session)"
  have st: "ss_connections ?s = (ss_connections demo_client_session)(demo_random \<mapsto> snd (conn_enqueue ?T (frame ?T demo_request) ?c))"
    by (simp add: put_parser_def queue_message_def message_bytes_frame)
  have inv: "session_invoke ?T (nc_env demo_net Node_A) (nc_start demo_net Node_A) TU32 (nc_peer demo_net Node_A Node_Service) ?i ?m [VU32 100]
      (ns_state ?I Node_A) = (Inr 0, (?s, 0))"
    using session_invoke_open [where E = demo_random_env and start = demo_random_start and w = 0, OF demo_poll_ok c, of TU32 ?i ?m "[VU32 100]"]
    by (simp add: demo_net_def init_net_def demo_net_states_def demo_request_def)
  have "[demo_request] = sent_since (nc_peer demo_net Node_A Node_Service) (fst (ns_state ?I Node_A)) (fst (?s, 0 :: nat))"
    using queued_sent(1) [OF demo_le_ok demo_poll_ok c st] by (simp add: demo_net_def init_net_def demo_net_states_def)
  note step = net_invoke [OF _ inv this demo_request_short]
  have "(Node_A, Node_Service) \<in> nc_links demo_net"
    by (simp add: demo_net_def)
  from step [OF this] show ?thesis
    by - (rule exI, rule conjI, rule r_into_rtranclp, assumption, simp add: init_net_def upd2_def)
qed

section \<open>Properties\<close>

text \<open>
  C7: in a network every pair of processes is on its own. Let any number of processes be connected,
  each to any number of others, and let them call, release, write and read in any order. What any two
  connected processes do with each other is a run of the system of two processes of \<open>Bus_System\<close>: the
  sessions that they share with their other connections do not let these interfere. All that
  is proved of two processes, in particular that each direction implements a link, holds of each pair.
\<close>

theorem network_refines_pairs:
  assumes "le_ok T" and "buf_ok T" and "bson_ok T" and "poll_ok T" and "net_ok G" and "net_connected G st"
    and "(net_step T G)\<^sup>*\<^sup>* (init_net st) S" and "(p, q) \<in> nc_links G"
  shows "(bus_step T (pair_config G p q))\<^sup>*\<^sup>* (init_system (\<lambda>x. st (node p q x))) (pair_of S p q)"
  using net_steps_pair [OF assms(1-7)] assms(8) by blast

theorem network_refines_pairs_witness:
  "\<exists>S. ns_calls S Node_A Node_Service = [(0, TU32)] \<and> (net_step demo_toolkit demo_net)\<^sup>*\<^sup>* (init_net demo_net_states) S \<and>
    (bus_step demo_toolkit (pair_config demo_net Node_B Node_Service))\<^sup>*\<^sup>*
      (init_system (\<lambda>x. demo_net_states (node Node_B Node_Service x))) (pair_of S Node_B Node_Service)"
proof -
  obtain S where S: "(net_step demo_toolkit demo_net)\<^sup>*\<^sup>* (init_net demo_net_states) S" "ns_calls S Node_A Node_Service = [(0, TU32)]"
    using demo_net_call by blast
  have "(Node_B, Node_Service) \<in> nc_links demo_net" by (simp add: demo_net_def)
  from network_refines_pairs [OF demo_le_ok demo_buf_ok demo_bson_ok demo_poll_ok demo_net_ok demo_net_connected S(1) this] S
  show ?thesis by blast
qed

text \<open>
  C6: in a network every call gets its own answer. However many processes call each other, and in
  whatever order they act, a call that \<open>p\<close> made on \<open>q\<close> under serial \<open>n\<close> gets at most one answer, which
  is the message that \<open>q\<close> queued for \<open>p\<close> while it handled exactly this request; the parser of the call
  holds exactly what it says, or is untouched while there is none. When nothing is queued or in
  transit between \<open>p\<close> and \<open>q\<close>, whatever happens elsewhere, the call has its answer.
\<close>

theorem network_calls_answered:
  assumes "le_ok T" and "buf_ok T" and "bson_ok T" and "poll_ok T" and "net_ok G" and "net_connected G st"
    and "(net_step T G)\<^sup>*\<^sup>* (init_net st) S" and "(p, q) \<in> nc_links G" and "(n, t) \<in> set (ns_calls S p q)"
    and "length (ns_sent S p q) \<le> 2 ^ 32" and "length (ns_sent S q p) \<le> 2 ^ 32"
  defines "c \<equiv> \<lambda>a b. the (ss_connections (fst (ns_state S a)) (nc_peer G a b))"
  shows "\<exists>slot. get_response_parser (fst (ns_state S p)) (nc_peer G p q) n = Some slot \<and>
    (case filter (answers T n) (map h_message (ns_handled S p q)) of
       [] \<Rightarrow> slot = mk_response_parser t \<and>
         \<not> (ns_wire S p q = [] \<and> ns_wire S q p = [] \<and> conn_write_queue (c p q) = [] \<and> conn_write_queue (c q p) = [])
     | [m] \<Rightarrow> slot = absorb T n m (mk_response_parser t) \<and> rp_finished slot \<and>
         \<lparr>h_serial = n, h_message = ns_sent S p q ! unat n, h_replies = [m]\<rparr> \<in> set (ns_handled S q p)
     | _ \<Rightarrow> False)"
proof -
  let ?G = "pair_config G p q" and ?B = "pair_of S p q"
  have inv: "bus_inv T ?G ?B"
    using net_steps_pair [OF assms(1-7)] assms(8) by (simp add: net_inv_def)
  have b: "bounded ?B"
    unfolding bounded_def using assms(10,11) by (auto intro: side.induct)
  have call: "(n, t) \<in> set (bs_calls ?B Left_End)"
    using assms(9) by simp
  from matched_call [OF inv b call] have m: "\<exists>slot. get_response_parser (fst (ns_state S p)) (nc_peer G p q) n = Some slot \<and>
    (case filter (answers T n) (map h_message (ns_handled S p q)) of
       [] \<Rightarrow> slot = mk_response_parser t
     | [m] \<Rightarrow> slot = absorb T n m (mk_response_parser t) \<and> rp_finished slot \<and>
         \<lparr>h_serial = n, h_message = ns_sent S p q ! unat n, h_replies = [m]\<rparr> \<in> set (ns_handled S q p)
     | _ \<Rightarrow> False)"
    unfolding pair_of_simps pair_config_simps node.simps other.simps .
  have "filter (answers T n) (map h_message (ns_handled S p q)) \<noteq> []"
    if "ns_wire S p q = []" "ns_wire S q p = []" "conn_write_queue (c p q) = []" "conn_write_queue (c q p) = []"
  proof -
    have "\<forall>y. bs_wire ?B y = [] \<and> conn_write_queue (end_conn ?G ?B y) = []"
    proof
      fix y show "bs_wire ?B y = [] \<and> conn_write_queue (end_conn ?G ?B y) = []"
        using that by (cases y) (simp_all add: end_conn_def c_def)
    qed
    from answered_call [OF assms(1) inv b call this] show ?thesis by auto
  qed
  note busy = this
  from m obtain slot where slot: "get_response_parser (fst (ns_state S p)) (nc_peer G p q) n = Some slot"
    and "case filter (answers T n) (map h_message (ns_handled S p q)) of
       [] \<Rightarrow> slot = mk_response_parser t
     | [m] \<Rightarrow> slot = absorb T n m (mk_response_parser t) \<and> rp_finished slot \<and>
         \<lparr>h_serial = n, h_message = ns_sent S p q ! unat n, h_replies = [m]\<rparr> \<in> set (ns_handled S q p)
     | _ \<Rightarrow> False"
    by blast
  then show ?thesis
    using busy by (intro exI [of _ slot] conjI [OF slot]) (cases "filter (answers T n) (map h_message (ns_handled S p q))"; auto)
qed

theorem network_calls_answered_witness:
  "\<exists>S slot. ns_calls S Node_A Node_Service = [(0, TU32)] \<and> (net_step demo_toolkit demo_net)\<^sup>*\<^sup>* (init_net demo_net_states) S \<and>
    get_response_parser (fst (ns_state S Node_A)) demo_random 0 = Some slot \<and> slot = mk_response_parser TU32"
proof -
  obtain S where S: "(net_step demo_toolkit demo_net)\<^sup>*\<^sup>* (init_net demo_net_states) S" "ns_calls S Node_A Node_Service = [(0, TU32)]"
      "ns_handled S = (\<lambda>_ _. [])" "length (ns_sent S Node_A Node_Service) \<le> 1" "ns_sent S Node_Service Node_A = []"
    using demo_net_call by blast
  have l: "(Node_A, Node_Service) \<in> nc_links demo_net" by (simp add: demo_net_def)
  have c: "(0, TU32) \<in> set (ns_calls S Node_A Node_Service)" using S(2) by simp
  have n: "length (ns_sent S Node_A Node_Service) \<le> 2 ^ 32" "length (ns_sent S Node_Service Node_A) \<le> 2 ^ 32"
    using S(4,5) by simp_all
  from network_calls_answered [OF demo_le_ok demo_buf_ok demo_bson_ok demo_poll_ok demo_net_ok demo_net_connected S(1) l c n] S(1-3)
  show ?thesis by (intro exI [of _ S]) (auto simp: demo_net_def)
qed

end
