(* ===== verification/Session_Start.thy ===== *)
theory Session_Start
  imports Idl
begin

text \<open>
  The call by which \<^verbatim>\<open>LocalBusConnection::Connect\<close> has a service started
  (src/src/lib/pbus/LocalBusConnection.cpp), as the program makes it: \<^verbatim>\<open>GetService\<close> for the
  service manager, then its proxy's method \<^verbatim>\<open>start\<close>. The call polls while it waits, the poll
  handles messages, a message may send, and sending may start another service; and a method
  may call other services while a message is handled: the calls nest. The invariants of
  \<open>Session_Inv\<close> are proved for every depth of nesting.
\<close>

section \<open>Starting a service\<close>

text \<open>
  What the call needs besides the session: \<open>bt_implements\<close>, whether a local object is a service
  manager; \<open>bt_local_start\<close>, the method of a local one; \<open>bt_poll\<close>, the toolkit's poll, which
  runs the handlers and therefore gets the environment and the function that starts services;
  \<open>bt_invoke\<close>, the methods of the process's own objects, which may do the same.
\<close>

record ('o, 'w) boot =
  bt_implements :: "'o \<Rightarrow> bool"
  bt_local_start :: "'o \<Rightarrow> string \<Rightarrow> u16 \<Rightarrow> 'w \<Rightarrow> exn option \<times> 'w"
  bt_poll :: "('o, 'w) env \<Rightarrow> ('o, 'w) start_fun \<Rightarrow> ('o, 'w) state \<Rightarrow> (exn + nat) \<times> ('o, 'w) state"
  bt_invoke :: "('o, 'w) env \<Rightarrow> ('o, 'w) start_fun \<Rightarrow> 'o \<Rightarrow> string \<Rightarrow> bytes \<Rightarrow> ('o, 'w) state \<Rightarrow>
    (exn + bytes) \<times> ('o, 'w) state"

definition start_method :: idl_method where
  "start_method = \<lparr>im_name = ''start'', im_args = [TString, TU16], im_result = TUndefined\<rparr>"

text \<open>
  \<^verbatim>\<open>session.GetService<IServiceManager>()->start(_serviceId.Name, _serviceId.Version)\<close>. The
  version becomes the method's 16-bit argument. \<open>None\<close>: the call does not return.
\<close>

definition start_call ::
  "toolkit \<Rightarrow> ('o, 'w) env \<Rightarrow> ('o, 'w) boot \<Rightarrow> ('o, 'w) start_fun \<Rightarrow> service_id \<Rightarrow> ('o, 'w) state \<Rightarrow>
   (exn option \<times> ('o, 'w) state) option" where
  "start_call T E B start i st =
     (case get_service T (bt_implements B) service_manager_if (fst st) of
        (Inl e, s1) \<Rightarrow> Some (Some e, (s1, snd st))
      | (Inr (Local_Service obj), s1) \<Rightarrow>
          (case bt_local_start B obj (Name i) (ucast (Version i)) (snd st) of (e, w1) \<Rightarrow> Some (e, (s1, w1)))
      | (Inr (Remote_Service p), s1) \<Rightarrow>
          map_option (\<lambda>(r, st1). (case r of Inl e \<Rightarrow> Some e | Inr _ \<Rightarrow> None, st1))
            (proxy_call T E start (bt_poll B E start) service_manager_if start_method p
               [VString (Name i), VU16 (ucast (Version i))] (s1, snd st)))"

text \<open>
  A process with its calls nested to depth \<open>n\<close>: the environment and the function that starts
  services. What is not looked into, a call nested deeper or one that does not return, is left to
  \<open>E\<close> and \<open>rest\<close>.
\<close>

primrec nested ::
  "toolkit \<Rightarrow> ('o, 'w) env \<Rightarrow> ('o, 'w) boot \<Rightarrow> ('o, 'w) start_fun \<Rightarrow> nat \<Rightarrow> ('o, 'w) env \<times> ('o, 'w) start_fun" where
  "nested T E B rest 0 = (E, rest)"
| "nested T E B rest (Suc n) =
     (case nested T E B rest n of (E1, start1) \<Rightarrow>
        (E\<lparr>env_invoke := bt_invoke B E1 start1\<rparr>,
         \<lambda>i st. case start_call T E1 B start1 i st of Some r \<Rightarrow> r | None \<Rightarrow> rest i st))"

definition env_depth ::
  "toolkit \<Rightarrow> ('o, 'w) env \<Rightarrow> ('o, 'w) boot \<Rightarrow> ('o, 'w) start_fun \<Rightarrow> nat \<Rightarrow> ('o, 'w) env" where
  "env_depth T E B rest n = fst (nested T E B rest n)"

definition start_depth ::
  "toolkit \<Rightarrow> ('o, 'w) env \<Rightarrow> ('o, 'w) boot \<Rightarrow> ('o, 'w) start_fun \<Rightarrow> nat \<Rightarrow> ('o, 'w) start_fun" where
  "start_depth T E B rest n = snd (nested T E B rest n)"

lemma nested_simps [simp]:
  "env_depth T E B rest 0 = E"
  "env_depth T E B rest (Suc n) = E\<lparr>env_invoke := bt_invoke B (env_depth T E B rest n) (start_depth T E B rest n)\<rparr>"
  "start_depth T E B rest 0 = rest"
  "start_depth T E B rest (Suc n) =
     (\<lambda>i st. case start_call T (env_depth T E B rest n) B (start_depth T E B rest n) i st of
        Some r \<Rightarrow> r | None \<Rightarrow> rest i st)"
  by (simp_all add: env_depth_def start_depth_def split: prod.split)

lemma env_depth_connect [simp]:
  "env_connect (env_depth T E B rest n) = env_connect E" "env_devel (env_depth T E B rest n) = env_devel E"
  by (cases n; simp)+

text \<open>One operation of the process, at any depth of nesting.\<close>

definition process_step ::
  "toolkit \<Rightarrow> ('o, 'w) env \<Rightarrow> ('o, 'w) boot \<Rightarrow> ('o, 'w) start_fun \<Rightarrow> nat \<Rightarrow> ('o, 'w) state \<Rightarrow> ('o, 'w) state \<Rightarrow> bool" where
  "process_step T E B rest n = session_step T (env_depth T E B rest n) (start_depth T E B rest n)"

text \<open>The poll runs handlers of the session, and the methods are operations of the process, nothing else.\<close>

definition poll_steps :: "toolkit \<Rightarrow> ('o, 'w) boot \<Rightarrow> bool" where
  "poll_steps T B \<longleftrightarrow> (\<forall>E start st. (session_step T E start)\<^sup>*\<^sup>* st (snd (bt_poll B E start st)))"

definition invoke_steps :: "toolkit \<Rightarrow> ('o, 'w) boot \<Rightarrow> bool" where
  "invoke_steps T B \<longleftrightarrow> (\<forall>E start obj m d st. (session_step T E start)\<^sup>*\<^sup>* st (snd (bt_invoke B E start obj m d st)))"

section \<open>Starting keeps the invariants\<close>

context session_invariant
begin

lemma wait_response_aux:
  assumes "wait_response poll origin n st = Some res"
  shows "(\<forall>st. P (fst st) \<longrightarrow> P (fst (snd (poll st)))) \<longrightarrow> P (fst st) \<longrightarrow> P (fst (snd res))"
proof (rule wait_response.raw_induct [OF _ assms], intro impI)
  fix wr and poll :: "('o, 'b) state \<Rightarrow> (exn + nat) \<times> ('o, 'b) state" and origin n st res
  assume IH: "\<And>poll origin n st res. wr poll origin n st = Some res \<Longrightarrow>
      (\<forall>st. P (fst st) \<longrightarrow> P (fst (snd (poll st)))) \<longrightarrow> P (fst st) \<longrightarrow> P (fst (snd res))"
    and step: "(case poll st of (Inl e, st1) \<Rightarrow> Some (Inl e, st1)
      | (Inr m, st1) \<Rightarrow>
          if m = 0 then Some (Inl (Exception ''Timed out waiting for reply''), st1)
          else case get_response_parser (fst st1) origin n of None \<Rightarrow> wr poll origin n st1
               | Some p \<Rightarrow> if rp_finished p then Some (Inr p, st1) else wr poll origin n st1) = Some res"
    and keeps: "\<forall>st. P (fst st) \<longrightarrow> P (fst (snd (poll st)))" and st: "P (fst st)"
  obtain r st1 where r: "poll st = (r, st1)" by (cases "poll st")
  then have "P (fst st1)" using keeps st by (metis snd_conv)
  then show "P (fst (snd res))"
    using step IH [of poll origin n st1 res] keeps r by (auto split: sum.splits if_splits option.splits)
qed

lemma session_wait:
  assumes "\<And>st. P (fst st) \<Longrightarrow> P (fst (snd (poll st)))" and "P (fst st)"
    and "session_wait poll t origin n st = Some (r, st_end)"
  shows "P (fst st_end)"
proof -
  obtain res where res: "wait_response poll origin n st = Some res" and "st_end = snd res"
    using assms(3) by (auto simp: session_wait_def split: option.splits sum.splits)
  with wait_response_aux [OF res] assms(1,2) show ?thesis by simp
qed

lemma proxy_call:
  assumes "start_keeps P start" and "\<And>st. P (fst st) \<Longrightarrow> P (fst (snd (poll st)))" and "P (fst st)"
    and "proxy_call T E start poll I m p args st = Some (r, st_end)"
  shows "P (fst st_end)"
proof -
  obtain q st1 where q: "session_invoke T E start (im_result m) (co_origin p) (co_id p)
      \<lparr>Method_Service = if_class I, Method_Name = im_name m\<rparr> args st = (q, st1)"
    by (metis prod.collapse)
  have "P (fst st1)"
    using session_invoke [OF assms(3,1), of T E "im_result m" "co_origin p" "co_id p"
        "\<lparr>Method_Service = if_class I, Method_Name = im_name m\<rparr>" args] by (simp only: q snd_conv)
  show ?thesis
  proof (cases q)
    case (Inl e)
    then have "st_end = st1" using assms(4) by (simp add: proxy_call_def q)
    with \<open>P (fst st1)\<close> show ?thesis by simp
  next
    case (Inr n)
    then have "session_wait poll (im_result m) (co_origin p) n st1 = Some (r, st_end)"
      using assms(4) by (simp add: proxy_call_def q)
    with assms(2) \<open>P (fst st1)\<close> show ?thesis by (rule session_wait)
  qed
qed

lemma register_proxies: "P s \<Longrightarrow> P (register_proxies I s)"
proof -
  have "P s \<Longrightarrow> P (fold (\<lambda>dep. register_proxy c dep False) deps s)" for c deps s
    by (induction deps arbitrary: s) (simp_all add: P_proxy)
  then show "P s \<Longrightarrow> P (register_proxies I s)"
    by (simp add: register_proxies_def P_proxy split: idl_interface.split)
qed

lemma get_service:
  assumes "P s" and "get_service T implements I s = (r, s1)"
  shows "P s1"
proof -
  obtain q s2 where q: "get_local_service (if_class I) s = (q, s2)" by (cases "get_local_service (if_class I) s")
  then have "P s2" using P_local [OF assms(1), of "if_class I"] by simp
  then show ?thesis
    using assms(2) q register_proxies [of s2 I]
    by (auto simp: get_service_def Let_def split: option.splits if_splits sum.splits)
qed

lemma start_call:
  assumes "poll_steps T B" and "start_keeps P start" and "env_keeps P E" and "P (fst st)"
    and "start_call T E B start i st = Some (r, st_end)"
  shows "P (fst st_end)"
proof -
  have poll: "P (fst st) \<Longrightarrow> P (fst (snd (bt_poll B E start st)))" for st
    using steps [OF assms(2,3)] assms(1) unfolding poll_steps_def by blast
  obtain q s1 where q: "get_service T (bt_implements B) service_manager_if (fst st) = (q, s1)"
    by (cases "get_service T (bt_implements B) service_manager_if (fst st)")
  have "P s1" by (rule get_service [OF assms(4) q])
  have remote: "P (fst st1)" if "proxy_call T E start (bt_poll B E start) I m p args (s1, snd st) = Some (r, st1)"
    for I m p args r st1
    by (rule proxy_call [OF assms(2) poll _ that]) (simp_all add: \<open>P s1\<close>)
  show ?thesis
  proof (cases q)
    case (Inl e)
    with assms(5) \<open>P s1\<close> show ?thesis by (auto simp: start_call_def q)
  next
    case (Inr f)
    with assms(5) \<open>P s1\<close> show ?thesis
      by (cases f) (auto simp: start_call_def q split: prod.splits dest!: remote)
  qed
qed

lemma invoke_keeps:
  assumes "invoke_steps T B" and "start_keeps P start" and "env_keeps P E"
  shows "env_keeps P (E'\<lparr>env_invoke := bt_invoke B E start\<rparr>)"
  unfolding env_keeps_def
proof (intro allI impI)
  fix obj m d and st :: "('o, 'a) state"
  assume "P (fst st)"
  moreover have "(session_step T E start)\<^sup>*\<^sup>* st (snd (bt_invoke B E start obj m d st))"
    using assms(1) unfolding invoke_steps_def by blast
  ultimately show "P (fst (snd (env_invoke (E'\<lparr>env_invoke := bt_invoke B E start\<rparr>) obj m d st)))"
    using steps [OF assms(2,3)] by simp
qed

lemma nested:
  assumes "poll_steps T B" and "invoke_steps T B" and "start_keeps P rest" and "env_keeps P E"
  shows "env_keeps P (env_depth T E B rest n) \<and> start_keeps P (start_depth T E B rest n)"
proof (induction n)
  case 0
  then show ?case by (simp add: assms(3,4))
next
  case (Suc n)
  let ?E = "env_depth T E B rest n" and ?start = "start_depth T E B rest n"
  have keeps: "start_keeps P ?start" "env_keeps P ?E" using Suc by blast+
  have "P (fst (snd (start_depth T E B rest (Suc n) i st)))" if st: "P (fst st)" for i and st :: "('o, 'a) state"
  proof (cases "start_call T ?E B ?start i st")
    case None
    moreover have "P (fst (snd (rest i st)))"
      using st assms(3) unfolding start_keeps_def by blast
    ultimately show ?thesis by simp
  next
    case (Some r)
    obtain e st_end where r: "r = (e, st_end)" by (cases r)
    with Some start_call [OF assms(1) keeps st] show ?thesis by simp
  qed
  with invoke_keeps [OF assms(2) keeps] show ?case
    by (simp add: start_keeps_def del: nested_simps(4))
qed

lemma process_steps:
  assumes "poll_steps T B" and "invoke_steps T B" and "start_keeps P rest" and "env_keeps P E"
    and "(process_step T E B rest n)\<^sup>*\<^sup>* st st'" and "P (fst st)"
  shows "P (fst st')"
  using nested [OF assms(1-4)] steps assms(5,6) unfolding process_step_def by blast

end

lemma start_keeps_conj:
  "start_keeps P start \<Longrightarrow> start_keeps Q start \<Longrightarrow> start_keeps (\<lambda>s. P s \<and> Q s) start"
  by (simp add: start_keeps_def)

interpretation wf: session_invariant session_wf
  unfolding session_wf_def
  by unfold_locales
    (simp_all add: keyed.P_connect typed.P_connect keyed.P_conn typed.P_conn keyed.P_accept typed.P_accept
      keyed.P_local typed.P_local keyed.P_deliver typed.P_deliver keyed.P_new typed.P_new keyed.P_proxy typed.P_proxy
      keyed.P_service typed.P_service del: deliver.simps)

lemma ucast_add_2_16: "(ucast (v + 65536 :: u32) :: u16) = ucast v"
  by transfer (simp, simp add: take_bit_eq_mod)

section \<open>A program that starts\<close>

text \<open>The session after its constructor, which registers the service manager's proxy.\<close>

definition initial_session :: "'o session" where
  "initial_session = register_proxies service_manager_if empty_session"

lemma session_wf_initial: "session_wf initial_session"
  unfolding initial_session_def
  by (rule wf.register_proxies)
    (simp add: session_wf_def conns_keyed_def parsers_typed_def empty_session_def get_response_parser_def)

text \<open>For the witnesses: a poll that finds no event, methods that return nothing, and a rest that fails.\<close>

definition demo_boot :: "(nat, unit) boot" where
  "demo_boot = \<lparr>bt_implements = (\<lambda>obj. False), bt_local_start = (\<lambda>obj name version w. (None, w)),
     bt_poll = (\<lambda>E start st. (Inr 0, st)), bt_invoke = (\<lambda>E start obj m d st. (Inr [], st))\<rparr>"

lemma demo_boot_steps [simp]: "poll_steps T demo_boot" "invoke_steps T demo_boot"
  by (simp_all add: poll_steps_def invoke_steps_def demo_boot_def)

lemma demo_start_keeps [simp]: "start_keeps P demo_start"
  by (simp add: start_keeps_def demo_start_def)

lemma demo_env_keeps [simp]: "env_keeps P (demo_env r)"
  by (simp add: env_keeps_def demo_env_def on_world_def)

abbreviation demo_process_step :: "(nat, unit) state \<Rightarrow> (nat, unit) state \<Rightarrow> bool" where
  "demo_process_step \<equiv> process_step demo_toolkit (demo_env (Inr VUndefined)) demo_boot demo_start 3"

lemmas demo_process = demo_boot_steps demo_start_keeps demo_env_keeps

section \<open>Properties\<close>

text \<open>
  C13: in every state that the program reaches from the start, through any sequence of
  registrations, accepted connections, invocations, releases and socket events, with methods that
  call other services and services started on demand to any depth of nesting, every connection is
  filed under its own service and every response parser holds a value of its own type.
\<close>

theorem reachable_session_wf:
  assumes "poll_steps T B" and "invoke_steps T B" and "start_keeps session_wf rest" and "env_keeps session_wf E"
    and "(process_step T E B rest n)\<^sup>*\<^sup>* (initial_session, w) (s, w')"
  shows "session_wf s"
  using wf.process_steps [OF assms] session_wf_initial by simp

theorem reachable_session_wf_witness:
  "session_wf (fst (snd (session_invoke demo_toolkit (env_depth demo_toolkit (demo_env (Inr VUndefined)) demo_boot demo_start 3)
      (start_depth demo_toolkit (demo_env (Inr VUndefined)) demo_boot demo_start 3) TU32 demo_peer demo_object
      \<lparr>Method_Service = demo_peer, Method_Name = ''get''\<rparr> [] (initial_session, ()))))"
  (is "session_wf (fst (snd ?r))")
proof -
  have "demo_process_step\<^sup>*\<^sup>* (initial_session, ()) (fst (snd ?r), snd (snd ?r))"
    unfolding prod.collapse process_step_def by (intro r_into_rtranclp step_invoke)
  then show ?thesis
    by (rule reachable_session_wf [OF demo_process])
qed

text \<open>
  C36: a response parser is never removed. Once a request has a parser, it has one in every
  later state: \<^verbatim>\<open>Wait\<close> looks the parser up and leaves it, \<^verbatim>\<open>PopResponseParser\<close> is never called, so
  the table of requests grows with every call.
\<close>

theorem parser_never_removed:
  assumes "poll_steps T B" and "invoke_steps T B" and "start_keeps (has_parser origin k) rest"
    and "env_keeps (has_parser origin k) E" and "has_parser origin k s"
    and "(process_step T E B rest n)\<^sup>*\<^sup>* (s, w) (s', w')"
  shows "get_response_parser s' origin k \<noteq> None"
  using pending.process_steps [OF assms(1-4,6)] assms(5) by (simp add: has_parser_def)

theorem parser_never_removed_witness:
  "get_response_parser (snd (get_local_service demo_peer (put_parser demo_peer 0 (mk_response_parser TU32) demo_session)))
     demo_peer 0 \<noteq> None"
proof -
  let ?s = "put_parser demo_peer 0 (mk_response_parser TU32) demo_session"
  have run: "demo_process_step\<^sup>*\<^sup>* (?s, ()) (snd (get_local_service demo_peer ?s), ())"
    unfolding process_step_def by (intro r_into_rtranclp step_local)
  show ?thesis
    by (rule parser_never_removed [OF demo_process _ run]) (simp add: has_parser_def get_put_parser)
qed

text \<open>
  A local object stays where it is. Once an identifier names a local object, every later
  lookup of that identifier finds the same object: it is never replaced, and never removed
  either, since no operation erases from the table and a release is refused.
\<close>

lemma local_object_stable:
  assumes "poll_steps T B" and "invoke_steps T B" and "start_keeps (has_object i obj) rest"
    and "env_keeps (has_object i obj) E" and "ss_local_objects s i = Some obj"
    and "(process_step T E B rest n)\<^sup>*\<^sup>* (s, w) (s', w')"
  shows "find_local_object i s' = (Some obj, s')"
  using object.process_steps [OF assms(1-4,6)] assms(5) by (simp add: has_object_def find_local_object_def)

lemma local_object_stable_witness:
  "let s' = fst (session_release demo_toolkit (env_depth demo_toolkit (demo_env (Inr VUndefined)) demo_boot demo_start 3)
       (start_depth demo_toolkit (demo_env (Inr VUndefined)) demo_boot demo_start 3) demo_peer demo_object (demo_session, ()))
   in find_local_object demo_object s' = (Some 5, s')"
proof -
  define r where "r = session_release demo_toolkit (env_depth demo_toolkit (demo_env (Inr VUndefined)) demo_boot demo_start 3)
    (start_depth demo_toolkit (demo_env (Inr VUndefined)) demo_boot demo_start 3) demo_peer demo_object (demo_session, ())"
  have "demo_process_step\<^sup>*\<^sup>* (demo_session, ()) (fst r, snd r)"
    unfolding process_step_def prod.collapse r_def by (intro r_into_rtranclp step_release)
  from local_object_stable [OF demo_process demo_session_object this] show ?thesis
    unfolding r_def by (simp add: Let_def)
qed

text \<open>
  The version requested of the service manager is the 32-bit version modulo \<open>2 ^ 16\<close>: for two
  versions that differ by 65536 the same request is made, so a service other than the one that
  is missing is started.
\<close>

lemma start_version_truncated:
  "start_call T E B start (i\<lparr>Version := Version i + 65536\<rparr>) st = start_call T E B start i st"
proof -
  have "Name (i\<lparr>Version := Version i + 65536\<rparr>) = Name i"
    and "(ucast (Version (i\<lparr>Version := Version i + 65536\<rparr>)) :: u16) = ucast (Version i)"
    by (simp_all add: ucast_add_2_16)
  then show ?thesis
    unfolding start_call_def by (simp only:)
qed

text \<open>
  Services are started on demand. If there is no connection to a service (other than the
  service manager) and its socket cannot be reached, \<^verbatim>\<open>Send\<close> asks once for the service to be
  started; if that succeeds, leaves the new connection alone, and the socket can be reached
  then, the connection is established, its only queued message is the data sent, and the
  serial returned is 0.
\<close>

lemma connect_on_demand:
  assumes "poll_ok T" and "ss_connections s i = None" and "i \<noteq> service_manager_id"
    and "env_connect E (get_socket_path T (env_devel E) i) w = (Some e, w_tried)"
    and "start i (s\<lparr>ss_connections := (ss_connections s)(i \<mapsto> (mk_connection i)\<lparr>conn_socket := Some Unconnected\<rparr>)\<rparr>, w_tried) =
      (None, (s_up, w_up))"
    and "ss_connections s_up i = Some ((mk_connection i)\<lparr>conn_socket := Some Unconnected\<rparr>)"
    and "env_connect E (get_socket_path T (env_devel E) i) w_up = (None, w_end)"
  shows "\<exists>c. session_send T E start i data (s, w) = (Inr 0, (s_up\<lparr>ss_connections := (ss_connections s_up)(i \<mapsto> c)\<rparr>, w_end)) \<and>
    conn_service c = i \<and> conn_socket c = Some Connected \<and> conn_registered c \<and> conn_out c \<and>
    conn_write_queue c = [mk_write_task data] \<and> conn_write_serial c = 1"
proof -
  have emp: "map_emplace (ss_connections s) i c = (ss_connections s)(i \<mapsto> c)" for c
    using assms(2) by (simp add: map_emplace_def)
  have start: "start (conn_service (mk_connection i))
      (with_conn i (\<lambda>c. c\<lparr>conn_socket := Some Unconnected\<rparr>) (s\<lparr>ss_connections := (ss_connections s)(i \<mapsto> mk_connection i)\<rparr>), w_tried) =
      (None, (s_up, w_up))"
    using assms(5) by (simp add: with_conn_def mk_connection_def)
  show ?thesis
    using assms(1-4,6,7) start
    by (intro exI [of _ "(mk_connection i)\<lparr>conn_socket := Some Connected, conn_registered := True, conn_out := True,
          conn_write_queue := [mk_write_task data], conn_write_serial := 1\<rparr>"], simp add: session_send_def session_connect_def emp conn_send_def conn_open_def Let_def)
      (simp add: with_conn_def mk_connection_def conn_enqueue_registered conn_connected_def)
qed

text \<open>If the service cannot be started, \<^verbatim>\<open>Send\<close> throws what the request to start it threw.\<close>

lemma connect_start_fails:
  assumes "ss_connections s i = None" and "i \<noteq> service_manager_id"
    and "env_connect E (get_socket_path T (env_devel E) i) w = (Some e, w_tried)"
    and "start i (s\<lparr>ss_connections := (ss_connections s)(i \<mapsto> (mk_connection i)\<lparr>conn_socket := Some Unconnected\<rparr>)\<rparr>, w_tried) =
      (Some e', st')"
  shows "session_send T E start i data (s, w) = (Inl e', st')"
proof -
  have emp: "map_emplace (ss_connections s) i c = (ss_connections s)(i \<mapsto> c)" for c
    using assms(1) by (simp add: map_emplace_def)
  have "start (conn_service (mk_connection i))
      (with_conn i (\<lambda>c. c\<lparr>conn_socket := Some Unconnected\<rparr>) (s\<lparr>ss_connections := (ss_connections s)(i \<mapsto> mk_connection i)\<rparr>), w_tried) =
      (Some e', st')"
    using assms(4) by (simp add: with_conn_def mk_connection_def)
  then show ?thesis
    using assms(1-3)
    by (simp add: session_send_def session_connect_def emp conn_send_def conn_open_def Let_def) (simp add: mk_connection_def)
qed

end
