(* ===== verification/Local_Bus.thy ===== *)
theory Local_Bus
  imports Session_Start
begin

text \<open>
  \<^verbatim>\<open>LocalBus\<close> (src/src/lib/pbus/LocalBus.h and .cpp), the listening socket of a process, and
  \<^verbatim>\<open>Application\<close> (Application.h and .cpp), which sets a process up and polls for ever.
\<close>

section \<open>LocalBus\<close>

text \<open>
  The system calls of the constructor, in order; \<open>listen\<close> and \<open>poll_add\<close> give the exception
  that \<^verbatim>\<open>Listen\<close> or \<^verbatim>\<open>Poll::Add\<close> throws. The result of \<^verbatim>\<open>unlink\<close> is ignored.
\<close>

datatype bus_call = Set_Non_Blocking | Unlink string | Listen string | Poll_Add_Accept

definition mk_local_bus ::
  "toolkit \<Rightarrow> bool \<Rightarrow> (string \<Rightarrow> exn option) \<Rightarrow> exn option \<Rightarrow> class_id \<Rightarrow> exn option \<times> bus_call list" where
  "mk_local_bus T devel listen poll_add i =
     (let path = get_socket_path T devel i in
      case listen path of
        Some e \<Rightarrow> (Some e, [Set_Non_Blocking, Unlink path, Listen path])
      | None \<Rightarrow> (poll_add, [Set_Non_Blocking, Unlink path, Listen path, Poll_Add_Accept]))"

text \<open>
  \<^verbatim>\<open>Accept\<close>. \<open>accepted\<close> is the process identifier of the accepted socket's peer, \<open>None\<close> if there
  is no socket; \<open>read_link\<close> is \<^verbatim>\<open>File::ReadLink\<close>. The constructor of the new connection adds its socket to
  the poll, which may throw; then the connection is filed under the service that the name of the
  peer's executable gives.
\<close>

definition local_bus_accept ::
  "toolkit \<Rightarrow> bool \<Rightarrow> nat option \<Rightarrow> (string \<Rightarrow> exn + string) \<Rightarrow> 'o session \<Rightarrow> exn option \<times> 'o session" where
  "local_bus_accept T devel accepted read_link s =
     (case accepted of
        None \<Rightarrow> (None, s)
      | Some pid \<Rightarrow>
          if \<not> devel then (Some (Exception ''implement uid -> service id mapping''), s)
          else
            (case read_link (''/proc/'' @ dec pid @ ''/exe'') of
               Inl e \<Rightarrow> (Some e, s)
             | Inr image_path \<Rightarrow>
                 (case rfind_char (CHR ''/'') image_path of
                    None \<Rightarrow> (Some (Exception ''invalid image path''), s)
                  | Some slash_pos \<Rightarrow>
                      (case class_id_from_string (drop (slash_pos + 1) image_path) of
                         Inl e \<Rightarrow> (Some e, s)
                       | Inr service_id \<Rightarrow>
                           (case tk_poll_add T of
                              Some e \<Rightarrow> (Some e, s)
                            | None \<Rightarrow> (None, add_connection service_id (mk_accepted_connection service_id) s))))))"

text \<open>\<^verbatim>\<open>ConnectionAcceptor\<close>, the handler of the listening socket: whatever the event is, it accepts.\<close>

definition acceptor_handle_event ::
  "toolkit \<Rightarrow> bool \<Rightarrow> nat option \<Rightarrow> (string \<Rightarrow> exn + string) \<Rightarrow> socket_event \<Rightarrow> 'o session \<Rightarrow> exn option \<times> 'o session" where
  "acceptor_handle_event T devel accepted read_link event s = local_bus_accept T devel accepted read_link s"

section \<open>Application\<close>

text \<open>The constructor's loop over \<^verbatim>\<open>argv[1]\<close>, \<^verbatim>\<open>argv[2]\<close>, ...: the flags \<^verbatim>\<open>_notifyParent\<close> and trace.\<close>

primrec app_args :: "string list \<Rightarrow> bool \<times> bool \<Rightarrow> bool \<times> bool" where
  "app_args [] flags = flags"
| "app_args (arg # args) flags =
     app_args args
       (if arg = ''--notify-parent'' then (True, snd flags)
        else if arg = ''--trace'' then (fst flags, True)
        else flags)"

definition app_new :: "string list \<Rightarrow> bool \<times> bool" where
  "app_new argv = app_args (tl argv) (False, False)"

text \<open>
  The whole constructor: the arguments, then the listening socket of the service. Its exception
  leaves the constructor. The trace flag sets the process's log level.
\<close>

record application =
  ap_notify_parent :: bool
  ap_trace :: bool

definition application_new ::
  "toolkit \<Rightarrow> bool \<Rightarrow> (string \<Rightarrow> exn option) \<Rightarrow> exn option \<Rightarrow> service_id \<Rightarrow> string list \<Rightarrow> (exn + application) \<times> bus_call list" where
  "application_new T devel listen poll_add service_id argv =
     (case app_new argv of (notify_parent, trace) \<Rightarrow>
      case mk_local_bus T devel listen poll_add service_id of
        (Some e, calls) \<Rightarrow> (Inl e, calls)
      | (None, calls) \<Rightarrow> (Inr \<lparr>ap_notify_parent = notify_parent, ap_trace = trace\<rparr>, calls))"

text \<open>\<^verbatim>\<open>RegisterService<Service>\<close>\<close>

definition app_register_service :: "idl_interface \<Rightarrow> 'o \<Rightarrow> 'o session \<Rightarrow> 'o session" where
  "app_register_service I instance s = register_service (if_class I) \<lparr>sf_instance = instance\<rparr> s"

text \<open>
  \<^verbatim>\<open>Run\<close>: the signal to the parent, then a loop without an exit. It ends only if a handler or
  the poll throws; \<open>None\<close> says that it runs for ever. From the signal on others may use the process,
  so \<open>notify_parent\<close> is given its whole state at that moment.
\<close>

partial_function (option) app_loop ::
  "(('o, 'w) state \<Rightarrow> (exn + nat) \<times> ('o, 'w) state) \<Rightarrow> ('o, 'w) state \<Rightarrow> (exn \<times> ('o, 'w) state) option" where
  "app_loop poll st =
     (case poll st of
        (Inl e, st1) \<Rightarrow> Some (e, st1)
      | (Inr n, st1) \<Rightarrow> app_loop poll st1)"

definition app_run ::
  "(('o, 'w) state \<Rightarrow> ('o, 'w) state) \<Rightarrow> (('o, 'w) state \<Rightarrow> (exn + nat) \<times> ('o, 'w) state) \<Rightarrow> bool \<Rightarrow> ('o, 'w) state \<Rightarrow>
   (exn \<times> ('o, 'w) state) option" where
  "app_run notify_parent poll notify st =
     app_loop poll (if notify then notify_parent st else st)"

section \<open>Lemmas\<close>

lemma rfind_path: "CHR ''/'' \<notin> set name \<Longrightarrow> rfind_char (CHR ''/'') (dir @ CHR ''/'' # name) = Some (length dir)"
  by simp

lemma accept_image:
  assumes "CHR ''/'' \<notin> set name" and "class_id_from_string name = Inr i"
    and "read_link (''/proc/'' @ dec pid @ ''/exe'') = Inr (dir @ CHR ''/'' # name)"
  shows "local_bus_accept T True (Some pid) read_link s =
    (case tk_poll_add T of Some e \<Rightarrow> (Some e, s) | None \<Rightarrow> (None, add_connection i (mk_accepted_connection i) s))"
  using assms by (simp add: local_bus_accept_def)

lemma from_string_print:
  "fmt_ok T \<Longrightarrow> class_id_wf i \<Longrightarrow> unat (Version i) < 2 ^ 31 \<Longrightarrow>
     class_id_from_string (class_id_to_string T i) = Inr (i\<lparr>Version := 1\<rparr>)"
  by (simp add: class_id_from_string_def class_id_to_string_eq class_id_wf_def stoi_dec mk_class_id_plain)

lemma slash_notin_print:
  "fmt_ok T \<Longrightarrow> CHR ''/'' \<notin> set (Name i) \<Longrightarrow> CHR ''/'' \<notin> set (class_id_to_string T i)"
  by (simp add: class_id_to_string_eq)

lemma app_args_flags:
  "app_args args (n, t) = (n \<or> ''--notify-parent'' \<in> set args, t \<or> ''--trace'' \<in> set args)"
  by (induction args arbitrary: n t) auto

lemma app_loop_throws:
  assumes "app_loop poll st = Some res"
  shows "\<exists>st1. fst (poll st1) = Inl (fst res)"
proof (rule app_loop.raw_induct [OF _ assms])
  fix loop and poll :: "('a, 'b) state \<Rightarrow> (exn + nat) \<times> ('a, 'b) state" and st res
  assume IH: "\<And>poll st res. loop poll st = Some res \<Longrightarrow> \<exists>st1. fst (poll st1) = Inl (fst res)"
    and step: "(case poll st of (Inl e, st1) \<Rightarrow> Some (e, st1) | (Inr n, st1) \<Rightarrow> loop poll st1) = Some res"
  obtain r st1 where r: "poll st = (r, st1)" by (cases "poll st")
  show "\<exists>st1. fst (poll st1) = Inl (fst res)"
  proof (cases r)
    case (Inl e)
    with r step show ?thesis by (intro exI [of _ st]) auto
  next
    case (Inr n)
    with r step show ?thesis by (intro IH [of poll st1 res]) simp
  qed
qed

context session_invariant
begin

lemma local_bus_accept:
  "P s \<Longrightarrow> P (snd (local_bus_accept T devel accepted read_link s))"
  by (auto simp: local_bus_accept_def P_accept split: option.split sum.split)

lemma app_loop:
  assumes "app_loop poll st = Some res"
  shows "(\<forall>st. P (fst st) \<longrightarrow> P (fst (snd (poll st)))) \<longrightarrow> P (fst st) \<longrightarrow> P (fst (snd res))"
proof (rule app_loop.raw_induct [OF _ assms], intro impI)
  fix loop and poll :: "('o, 'b) state \<Rightarrow> (exn + nat) \<times> ('o, 'b) state" and st res
  assume IH: "\<And>poll st res. loop poll st = Some res \<Longrightarrow>
      (\<forall>st. P (fst st) \<longrightarrow> P (fst (snd (poll st)))) \<longrightarrow> P (fst st) \<longrightarrow> P (fst (snd res))"
    and step: "(case poll st of (Inl e, st1) \<Rightarrow> Some (e, st1) | (Inr n, st1) \<Rightarrow> loop poll st1) = Some res"
    and keeps: "\<forall>st. P (fst st) \<longrightarrow> P (fst (snd (poll st)))" and st: "P (fst st)"
  obtain r st1 where r: "poll st = (r, st1)" by (cases "poll st")
  then have "P (fst st1)" using keeps st by (metis snd_conv)
  then show "P (fst (snd res))"
    using step IH [of poll st1 res] keeps r by (auto split: sum.splits)
qed

end

section \<open>Properties\<close>

text \<open>
  C32: an accepted client is filed under version 1 of its name, in place of whatever is filed
  there. If the peer's executable is \<^verbatim>\<open>dir/name-version\<close>, \<^verbatim>\<open>Accept\<close> makes a new connection,
  with an empty queue and serials 0, the connection of service \<^verbatim>\<open>name-1\<close>, whatever the version
  is: two running clients of the same program, or of two versions of it, share the entry, and
  what was queued for the first is dropped. If the new socket cannot be added to the poll, the exception
  leaves everything as it was.
\<close>

theorem accept_replaces:
  assumes "fmt_ok T" and "class_id_wf i" and "unat (Version i) < 2 ^ 31" and "CHR ''/'' \<notin> set (Name i)"
    and "read_link (''/proc/'' @ dec pid @ ''/exe'') = Inr (dir @ ''/'' @ class_id_to_string T i)"
  shows "\<exists>s'. local_bus_accept T True (Some pid) read_link s =
      (case tk_poll_add T of Some e \<Rightarrow> (Some e, s) | None \<Rightarrow> (None, s')) \<and>
    ss_connections s' (i\<lparr>Version := 1\<rparr>) = Some (mk_accepted_connection (i\<lparr>Version := 1\<rparr>)) \<and>
    (\<forall>j. j \<noteq> i\<lparr>Version := 1\<rparr> \<longrightarrow> ss_connections s' j = ss_connections s j)"
proof -
  have "local_bus_accept T True (Some pid) read_link s = (case tk_poll_add T of Some e \<Rightarrow> (Some e, s)
      | None \<Rightarrow> (None, add_connection (i\<lparr>Version := 1\<rparr>) (mk_accepted_connection (i\<lparr>Version := 1\<rparr>)) s))"
    using assms(5) by (intro accept_image [OF slash_notin_print [OF assms(1,4)] from_string_print [OF assms(1-3)]]) simp
  then show ?thesis
    by (intro exI [of _ "add_connection (i\<lparr>Version := 1\<rparr>) (mk_accepted_connection (i\<lparr>Version := 1\<rparr>)) s"])
      (simp add: add_connection_def)
qed

theorem accept_replaces_witness:
  "\<exists>s'. local_bus_accept demo_toolkit True (Some 17) (\<lambda>link. Inr ''/packages/app-2/app-2'') demo_session = (None, s') \<and>
    ss_connections s' \<lparr>Name = ''app'', Version = 1\<rparr> = Some (mk_accepted_connection \<lparr>Name = ''app'', Version = 1\<rparr>)"
proof -
  let ?i = "\<lparr>Name = ''app'', Version = 2\<rparr>" and ?rd = "\<lambda>link. Inr ''/packages/app-2/app-2''"
  have "dec 2 = ''2''"
    by code_simp
  then have p: "class_id_to_string demo_toolkit ?i = ''app-2''"
    by (simp add: class_id_to_string_eq)
  have rd: "?rd (''/proc/'' @ dec 17 @ ''/exe'') = Inr (''/packages/app-2'' @ ''/'' @ class_id_to_string demo_toolkit ?i)"
    unfolding p by simp
  have i: "class_id_wf ?i" "unat (Version ?i) < 2 ^ 31" "CHR ''/'' \<notin> set (Name ?i)" "?i\<lparr>Version := 1\<rparr> = \<lparr>Name = ''app'', Version = 1\<rparr>"
    by (simp_all add: class_id_wf_def)
  from accept_replaces [where s = demo_session, OF demo_fmt_ok i(1-3) rd] show ?thesis
    unfolding i(4) poll_ok_simps [OF demo_poll_ok] option.case by blast
qed

text \<open>
  \<^verbatim>\<open>Application::Run\<close> never returns. As long as the poll and the handlers it runs do not
  throw, it polls for ever; if it ends, it ends with an exception, and the session is then in
  a state that satisfies every invariant the handlers keep.
\<close>

lemma app_runs_forever:
  assumes "poll_steps T B" and "start_keeps session_wf start" and "env_keeps session_wf E" and "session_wf (fst st)"
  shows "((\<forall>st. \<exists>n. fst (bt_poll B E start st) = Inr n) \<longrightarrow> app_run (apsnd notify_parent) (bt_poll B E start) notify st = None) \<and>
    (\<forall>e st_end. app_run (apsnd notify_parent) (bt_poll B E start) notify st = Some (e, st_end) \<longrightarrow> session_wf (fst st_end))"
proof (intro conjI allI)
  let ?st = "if notify then apsnd notify_parent st else st"
  show "(\<forall>st. \<exists>n. fst (bt_poll B E start st) = Inr n) \<longrightarrow> app_run (apsnd notify_parent) (bt_poll B E start) notify st = None"
  proof
    assume poll: "\<forall>st. \<exists>n. fst (bt_poll B E start st) = Inr n"
    show "app_run (apsnd notify_parent) (bt_poll B E start) notify st = None"
    proof (rule ccontr)
      assume "app_run (apsnd notify_parent) (bt_poll B E start) notify st \<noteq> None"
      then obtain res where "app_loop (bt_poll B E start) ?st = Some res"
        unfolding app_run_def by blast
      from app_loop_throws [OF this] poll show False by (metis Inl_Inr_False)
    qed
  qed
  fix e st_end
  have keeps: "session_wf (fst st) \<longrightarrow> session_wf (fst (snd (bt_poll B E start st)))" for st
    using wf.steps [OF assms(2,3)] assms(1) unfolding poll_steps_def by blast
  have "session_wf (fst ?st)"
    using assms(4) by simp
  with keeps show "app_run (apsnd notify_parent) (bt_poll B E start) notify st = Some (e, st_end) \<longrightarrow> session_wf (fst st_end)"
    using wf.app_loop [of "bt_poll B E start" ?st "(e, st_end)"] unfolding app_run_def by force
qed

lemma app_runs_forever_witness:
  "app_run (apsnd (\<lambda>w. w)) (bt_poll demo_boot (demo_env (Inr VUndefined)) demo_start) True (initial_session, ()) = None"
  by (rule app_runs_forever [OF demo_boot_steps(1) demo_start_keeps demo_env_keeps, THEN conjunct1, THEN mp])
    (simp_all add: session_wf_initial demo_boot_def)

end
