(* ===== verification/Sys_Io.thy ===== *)
theory Sys_Io
  imports Pbus_Prelude
begin

text \<open>
  System calls. A function of the service manager that calls the operating system is a
  state transformer that may throw: it threads the operating system's state and a trace of
  the calls made, each with whether it succeeded, an observation that the code does not have. The
  entry of a call is what the operating system answered; what the code makes of the answer is not
  part of it. \<open>traces m S\<close> says what every run of \<open>m\<close> adds to the trace, depending on its result;
  \<open>traces_bind\<close> composes such statements.
\<close>

datatype sys_call =
    Read_File string
  | Stat string
  | Access string
  | Make_Dir string
  | Create_File string
  | Mount_Private string
  | Mount_Tmpfs string string
  | Mount_Bind string string
  | Chroot string
  | Chdir string
  | Exec string "string list"

record 'k process =
  pr_os :: 'k
  pr_trace :: "(sys_call \<times> bool) list"

type_synonym ('k, 'a) io = "'k process \<Rightarrow> (exn + 'a) \<times> 'k process"

definition io_return :: "'a \<Rightarrow> ('k, 'a) io" where
  "io_return x p = (Inr x, p)"

definition io_throw :: "exn \<Rightarrow> ('k, 'a) io" where
  "io_throw e p = (Inl e, p)"

definition io_bind :: "('k, 'a) io \<Rightarrow> ('a \<Rightarrow> ('k, 'b) io) \<Rightarrow> ('k, 'b) io" where
  "io_bind m f p = (case m p of (Inl e, p1) \<Rightarrow> (Inl e, p1) | (Inr x, p1) \<Rightarrow> f x p1)"

definition io_then :: "('k, 'a) io \<Rightarrow> ('k, 'b) io \<Rightarrow> ('k, 'b) io" where
  "io_then m n = io_bind m (\<lambda>_. n)"

definition io_when :: "bool \<Rightarrow> ('k, unit) io \<Rightarrow> ('k, unit) io" where
  "io_when b m = (if b then m else io_return ())"

primrec io_each :: "('a \<Rightarrow> ('k, unit) io) \<Rightarrow> 'a list \<Rightarrow> ('k, unit) io" where
  "io_each f [] = io_return ()"
| "io_each f (x # xs) = io_then (f x) (io_each f xs)"

text \<open>
  A call that may throw; a call with a result code, which \<open>perform\<close> gives for the call itself; and
  one whose failure makes the caller throw.
\<close>

definition io_call :: "sys_call \<Rightarrow> ('k \<Rightarrow> (exn + 'a) \<times> 'k) \<Rightarrow> ('k, 'a) io" where
  "io_call c f p = (case f (pr_os p) of (r, k) \<Rightarrow> (r, \<lparr>pr_os = k, pr_trace = pr_trace p @ [(c, \<not> isl r)]\<rparr>))"

definition io_test :: "(sys_call \<Rightarrow> 'k \<Rightarrow> bool \<times> 'k) \<Rightarrow> sys_call \<Rightarrow> ('k, bool) io" where
  "io_test perform c p = (case perform c (pr_os p) of (ok, k) \<Rightarrow> (Inr ok, \<lparr>pr_os = k, pr_trace = pr_trace p @ [(c, ok)]\<rparr>))"

definition io_check :: "(sys_call \<Rightarrow> 'k \<Rightarrow> bool \<times> 'k) \<Rightarrow> sys_call \<Rightarrow> exn \<Rightarrow> ('k, unit) io" where
  "io_check perform c e = io_bind (io_test perform c) (\<lambda>ok. if ok then io_return () else io_throw e)"

lemma io_then_assoc: "io_then (io_then a b) c = io_then a (io_then b c)"
  by (rule ext) (simp add: io_then_def io_bind_def split: prod.split sum.split)

section \<open>Traces\<close>

definition traces :: "('k, 'a) io \<Rightarrow> (exn + 'a \<Rightarrow> (sys_call \<times> bool) list \<Rightarrow> bool) \<Rightarrow> bool" where
  "traces m S \<longleftrightarrow> (\<forall>p r p'. m p = (r, p') \<longrightarrow> (\<exists>t. pr_trace p' = pr_trace p @ t \<and> S r t))"

named_theorems traces_intros \<open>composition rules for traces\<close>

lemma traces_weaken: "traces m S \<Longrightarrow> (\<And>r t. S r t \<Longrightarrow> R r t) \<Longrightarrow> traces m R"
  unfolding traces_def by blast

lemma traces_return [traces_intros]: "S (Inr x) [] \<Longrightarrow> traces (io_return x) S"
  by (simp add: traces_def io_return_def)

lemma traces_throw [traces_intros]: "S (Inl e) [] \<Longrightarrow> traces (io_throw e) S"
  by (simp add: traces_def io_throw_def)

lemma traces_bind:
  assumes "traces m Q" and "\<And>x. traces (f x) (R x)"
    and "\<And>e t. Q (Inl e) t \<Longrightarrow> S (Inl e) t"
    and "\<And>x t r u. Q (Inr x) t \<Longrightarrow> R x r u \<Longrightarrow> S r (t @ u)"
  shows "traces (io_bind m f) S"
  unfolding traces_def
proof (intro allI impI)
  fix p r p' assume run: "io_bind m f p = (r, p')"
  obtain q p1 where q: "m p = (q, p1)" by (cases "m p")
  then obtain t where t: "pr_trace p1 = pr_trace p @ t" "Q q t"
    using assms(1) unfolding traces_def by blast
  show "\<exists>t. pr_trace p' = pr_trace p @ t \<and> S r t"
  proof (cases q)
    case (Inl e)
    with run q t assms(3) show ?thesis by (auto simp: io_bind_def)
  next
    case (Inr x)
    with run q have "f x p1 = (r, p')" by (simp add: io_bind_def)
    then obtain u where "pr_trace p' = pr_trace p1 @ u" "R x r u"
      using assms(2) unfolding traces_def by blast
    with t Inr assms(4) show ?thesis by auto
  qed
qed

lemma traces_then:
  "traces m Q \<Longrightarrow> traces n R \<Longrightarrow> (\<And>e t. Q (Inl e) t \<Longrightarrow> S (Inl e) t) \<Longrightarrow>
     (\<And>x t r u. Q (Inr x) t \<Longrightarrow> R r u \<Longrightarrow> S r (t @ u)) \<Longrightarrow> traces (io_then m n) S"
  unfolding io_then_def by (rule traces_bind)

lemma traces_call [traces_intros]:
  "(\<And>e. S (Inl e) [(c, False)]) \<Longrightarrow> (\<And>x. S (Inr x) [(c, True)]) \<Longrightarrow> traces (io_call c f) S"
proof -
  assume S: "\<And>e. S (Inl e) [(c, False)]" "\<And>x. S (Inr x) [(c, True)]"
  then have "S r [(c, \<not> isl r)]" for r
    by (cases r) simp_all
  then show "traces (io_call c f) S"
    by (auto simp: traces_def io_call_def split: prod.splits)
qed

lemma traces_test [traces_intros]: "(\<And>ok. S (Inr ok) [(c, ok)]) \<Longrightarrow> traces (io_test perform c) S"
  by (auto simp: traces_def io_test_def split: prod.splits)

lemma traces_check [traces_intros]: "S (Inr ()) [(c, True)] \<Longrightarrow> S (Inl e) [(c, False)] \<Longrightarrow> traces (io_check perform c e) S"
  by (auto simp: traces_def io_check_def io_bind_def io_test_def io_return_def io_throw_def split: prod.splits)

lemma traces_when [traces_intros]: "(b \<Longrightarrow> traces m S) \<Longrightarrow> (\<not> b \<Longrightarrow> S (Inr ()) []) \<Longrightarrow> traces (io_when b m) S"
  by (simp add: io_when_def traces_return)

text \<open>
  \<^verbatim>\<open>Access\<close> asks a question; any other call that the operating system refuses has failed. \<open>stops\<close>: a
  run that throws does so right after its first failed call, one that does not has seen no failure.
\<close>

fun worked :: "sys_call \<times> bool \<Rightarrow> bool" where
  "worked (Access path, ok) = True"
| "worked (c, ok) = ok"

lemma worked_True [simp]: "worked (c, True)"
  by (cases c) simp_all

definition stops :: "exn + 'a \<Rightarrow> (sys_call \<times> bool) list \<Rightarrow> bool" where
  "stops r t \<longleftrightarrow>
     (case r of
        Inl e \<Rightarrow> t \<noteq> [] \<and> list_all worked (butlast t) \<and> \<not> worked (last t)
      | Inr x \<Rightarrow> list_all worked t)"

lemma stops_simps [simp]:
  "stops (Inl e) t \<longleftrightarrow> t \<noteq> [] \<and> list_all worked (butlast t) \<and> \<not> worked (last t)"
  "stops (Inr x) t \<longleftrightarrow> list_all worked t"
  by (simp_all add: stops_def)

lemma stops_append: "list_all worked t \<Longrightarrow> stops r u \<Longrightarrow> stops r (t @ u)"
  by (cases r) (auto simp: butlast_append)

text \<open>
  Every call a run makes satisfies \<open>A\<close>, a run that succeeds makes exactly the calls \<open>cs\<close> of kind \<open>K\<close>, and
  the run stops at the first failure.
\<close>

definition calls_only ::
  "(sys_call \<Rightarrow> bool) \<Rightarrow> (sys_call \<Rightarrow> bool) \<Rightarrow> sys_call list \<Rightarrow> exn + 'a \<Rightarrow> (sys_call \<times> bool) list \<Rightarrow> bool" where
  "calls_only A K cs r t \<longleftrightarrow>
     list_all A (map fst t) \<and> stops r t \<and> (\<forall>x. r = Inr x \<longrightarrow> filter K (map fst t) = cs)"

lemma calls_only_append:
  "calls_only A K cs (Inr x) t \<Longrightarrow> calls_only A K ds r u \<Longrightarrow> calls_only A K (cs @ ds) r (t @ u)"
  by (auto simp: calls_only_def stops_append)

lemma calls_only_Inl: "calls_only A K cs (Inl e) t \<Longrightarrow> calls_only A K ds (Inl e) t"
  by (simp add: calls_only_def)

lemma calls_only_then [traces_intros]:
  "traces m (calls_only A K cs) \<Longrightarrow> traces n (calls_only A K ds) \<Longrightarrow> es = cs @ ds \<Longrightarrow>
     traces (io_then m n) (calls_only A K es)"
  by (erule (1) traces_then) (simp_all add: calls_only_append calls_only_Inl)

lemma calls_only_bind:
  "traces m (calls_only A K cs) \<Longrightarrow> (\<And>x. traces (f x) (calls_only A K ds)) \<Longrightarrow> es = cs @ ds \<Longrightarrow>
     traces (io_bind m f) (calls_only A K es)"
  by (erule traces_bind, assumption) (simp_all add: calls_only_append calls_only_Inl)

lemma calls_only_each:
  "(\<And>x. x \<in> set xs \<Longrightarrow> traces (f x) (calls_only A K (g x))) \<Longrightarrow>
     traces (io_each f xs) (calls_only A K (concat (map g xs)))"
proof (induction xs)
  case Nil
  then show ?case by (simp add: traces_return calls_only_def)
next
  case (Cons x xs)
  have "traces (io_then (f x) (io_each f xs)) (calls_only A K (concat (map g (x # xs))))"
    by (rule calls_only_then [of "f x" A K "g x" "io_each f xs" "concat (map g xs)"]) (simp_all add: Cons)
  then show ?case by simp
qed

section \<open>Success\<close>

text \<open>\<open>succeeds m P\<close>: no run of \<open>m\<close> throws, and every result satisfies \<open>P\<close>.\<close>

definition succeeds :: "('k, 'a) io \<Rightarrow> ('a \<Rightarrow> bool) \<Rightarrow> bool" where
  "succeeds m P \<longleftrightarrow> (\<forall>p. \<exists>x p'. m p = (Inr x, p') \<and> P x)"

lemma succeeds_return [intro]: "P x \<Longrightarrow> succeeds (io_return x) P"
  by (simp add: succeeds_def io_return_def)

lemma succeeds_bind: "succeeds m Q \<Longrightarrow> (\<And>x. Q x \<Longrightarrow> succeeds (f x) P) \<Longrightarrow> succeeds (io_bind m f) P"
  unfolding succeeds_def io_bind_def
proof
  fix p
  assume "\<forall>p. \<exists>x p'. m p = (Inr x, p') \<and> Q x"
  then obtain x p1 where "m p = (Inr x, p1)" "Q x" by blast
  moreover assume "\<And>x. Q x \<Longrightarrow> \<forall>p. \<exists>y p'. f x p = (Inr y, p') \<and> P y"
  ultimately show "\<exists>y p'. (case m p of (Inl e, p1) \<Rightarrow> (Inl e, p1) | (Inr x, p1) \<Rightarrow> f x p1) = (Inr y, p') \<and> P y"
    by simp
qed

lemma succeeds_then: "succeeds m (\<lambda>_. True) \<Longrightarrow> succeeds n P \<Longrightarrow> succeeds (io_then m n) P"
  unfolding io_then_def by (rule succeeds_bind)

lemma succeeds_when [intro]: "(b \<Longrightarrow> succeeds m (\<lambda>_. True)) \<Longrightarrow> succeeds (io_when b m) (\<lambda>_. True)"
  by (auto simp: io_when_def)

lemma succeeds_call: "(\<And>k. \<exists>x k'. f k = (Inr x, k') \<and> P x) \<Longrightarrow> succeeds (io_call c f) P"
  unfolding succeeds_def io_call_def
proof
  fix p :: "'a process"
  assume "\<And>k. \<exists>x k'. f k = (Inr x, k') \<and> P x"
  then obtain x k where "f (pr_os p) = (Inr x, k)" "P x" by blast
  then show "\<exists>x p'. (case f (pr_os p) of (r, k) \<Rightarrow> (r, \<lparr>pr_os = k, pr_trace = pr_trace p @ [(c, \<not> isl r)]\<rparr>)) = (Inr x, p') \<and> P x"
    by simp
qed

lemma succeeds_test: "(\<And>k. P (fst (perform c k))) \<Longrightarrow> succeeds (io_test perform c) P"
  unfolding succeeds_def io_test_def by (auto split: prod.split) (metis fst_conv)

lemma succeeds_check: "(\<And>k. fst (perform c k)) \<Longrightarrow> succeeds (io_check perform c e) (\<lambda>_. True)"
  unfolding io_check_def by (rule succeeds_bind [OF succeeds_test [where P = "\<lambda>ok. ok"]]) auto

lemma succeeds_each: "(\<And>x. x \<in> set xs \<Longrightarrow> succeeds (f x) (\<lambda>_. True)) \<Longrightarrow> succeeds (io_each f xs) (\<lambda>_. True)"
  by (induction xs) (auto intro: succeeds_then)

end
