(* ===== verification/Service_Manager.thy ===== *)
theory Service_Manager
  imports Local_Bus Sys_Io "HOL-Library.Char_ord" "HOL-Library.List_Lexorder"
begin

text \<open>
  The service manager (src/src/services/system/servicemanager): \<^verbatim>\<open>Manager\<close> of
  ServiceManager.h and ServiceManager.cpp, which prepares a root directory for a service,
  runs it in namespaces of its own and waits for its signal, and \<^verbatim>\<open>Config\<close> of
  ServiceConfig.h and ServiceConfig.cpp. The operating system is a parameter (\<open>os\<close>,
  \<open>manager_os\<close>), the toolkit's \<^verbatim>\<open>text::Split\<close> the parameter \<open>split\<close>.
\<close>

section \<open>The operating system\<close>

text \<open>
  The calls of the child: \<^verbatim>\<open>File::GetStatus\<close> with \<^verbatim>\<open>S_ISDIR\<close>, \<^verbatim>\<open>File::Access\<close>,
  \<^verbatim>\<open>File::MakeDirectory\<close>, opening a file for overwriting, reading a file, the three mounts,
  \<^verbatim>\<open>chroot\<close>, \<^verbatim>\<open>chdir\<close>; \<open>os_exec\<close> says whether the program image was replaced.
\<close>

record 'k os =
  os_read_file :: "string \<Rightarrow> 'k \<Rightarrow> (exn + string) \<times> 'k"
  os_is_dir :: "string \<Rightarrow> 'k \<Rightarrow> (exn + bool) \<times> 'k"
  os_access :: "string \<Rightarrow> 'k \<Rightarrow> bool"
  os_mkdir :: "string \<Rightarrow> 'k \<Rightarrow> (exn + unit) \<times> 'k"
  os_create :: "string \<Rightarrow> 'k \<Rightarrow> (exn + unit) \<times> 'k"
  os_mount_private :: "string \<Rightarrow> 'k \<Rightarrow> bool \<times> 'k"
  os_mount_tmpfs :: "string \<Rightarrow> string \<Rightarrow> 'k \<Rightarrow> bool \<times> 'k"
  os_mount_bind :: "string \<Rightarrow> string \<Rightarrow> 'k \<Rightarrow> bool \<times> 'k"
  os_chroot :: "string \<Rightarrow> 'k \<Rightarrow> bool \<times> 'k"
  os_chdir :: "string \<Rightarrow> 'k \<Rightarrow> bool \<times> 'k"
  os_exec :: "string \<Rightarrow> string list \<Rightarrow> 'k \<Rightarrow> bool \<times> 'k"

text \<open>The calls with a result code, and \<^verbatim>\<open>Access\<close>, which changes nothing.\<close>

fun os_result :: "'k os \<Rightarrow> sys_call \<Rightarrow> 'k \<Rightarrow> bool \<times> 'k" where
  "os_result os (Access path) k = (os_access os path k, k)"
| "os_result os (Mount_Private dir) k = os_mount_private os dir k"
| "os_result os (Mount_Tmpfs dir options) k = os_mount_tmpfs os dir options k"
| "os_result os (Mount_Bind src dst) k = os_mount_bind os src dst k"
| "os_result os (Chroot dir) k = os_chroot os dir k"
| "os_result os (Chdir dir) k = os_chdir os dir k"
| "os_result os (Exec binary argv) k = os_exec os binary argv k"
| "os_result os c k = (False, k)"

section \<open>Config\<close>

text \<open>
  The lines of the file that are not empty, in a \<^verbatim>\<open>std::set<std::string>\<close>: without duplicates,
  visited in lexicographic order.
\<close>

definition config_dependencies :: "(string \<Rightarrow> string \<Rightarrow> string list) \<Rightarrow> string \<Rightarrow> string set" where
  "config_dependencies split text = set (filter (\<lambda>line. line \<noteq> []) (split text [char_of (10 :: nat)]))"

definition read_config ::
  "'k os \<Rightarrow> (string \<Rightarrow> string \<Rightarrow> string list) \<Rightarrow> string \<Rightarrow> ('k, string list) io" where
  "read_config os split path =
     io_bind (io_call (Read_File path) (os_read_file os path)) (\<lambda>text.
       io_return (sorted_list_of_set (config_dependencies split text)))"

section \<open>The manager\<close>

text \<open>
  The root directory: the path of the manager's executable without its last two components.
  The second check tests \<^verbatim>\<open>slashPos\<close> again, so it never fails; a missing second slash makes
  \<^verbatim>\<open>substr(0, npos)\<close> the whole path. \<^verbatim>\<open>slashPos - 1\<close> wraps around to \<^verbatim>\<open>npos\<close> for a slash at 0.
\<close>

definition manager_root :: "string \<Rightarrow> exn + string" where
  "manager_root current_exe =
     (case rfind_char (CHR ''/'') current_exe of
        None \<Rightarrow> Inl (Exception ''could not find parent directory'')
      | Some slash_pos \<Rightarrow>
          (let slash_pos2 = rfind_char (CHR ''/'') (if slash_pos = 0 then current_exe else take slash_pos current_exe)
           in Inr (case slash_pos2 of None \<Rightarrow> current_exe | Some pos \<Rightarrow> take pos current_exe)))"

text \<open>
  The state of the class: the root directory and \<^verbatim>\<open>SocketEvent::Event\<close>, the last event that its
  poll reported (nothing reads it). \<^verbatim>\<open>_session\<close> is never set.
\<close>

record manager =
  mg_root :: string
  mg_event :: int

definition manager_handle_event :: "int \<Rightarrow> manager \<Rightarrow> manager" where
  "manager_handle_event event m = m\<lparr>mg_event := event\<rparr>"

text \<open>The constructor: \<open>create_pipe\<close> and \<open>poll_add\<close> may throw, failing \<^verbatim>\<open>sigaction\<close>s are only logged.\<close>

definition mk_manager :: "exn + string \<Rightarrow> exn option \<Rightarrow> exn option \<Rightarrow> exn + manager" where
  "mk_manager current_exe create_pipe poll_add =
     bind_exn current_exe (\<lambda>exe.
     bind_exn (manager_root exe) (\<lambda>root.
       case create_pipe of Some e \<Rightarrow> Inl e
       | None \<Rightarrow> (case poll_add of Some e \<Rightarrow> Inl e | None \<Rightarrow> Inr \<lparr>mg_root = root, mg_event = 0\<rparr>)))"

definition get_service_path :: "toolkit \<Rightarrow> string \<Rightarrow> service_id \<Rightarrow> string" where
  "get_service_path T root i = root @ ''/'' @ class_id_to_string T i"

section \<open>Bind\<close>

text \<open>The loop over the components of the target's parent directory.\<close>

primrec make_dirs :: "'k os \<Rightarrow> string list \<Rightarrow> string \<Rightarrow> ('k, unit) io" where
  "make_dirs os [] dir_path = io_return ()"
| "make_dirs os (dir # dirs) dir_path =
     (let dir_path1 = dir_path @ dir @ ''/'' in
      io_then
        (io_bind (io_test (os_result os) (Access dir_path1)) (\<lambda>ok.
           io_when (\<not> ok) (io_call (Make_Dir dir_path1) (os_mkdir os dir_path1))))
        (make_dirs os dirs dir_path1))"

definition manager_bind :: "'k os \<Rightarrow> (string \<Rightarrow> string \<Rightarrow> string list) \<Rightarrow> string \<Rightarrow> string \<Rightarrow> ('k, unit) io" where
  "manager_bind os split src dst =
     io_bind (io_call (Stat src) (os_is_dir os src)) (\<lambda>is_dir.
       case rfind_char (CHR ''/'') dst of
         None \<Rightarrow> io_throw (Exception ''no slash in dst path'')
       | Some slash_pos \<Rightarrow>
           io_then (make_dirs os (split (take slash_pos dst) ''/'') [])
          (io_then
             (if is_dir then io_call (Make_Dir dst) (os_mkdir os dst)
              else io_call (Create_File dst) (os_create os dst))
             (io_check (os_result os) (Mount_Bind src dst)
                (System_Exception (''mount '' @ src @ '' '' @ dst)))))"

section \<open>RunProcess\<close>

text \<open>What a dependency of the configuration is bound from and to.\<close>

definition dependency_bind :: "string \<Rightarrow> string \<Rightarrow> string \<times> string" where
  "dependency_bind fs_root dep =
     (if hd dep = CHR ''/'' then (dep, fs_root @ dep)
      else (fs_root @ ''/../'' @ dep, fs_root @ ''/'' @ dep))"

definition bind_dependency :: "'k os \<Rightarrow> (string \<Rightarrow> string \<Rightarrow> string list) \<Rightarrow> string \<Rightarrow> string \<Rightarrow> ('k, unit) io" where
  "bind_dependency os split fs_root dep =
     io_when (dep \<noteq> []) (case dependency_bind fs_root dep of (src, dst) \<Rightarrow> manager_bind os split src dst)"

text \<open>
  The program image of a service and its arguments; \<^verbatim>\<open>--notify-parent\<close> makes the service's
  \<^verbatim>\<open>Application\<close> signal its parent.
\<close>

definition service_binary :: "toolkit \<Rightarrow> service_id \<Rightarrow> string" where
  "service_binary T i = ''/packages/'' @ class_id_to_string T i @ ''/'' @ class_id_to_string T i"

definition service_argv :: "toolkit \<Rightarrow> service_id \<Rightarrow> string list" where
  "service_argv T i = [service_binary T i, ''--notify-parent'']"

text \<open>
  The result is whether the program image was replaced; if not, the code calls \<^verbatim>\<open>exit(1)\<close>.
\<close>

definition run_process ::
  "toolkit \<Rightarrow> bool \<Rightarrow> 'k os \<Rightarrow> (string \<Rightarrow> string \<Rightarrow> string list) \<Rightarrow> string \<Rightarrow> service_id \<Rightarrow> ('k, bool) io" where
  "run_process T devel os split root i =
     (let service_root = get_service_path T root i;
          fs_root = root @ ''/../root'';
          binary = service_binary T i
      in io_bind (read_config os split (service_root @ ''/'' @ class_id_to_string T i @ ''.conf'')) (\<lambda>deps.
         io_then (io_check (os_result os) (Mount_Private ''/'') (System_Exception ''mount / [private]''))
        (io_then (io_check (os_result os) (Mount_Tmpfs fs_root ''size=1m'') (System_Exception ''mount tmpfs''))
        (io_then (io_each (bind_dependency os split fs_root) deps)
        (io_then (manager_bind os split root (fs_root @ ''/packages''))
        (io_then (io_when devel (manager_bind os split ''/proc'' (fs_root @ ''/proc'')))
        (io_then (io_check (os_result os) (Chroot fs_root) (System_Exception ''chroot''))
        (io_then (io_check (os_result os) (Chdir ''/'') (System_Exception ''chdir /''))
           (io_test (os_result os) (Exec binary (service_argv T i)))))))))))"

text \<open>\<^verbatim>\<open>RunProcessTrampoline\<close>: the new image, or the exit status of the child.\<close>

datatype child = Runs string "string list" | Exits int

definition run_process_trampoline ::
  "toolkit \<Rightarrow> bool \<Rightarrow> 'k os \<Rightarrow> (string \<Rightarrow> string \<Rightarrow> string list) \<Rightarrow> string \<Rightarrow> service_id \<Rightarrow> 'k process \<Rightarrow> child \<times> 'k process" where
  "run_process_trampoline T devel os split root i p =
     (case run_process T devel os split root i p of
        (Inr ok, p1) \<Rightarrow> (if ok then Runs (service_binary T i) (service_argv T i) else Exits 1, p1)
      | (Inl e, p1) \<Rightarrow> (Exits 1, p1))"

section \<open>start\<close>

text \<open>
  The pipe carries an event for every signal: SIGUSR2 from a started service, SIGCHLD from a
  stopped child, with the process identifier of the sender.
\<close>

datatype event_type = Started | Stopped

record event =
  Event_Type :: event_type
  Event_Id :: int

definition on_sig_chld :: "int \<Rightarrow> event" where
  "on_sig_chld si_pid = \<lparr>Event_Type = Stopped, Event_Id = si_pid\<rparr>"

definition on_sig_usr2 :: "int \<Rightarrow> event" where
  "on_sig_usr2 si_pid = \<lparr>Event_Type = Started, Event_Id = si_pid\<rparr>"

text \<open>
  What \<^verbatim>\<open>start\<close> calls: the allocation of the stack, \<^verbatim>\<open>clone\<close> (-1 or the child), the manager's
  own poll, and reading an event from the pipe: the number of bytes read and the event.
\<close>

record 'k manager_os =
  mo_malloc :: "'k \<Rightarrow> bool \<times> 'k"
  mo_clone :: "service_id \<Rightarrow> 'k \<Rightarrow> int \<times> 'k"
  mo_poll :: "'k \<Rightarrow> (exn + nat) \<times> 'k"
  mo_read_event :: "'k \<Rightarrow> (exn + nat \<times> event) \<times> 'k"

definition sizeof_event :: nat where
  "sizeof_event = 8"

text \<open>The loop without a timeout: \<open>None\<close> says that it waits for ever.\<close>

partial_function (option) await_start ::
  "toolkit \<Rightarrow> 'k manager_os \<Rightarrow> service_id \<Rightarrow> int \<Rightarrow> 'k \<Rightarrow> (exn option \<times> 'k) option" where
  "await_start T M service_id pid k =
     (case mo_poll M k of
        (Inl e, k1) \<Rightarrow> Some (Some e, k1)
      | (Inr n, k1) \<Rightarrow>
          if n = 0 then await_start T M service_id pid k1
          else
            (case mo_read_event M k1 of
               (Inl e, k2) \<Rightarrow> Some (Some e, k2)
             | (Inr (r, event), k2) \<Rightarrow>
                 if r \<noteq> sizeof_event then Some (Some (Exception ''short read''), k2)
                 else
                   (case Event_Type event of
                      Started \<Rightarrow>
                        if Event_Id event \<noteq> pid then Some (Some (Exception ''spurious startup signal''), k2)
                        else Some (None, k2)
                    | Stopped \<Rightarrow>
                        if pid = Event_Id event
                        then Some (Some (Exception (''process '' @ class_id_to_string T service_id @ '' failed to start'')), k2)
                        else await_start T M service_id pid k2)))"

definition manager_start ::
  "toolkit \<Rightarrow> 'k manager_os \<Rightarrow> string \<Rightarrow> u16 \<Rightarrow> 'k \<Rightarrow> (exn option \<times> 'k) option" where
  "manager_start T M name version k =
     (case mk_class_id name (ucast version) of
        Inl e \<Rightarrow> Some (Some e, k)
      | Inr service_id \<Rightarrow>
          (case mo_malloc M k of (ok, k1) \<Rightarrow>
             if \<not> ok then Some (Some (System_Exception ''failed to allocate stack''), k1)
             else
               (case mo_clone M service_id k1 of (pid, k2) \<Rightarrow>
                  if pid = -1 then Some (Some (System_Exception ''clone''), k2)
                  else await_start T M service_id pid k2)))"

section \<open>What the child does\<close>

text \<open>The calls that \<^verbatim>\<open>Bind\<close> may make, and the bind mounts among the calls.\<close>

fun is_prepare :: "sys_call \<Rightarrow> bool" where
  "is_prepare (Exec b argv) = False"
| "is_prepare (Chroot d) = False"
| "is_prepare (Chdir d) = False"
| "is_prepare c = True"

fun is_bind :: "sys_call \<Rightarrow> bool" where
  "is_bind (Mount_Bind src dst) = True"
| "is_bind c = False"

lemmas calls_intros = calls_only_then traces_return traces_throw traces_call traces_test traces_check traces_when

lemma calls_only_Nil [simp]: "calls_only A K cs (Inr x) [] \<longleftrightarrow> cs = []"
  by (auto simp: calls_only_def)

lemma calls_only_one [simp]:
  "calls_only A K cs (Inr x) [e] \<longleftrightarrow> A (fst e) \<and> worked e \<and> cs = (if K (fst e) then [fst e] else [])"
  "calls_only A K cs (Inl ex) [e] \<longleftrightarrow> A (fst e) \<and> \<not> worked e"
  by (auto simp: calls_only_def)

lemma make_dirs_calls: "traces (make_dirs os dirs path) (calls_only is_prepare is_bind [])"
proof (induction dirs arbitrary: path)
  case Nil
  then show ?case by (simp add: traces_return)
next
  case (Cons dir dirs)
  show ?case
    unfolding make_dirs.simps Let_def
    by (rule calls_only_then [OF calls_only_bind Cons]) (auto intro!: traces_call traces_test traces_when)
qed

lemma manager_bind_calls:
  assumes "CHR ''/'' \<in> set dst"
  shows "traces (manager_bind os split src dst) (calls_only is_prepare is_bind [Mount_Bind src dst])"
  unfolding manager_bind_def
proof (rule calls_only_bind [of _ _ _ "[]" _ "[Mount_Bind src dst]"])
  fix is_dir
  show "traces (case rfind_char CHR ''/'' dst of None \<Rightarrow> io_throw (Exception ''no slash in dst path'')
      | Some slash_pos \<Rightarrow>
          io_then (make_dirs os (split (take slash_pos dst) ''/'') [])
           (io_then (if is_dir then io_call (Make_Dir dst) (os_mkdir os dst) else io_call (Create_File dst) (os_create os dst))
             (io_check (os_result os) (Mount_Bind src dst) (System_Exception (''mount '' @ src @ '' '' @ dst)))))
     (calls_only is_prepare is_bind [Mount_Bind src dst])"
  proof (cases "rfind_char CHR ''/'' dst")
    case None
    with assms show ?thesis by (simp add: rfind_char_def split: if_splits)
  next
    case (Some slash_pos)
    show ?thesis
      unfolding Some option.case
      by (auto intro!: traces_call traces_check calls_only_then [OF make_dirs_calls]
          calls_only_then [of _ _ _ "[]" _ "[Mount_Bind src dst]"])
  qed
qed (auto intro!: traces_call)

definition dependency_mounts :: "string \<Rightarrow> string \<Rightarrow> sys_call list" where
  "dependency_mounts fs_root dep = (if dep = [] then [] else [case dependency_bind fs_root dep of (src, dst) \<Rightarrow> Mount_Bind src dst])"

lemma bind_dependency_calls:
  assumes "CHR ''/'' \<in> set fs_root"
  shows "traces (bind_dependency os split fs_root dep) (calls_only is_prepare is_bind (dependency_mounts fs_root dep))"
  unfolding bind_dependency_def dependency_mounts_def
  by (rule traces_when) (auto intro: manager_bind_calls simp: dependency_bind_def assms)

text \<open>The bind mounts of a service, in order: its dependencies, the packages, and in development mode \<^verbatim>\<open>/proc\<close>.\<close>

definition service_mounts :: "bool \<Rightarrow> string \<Rightarrow> string list \<Rightarrow> sys_call list" where
  "service_mounts devel root deps =
     (let fs_root = root @ ''/../root'' in
      concat (map (dependency_mounts fs_root) deps) @ [Mount_Bind root (fs_root @ ''/packages'')] @
      (if devel then [Mount_Bind ''/proc'' (fs_root @ ''/proc'')] else []))"

text \<open>
  \<open>sandboxed\<close>: a trace in which the program is executed last, with the outcome \<open>ok\<close>, after \<^verbatim>\<open>chroot\<close> and
  \<^verbatim>\<open>chdir\<close>, and these after the private mount, the new root and exactly the bind mounts of the service;
  the operating system has carried out every call before the last, but for questions of \<^verbatim>\<open>Access\<close>
  that it has answered with no.
\<close>

definition sandboxed :: "toolkit \<Rightarrow> bool \<Rightarrow> string \<Rightarrow> service_id \<Rightarrow> string list \<Rightarrow> bool \<Rightarrow> (sys_call \<times> bool) list \<Rightarrow> bool" where
  "sandboxed T devel root i deps ok t \<longleftrightarrow>
     (\<exists>u. t = [(Read_File (get_service_path T root i @ ''/'' @ class_id_to_string T i @ ''.conf''), True), (Mount_Private ''/'', True),
          (Mount_Tmpfs (root @ ''/../root'') ''size=1m'', True)] @ u @
        [(Chroot (root @ ''/../root''), True), (Chdir ''/'', True), (Exec (service_binary T i) (service_argv T i), ok)] \<and>
      list_all is_prepare (map fst u) \<and> list_all worked u \<and> filter is_bind (map fst u) = service_mounts devel root deps)"

text \<open>The part of \<^verbatim>\<open>RunProcess\<close> between the mount of the new root and \<^verbatim>\<open>chroot\<close>.\<close>

lemma prepare_calls:
  "traces (io_then (io_each (bind_dependency os split (root @ ''/../root'')) deps)
      (io_then (manager_bind os split root (root @ ''/../root/packages''))
         (io_when devel (manager_bind os split ''/proc'' (root @ ''/../root/proc'')))))
    (calls_only is_prepare is_bind (service_mounts devel root deps))"
  unfolding service_mounts_def Let_def
  by (intro calls_only_then [OF calls_only_each [OF bind_dependency_calls] calls_only_then [OF manager_bind_calls traces_when]])
    (auto intro: manager_bind_calls)

fun is_exec :: "sys_call \<Rightarrow> bool" where
  "is_exec (Exec b argv) = True"
| "is_exec c = False"

fun_cases is_execE: "is_exec c"

abbreviation executes :: "(sys_call \<times> bool) list \<Rightarrow> bool" where
  "executes t \<equiv> list_ex is_exec (map fst t)"

lemma is_prepare_not_exec: "list_all is_prepare cs \<Longrightarrow> \<not> list_ex is_exec cs"
  by (induction cs) (auto elim: is_execE)

text \<open>A run that throws executes nothing and stops at a failure; one that does not has gone through all the steps.\<close>

definition ends_with :: "('a \<Rightarrow> (sys_call \<times> bool) list) \<Rightarrow> exn + 'a \<Rightarrow> (sys_call \<times> bool) list \<Rightarrow> bool" where
  "ends_with cs r t \<longleftrightarrow> (case r of Inl e \<Rightarrow> \<not> executes t \<and> stops r t | Inr x \<Rightarrow> t = cs x)"

lemma ends_with_simps [simp]:
  "ends_with cs (Inl e) t \<longleftrightarrow> \<not> executes t \<and> t \<noteq> [] \<and> list_all worked (butlast t) \<and> \<not> worked (last t)"
  "ends_with cs (Inr x) t \<longleftrightarrow> t = cs x"
  by (simp_all add: ends_with_def)

text \<open>Calls whose failure is an exception of the caller; \<^verbatim>\<open>Access\<close> and the execution are not among them.\<close>

lemma ends_with_check:
  "\<not> is_exec c \<Longrightarrow> \<not> worked (c, False) \<Longrightarrow> traces (io_check perform c e) (ends_with (\<lambda>_. [(c, True)]))"
  by (rule traces_check) simp_all

lemma ends_with_then:
  "traces m (ends_with (\<lambda>_. cs)) \<Longrightarrow> \<not> executes cs \<Longrightarrow> list_all worked cs \<Longrightarrow> traces n (ends_with ds) \<Longrightarrow>
     traces (io_then m n) (ends_with (\<lambda>x. cs @ ds x))"
  by (erule traces_then, assumption) (auto simp: ends_with_def butlast_append split: sum.splits)

definition enter_sandbox :: "toolkit \<Rightarrow> 'k os \<Rightarrow> string \<Rightarrow> service_id \<Rightarrow> ('k, bool) io" where
  "enter_sandbox T os fs_root i =
      io_then (io_check (os_result os) (Chroot fs_root) (System_Exception ''chroot''))
     (io_then (io_check (os_result os) (Chdir ''/'') (System_Exception ''chdir /''))
        (io_test (os_result os) (Exec (service_binary T i) (service_argv T i))))"

abbreviation sandbox_entry :: "toolkit \<Rightarrow> string \<Rightarrow> service_id \<Rightarrow> bool \<Rightarrow> (sys_call \<times> bool) list" where
  "sandbox_entry T fs_root i ok \<equiv>
     [(Chroot fs_root, True), (Chdir ''/'', True), (Exec (service_binary T i) (service_argv T i), ok)]"

lemma enter_sandbox_ends: "traces (enter_sandbox T os fs_root i) (ends_with (sandbox_entry T fs_root i))"
proof -
  have "traces (io_test (os_result os) c) (ends_with (\<lambda>ok. [(c, ok)]))" for c
    by (rule traces_test) simp
  from ends_with_then [OF ends_with_check _ _ ends_with_then [OF ends_with_check _ _ this]] show ?thesis
    by (simp add: enter_sandbox_def)
qed

lemma run_process_eq:
  "run_process T devel os split root i =
     (let fs_root = root @ ''/../root'' in
      io_bind (read_config os split (get_service_path T root i @ ''/'' @ class_id_to_string T i @ ''.conf'')) (\<lambda>deps.
        io_then (io_check (os_result os) (Mount_Private ''/'') (System_Exception ''mount / [private]''))
       (io_then (io_check (os_result os) (Mount_Tmpfs fs_root ''size=1m'') (System_Exception ''mount tmpfs''))
       (io_then
          (io_then (io_each (bind_dependency os split fs_root) deps)
          (io_then (manager_bind os split root (root @ ''/../root/packages''))
             (io_when devel (manager_bind os split ''/proc'' (root @ ''/../root/proc'')))))
          (enter_sandbox T os fs_root i)))))"
  by (simp add: run_process_def enter_sandbox_def Let_def io_then_assoc)

text \<open>What \<open>RunProcess\<close> has done behind a part \<open>before\<close> of the trace.\<close>

definition goes_through ::
  "(sys_call \<times> bool) list \<Rightarrow> toolkit \<Rightarrow> bool \<Rightarrow> string \<Rightarrow> service_id \<Rightarrow> string list \<Rightarrow> exn + bool \<Rightarrow> (sys_call \<times> bool) list \<Rightarrow> bool" where
  "goes_through before T devel root i deps r t \<longleftrightarrow>
     (case r of
        Inl e \<Rightarrow> \<not> executes t \<and> stops r t
      | Inr ok \<Rightarrow> \<exists>u. t = before @ u @ sandbox_entry T (root @ ''/../root'') i ok \<and> list_all is_prepare (map fst u) \<and>
          list_all worked u \<and> filter is_bind (map fst u) = service_mounts devel root deps)"

lemma prepare_and_enter:
  "traces (io_then (io_then (io_each (bind_dependency os split (root @ ''/../root'')) deps)
      (io_then (manager_bind os split root (root @ ''/../root/packages''))
         (io_when devel (manager_bind os split ''/proc'' (root @ ''/../root/proc'')))))
      (enter_sandbox T os (root @ ''/../root'') i)) (goes_through [] T devel root i deps)"
  by (rule traces_then [OF prepare_calls enter_sandbox_ends])
    (auto simp: goes_through_def calls_only_def ends_with_def is_prepare_not_exec butlast_append split: sum.splits)

lemma check_and_go:
  assumes "\<not> is_exec c" and "\<not> worked (c, False)" and "traces m (goes_through before T devel root i deps)"
  shows "traces (io_then (io_check perform c e) m) (goes_through ((c, True) # before) T devel root i deps)"
  by (rule traces_then [OF ends_with_check [OF assms(1,2)] assms(3)])
    (use assms(1) in \<open>auto simp: goes_through_def ends_with_def split: sum.splits\<close>)

text \<open>The two checks of the mounts and what follows, as \<open>RunProcess\<close> makes them.\<close>

lemma mounts_and_go:
  assumes "traces m (goes_through [] T devel root i deps)"
  shows "traces (io_then (io_check (os_result os) (Mount_Private ''/'') e) (io_then (io_check (os_result os) (Mount_Tmpfs dir opt) e') m))
    (goes_through [(Mount_Private ''/'', True), (Mount_Tmpfs dir opt, True)] T devel root i deps)"
  by (intro check_and_go assms) simp_all

lemma run_process_trace:
  assumes "run_process T devel os split root i p = (r, p')" and "pr_trace p = []"
  shows "case r of
      Inl e \<Rightarrow> \<not> executes (pr_trace p') \<and> stops r (pr_trace p')
    | Inr ok \<Rightarrow> \<exists>text k. os_read_file os (get_service_path T root i @ ''/'' @ class_id_to_string T i @ ''.conf'') (pr_os p) = (Inr text, k) \<and>
        sandboxed T devel root i (sorted_list_of_set (config_dependencies split text)) ok (pr_trace p')"
proof -
  let ?conf = "get_service_path T root i @ ''/'' @ class_id_to_string T i @ ''.conf''"
  obtain q k where q: "os_read_file os ?conf (pr_os p) = (q, k)" by (cases "os_read_file os ?conf (pr_os p)")
  let ?p1 = "\<lparr>pr_os = k, pr_trace = [(Read_File ?conf, \<not> isl q)]\<rparr>"
  show ?thesis
  proof (cases q)
    case (Inl e)
    then have "run_process T devel os split root i p = (Inl e, ?p1)"
      using q assms(2) by (simp add: run_process_eq read_config_def io_bind_def io_call_def Let_def)
    with assms(1) Inl show ?thesis by auto
  next
    case (Inr body)
    let ?deps = "sorted_list_of_set (config_dependencies split body)"
    have "read_config os split ?conf p = (Inr ?deps, ?p1)"
      using q Inr assms(2) by (simp add: read_config_def io_bind_def io_call_def io_return_def)
    with assms(1) have "io_then (io_check (os_result os) (Mount_Private ''/'') (System_Exception ''mount / [private]''))
        (io_then (io_check (os_result os) (Mount_Tmpfs (root @ ''/../root'') ''size=1m'') (System_Exception ''mount tmpfs''))
          (io_then (io_then (io_each (bind_dependency os split (root @ ''/../root'')) ?deps)
            (io_then (manager_bind os split root (root @ ''/../root/packages''))
               (io_when devel (manager_bind os split ''/proc'' (root @ ''/../root/proc'')))))
            (enter_sandbox T os (root @ ''/../root'') i))) ?p1 = (r, p')"
      by (simp add: run_process_eq Let_def io_bind_def)
    with mounts_and_go [OF prepare_and_enter [of os split root ?deps devel T i]] obtain t where
      "pr_trace p' = (Read_File ?conf, True) # t"
      "goes_through [(Mount_Private ''/'', True), (Mount_Tmpfs (root @ ''/../root'') ''size=1m'', True)] T devel root i ?deps r t"
      unfolding traces_def using Inr by fastforce
    then show ?thesis
      using q Inr by (auto simp: sandboxed_def goes_through_def split: sum.splits)
  qed
qed

section \<open>When every call succeeds\<close>

definition os_willing :: "'k os \<Rightarrow> bool" where
  "os_willing os \<longleftrightarrow>
     (\<forall>s k. \<exists>x k'. os_read_file os s k = (Inr x, k')) \<and> (\<forall>s k. \<exists>x k'. os_is_dir os s k = (Inr x, k')) \<and>
     (\<forall>s k. \<exists>x k'. os_mkdir os s k = (Inr x, k')) \<and> (\<forall>s k. \<exists>x k'. os_create os s k = (Inr x, k')) \<and>
     (\<forall>s k. fst (os_mount_private os s k)) \<and> (\<forall>s u k. fst (os_mount_tmpfs os s u k)) \<and> (\<forall>s u k. fst (os_mount_bind os s u k)) \<and>
     (\<forall>s k. fst (os_chroot os s k)) \<and> (\<forall>s k. fst (os_chdir os s k)) \<and> (\<forall>s u k. fst (os_exec os s u k))"

lemma make_dirs_succeeds: "os_willing os \<Longrightarrow> succeeds (make_dirs os dirs path) (\<lambda>_. True)"
  by (induction dirs arbitrary: path)
    (auto simp: Let_def os_willing_def intro!: succeeds_then succeeds_bind [OF succeeds_test [where P = "\<lambda>_. True"]] succeeds_when succeeds_call)

lemma manager_bind_succeeds:
  assumes "os_willing os" and "CHR ''/'' \<in> set dst"
  shows "succeeds (manager_bind os split src dst) (\<lambda>_. True)"
  unfolding manager_bind_def
proof (rule succeeds_bind [OF succeeds_call [where P = "\<lambda>_. True"]])
  obtain slash_pos where p: "rfind_char (CHR ''/'') dst = Some slash_pos"
    using assms(2) by (cases "rfind_char (CHR ''/'') dst") (simp_all add: rfind_char_def)
  fix is_dir
  show "succeeds (case rfind_char CHR ''/'' dst of None \<Rightarrow> io_throw (Exception ''no slash in dst path'')
      | Some slash_pos \<Rightarrow>
          io_then (make_dirs os (split (take slash_pos dst) ''/'') [])
           (io_then (if is_dir then io_call (Make_Dir dst) (os_mkdir os dst) else io_call (Create_File dst) (os_create os dst))
             (io_check (os_result os) (Mount_Bind src dst) (System_Exception (''mount '' @ src @ '' '' @ dst)))))
     (\<lambda>_. True)"
    using assms(1) unfolding p option.case
    by (auto simp: os_willing_def intro!: succeeds_then make_dirs_succeeds [OF assms(1)] succeeds_call succeeds_check)
qed (use assms(1) in \<open>auto simp: os_willing_def\<close>)

lemma bind_dependency_succeeds:
  assumes "os_willing os" and "CHR ''/'' \<in> set fs_root"
  shows "succeeds (bind_dependency os split fs_root dep) (\<lambda>_. True)"
  using assms(2)
  by (auto simp: bind_dependency_def dependency_bind_def intro!: succeeds_when manager_bind_succeeds [OF assms(1)])

lemma run_process_succeeds:
  assumes "os_willing os"
  shows "succeeds (run_process T devel os split root i) (\<lambda>ok. ok)"
proof -
  have r: "succeeds (read_config os split path) (\<lambda>_. True)" for path
    using assms unfolding read_config_def
    by (intro succeeds_bind [OF succeeds_call [where P = "\<lambda>_. True"]] succeeds_return) (auto simp: os_willing_def)
  have w: "fst (os_mount_private os s k)" "fst (os_mount_tmpfs os s u k)" "fst (os_chroot os s k)" "fst (os_chdir os s k)"
      "fst (os_exec os s v k)" for s u v k
    using assms by (simp_all add: os_willing_def)
  have x: "succeeds (io_test (os_result os) (Exec b argv)) (\<lambda>ok. ok)" for b argv
    by (rule succeeds_test) (simp add: w(5))
  show ?thesis
    unfolding run_process_def Let_def
    by (intro succeeds_bind [OF r] succeeds_then succeeds_check succeeds_each bind_dependency_succeeds manager_bind_succeeds
        succeeds_when assms x) (simp_all add: w)
qed

text \<open>
  For the witnesses: an operating system on which every call succeeds, and a \<^verbatim>\<open>Split\<close> that cuts
  at the first character of the delimiter.
\<close>

fun split_on :: "char \<Rightarrow> string \<Rightarrow> string list" where
  "split_on c [] = [[]]"
| "split_on c (x # xs) = (if x = c then [] # split_on c xs else (x # hd (split_on c xs)) # tl (split_on c xs))"

definition demo_os :: "string \<Rightarrow> unit os" where
  "demo_os config =
     \<lparr>os_read_file = (\<lambda>path k. (Inr config, k)), os_is_dir = (\<lambda>path k. (Inr True, k)), os_access = (\<lambda>path k. False),
      os_mkdir = (\<lambda>path k. (Inr (), k)), os_create = (\<lambda>path k. (Inr (), k)),
      os_mount_private = (\<lambda>d k. (True, k)), os_mount_tmpfs = (\<lambda>d opt k. (True, k)), os_mount_bind = (\<lambda>src dst k. (True, k)),
      os_chroot = (\<lambda>d k. (True, k)), os_chdir = (\<lambda>d k. (True, k)), os_exec = (\<lambda>b argv k. (True, k))\<rparr>"

lemma demo_os_willing [simp]: "os_willing (demo_os config)"
  unfolding os_willing_def demo_os_def by auto

section \<open>Waiting for the service\<close>

text \<open>
  A script of what the pipe delivers to a manager that clones the child \<open>pid\<close>: \<open>None\<close> for a poll
  without an event. When the script is used up, every poll is without an event.
\<close>

definition script_os :: "int \<Rightarrow> event option list manager_os" where
  "script_os pid =
     \<lparr>mo_malloc = (\<lambda>k. (True, k)), mo_clone = (\<lambda>i k. (pid, k)),
      mo_poll = (\<lambda>k. case k of [] \<Rightarrow> (Inr 0, []) | None # k1 \<Rightarrow> (Inr 0, k1) | Some e # k1 \<Rightarrow> (Inr 1, k)),
      mo_read_event = (\<lambda>k. case k of Some e # k1 \<Rightarrow> (Inr (sizeof_event, e), k1) | _ \<Rightarrow> (Inl (Exception ''empty pipe''), k))\<rparr>"

text \<open>An event that ends the wait for the process \<open>pid\<close>: any start, or the end of that process.\<close>

definition decisive :: "int \<Rightarrow> event \<Rightarrow> bool" where
  "decisive pid e \<longleftrightarrow> Event_Type e = Started \<or> Event_Id e = pid"

fun first_decisive :: "int \<Rightarrow> event option list \<Rightarrow> (event \<times> event option list) option" where
  "first_decisive pid [] = None"
| "first_decisive pid (None # es) = first_decisive pid es"
| "first_decisive pid (Some e # es) = (if decisive pid e then Some (e, es) else first_decisive pid es)"

definition start_outcome :: "toolkit \<Rightarrow> service_id \<Rightarrow> int \<Rightarrow> event \<Rightarrow> exn option" where
  "start_outcome T i pid e =
     (if Event_Type e = Started
      then (if Event_Id e = pid then None else Some (Exception ''spurious startup signal''))
      else Some (Exception (''process '' @ class_id_to_string T i @ '' failed to start'')))"

lemma script_poll [simp]:
  "mo_poll (script_os pid) [] = (Inr 0, [])"
  "mo_poll (script_os pid) (None # k) = (Inr 0, k)"
  "mo_poll (script_os pid) (Some e # k) = (Inr 1, Some e # k)"
  "mo_read_event (script_os pid) (Some e # k) = (Inr (sizeof_event, e), k)"
  by (simp_all add: script_os_def)

lemma await_start_silent:
  assumes "mo_poll M k = (Inr 0, k)"
  shows "await_start T M i pid k = None"
proof (rule ccontr)
  assume "await_start T M i pid k \<noteq> None"
  then obtain r where r: "await_start T M i pid k = Some r" by blast
  have "mo_poll M k \<noteq> (Inr 0, k)"
    by (rule await_start.raw_induct [OF _ r]) auto
  with assms show False by simp
qed

lemma await_start_decided:
  "await_start T (script_os child) i pid es =
     map_option (\<lambda>(e, rest). (start_outcome T i pid e, rest)) (first_decisive pid es)"
proof (induction pid es rule: first_decisive.induct)
  case (1 pid)
  have "await_start T (script_os child) i pid [] = None"
    by (rule await_start_silent) simp
  then show ?case by simp
next
  case (2 pid es)
  then show ?case by (subst await_start.simps) simp
next
  case (3 pid e es)
  then show ?case
    by (subst await_start.simps) (auto simp: decisive_def start_outcome_def split: event_type.split)
qed

lemma manager_start_decided:
  assumes "mk_class_id name (ucast version) = Inr i" and "pid \<noteq> -1"
  shows "manager_start T (script_os pid) name version es =
    map_option (\<lambda>(e, rest). (start_outcome T i pid e, rest)) (first_decisive pid es)"
  using assms await_start_decided [of T pid i pid es] by (simp add: manager_start_def) (simp add: script_os_def)

section \<open>Properties\<close>

text \<open>
  C24: a service is executed only inside its sandbox. If the child executes anything, then what it
  executes is the service's own binary with \<^verbatim>\<open>--notify-parent\<close>, as the last call of a trace in which
  the configuration was read, the mounts were made private, a new root was mounted, exactly the
  configured dependencies (in order), the packages and in development mode \<^verbatim>\<open>/proc\<close> were bound into it,
  and \<^verbatim>\<open>chroot\<close> and \<^verbatim>\<open>chdir\<close> were called; the operating system has carried out all of these calls,
  as the outcome recorded with each of them says. The image is replaced if and only if the operating
  system carries out the last call too; in every other case the child exits with status 1.
\<close>

theorem service_runs_sandboxed:
  assumes "run_process_trampoline T devel os split root i p = (child, p')" and "pr_trace p = []"
  shows "(child = Exits 1 \<or> child = Runs (service_binary T i) (service_argv T i)) \<and>
    (executes (pr_trace p') \<or> child \<noteq> Exits 1 \<longrightarrow>
      (\<exists>text k. os_read_file os (get_service_path T root i @ ''/'' @ class_id_to_string T i @ ''.conf'') (pr_os p) = (Inr text, k) \<and>
        sandboxed T devel root i (sorted_list_of_set (config_dependencies split text)) (child \<noteq> Exits 1) (pr_trace p')))"
proof -
  obtain r q where r: "run_process T devel os split root i p = (r, q)"
    by (cases "run_process T devel os split root i p")
  with assms(1) have "q = p'"
    by (auto simp: run_process_trampoline_def split: sum.splits)
  with run_process_trace [OF r assms(2)] assms(1) r show ?thesis
    by (auto simp: run_process_trampoline_def split: sum.splits if_splits)
qed

theorem service_runs_sandboxed_witness:
  "\<exists>p'. run_process_trampoline demo_toolkit True (demo_os ''lib'') (\<lambda>text d. split_on (hd d) text) ''/p''
      \<lparr>Name = ''a'', Version = 1\<rparr> \<lparr>pr_os = (), pr_trace = []\<rparr> =
      (Runs (service_binary demo_toolkit \<lparr>Name = ''a'', Version = 1\<rparr>) (service_argv demo_toolkit \<lparr>Name = ''a'', Version = 1\<rparr>), p') \<and>
    sandboxed demo_toolkit True ''/p'' \<lparr>Name = ''a'', Version = 1\<rparr>
      (sorted_list_of_set (config_dependencies (\<lambda>text d. split_on (hd d) text) ''lib'')) True (pr_trace p')"
proof -
  let ?T = demo_toolkit and ?os = "demo_os ''lib''" and ?split = "\<lambda>text d. split_on (hd d) text"
    and ?i = "\<lparr>Name = ''a'', Version = 1\<rparr>" and ?p = "\<lparr>pr_os = (), pr_trace = []\<rparr>"
  obtain p' where "run_process ?T True ?os ?split ''/p'' ?i ?p = (Inr True, p')"
    using run_process_succeeds [OF demo_os_willing [of "''lib''"], of ?T True ?split "''/p''" ?i] unfolding succeeds_def by metis
  then have run: "run_process_trampoline ?T True ?os ?split ''/p'' ?i ?p = (Runs (service_binary ?T ?i) (service_argv ?T ?i), p')"
    by (simp add: run_process_trampoline_def)
  from service_runs_sandboxed [OF run] obtain body k where
    "os_read_file ?os (get_service_path ?T ''/p'' ?i @ ''/'' @ class_id_to_string ?T ?i @ ''.conf'') () = (Inr body, k)"
    "sandboxed ?T True ''/p'' ?i (sorted_list_of_set (config_dependencies ?split body)) True (pr_trace p')"
    by auto
  then show ?thesis
    using run by (auto simp: demo_os_def)
qed

text \<open>
  C25: the child stops at the first failure. Whatever the operating system refuses to do, every
  call before the child's last one has been carried out (\<^verbatim>\<open>Access\<close> may have answered with no); if the
  last one was carried out too, the service's image runs, and otherwise the child exits with status 1
  and has called nothing after it. There is always a last call.
\<close>

theorem failure_ends_child:
  assumes "run_process_trampoline T devel os split root i p = (child, p')" and "pr_trace p = []"
  shows "pr_trace p' \<noteq> [] \<and> list_all worked (butlast (pr_trace p')) \<and>
    child = (if worked (last (pr_trace p')) then Runs (service_binary T i) (service_argv T i) else Exits 1)"
proof -
  obtain r q where r: "run_process T devel os split root i p = (r, q)"
    by (cases "run_process T devel os split root i p")
  with assms(1) have "q = p'"
    by (auto simp: run_process_trampoline_def split: sum.splits)
  with run_process_trace [OF r assms(2)] assms(1) r show ?thesis
    by (auto simp: run_process_trampoline_def sandboxed_def butlast_append split: sum.splits if_splits)
qed

text \<open>An operating system that refuses to mount a new root.\<close>

definition demo_full_os :: "unit os" where
  "demo_full_os = (demo_os ''lib'')\<lparr>os_mount_tmpfs := (\<lambda>d opt k. (False, k))\<rparr>"

theorem failure_ends_child_witness:
  "\<exists>p'. run_process_trampoline demo_toolkit True demo_full_os (\<lambda>text d. split_on (hd d) text) ''/p''
      \<lparr>Name = ''a'', Version = 1\<rparr> \<lparr>pr_os = (), pr_trace = []\<rparr> = (Exits 1, p') \<and>
    \<not> worked (last (pr_trace p')) \<and> list_all worked (butlast (pr_trace p'))"
proof -
  let ?run = "run_process_trampoline demo_toolkit True demo_full_os (\<lambda>text d. split_on (hd d) text) ''/p''
      \<lparr>Name = ''a'', Version = 1\<rparr> \<lparr>pr_os = (), pr_trace = []\<rparr>"
  obtain p' where run: "?run = (Exits 1, p')"
    by (simp add: run_process_trampoline_def run_process_def read_config_def demo_full_os_def demo_os_def
        io_bind_def io_then_def io_call_def io_check_def io_test_def io_return_def io_throw_def Let_def)
  from failure_ends_child [OF run] run show ?thesis
    by (auto split: if_splits)
qed

text \<open>
  C27: a service runs if nothing fails. If every system call succeeds, the child's image is replaced
  by the service's binary, for every configuration, and the arguments that the manager passes make
  the service's \<^verbatim>\<open>Application\<close> signal its parent when it runs.
\<close>

theorem service_runs_and_notifies:
  assumes "os_willing os"
  shows "fst (run_process_trampoline T devel os split root i p) = Runs (service_binary T i) (service_argv T i) \<and>
    app_new (service_argv T i) = (True, False)"
proof
  obtain p' where "run_process T devel os split root i p = (Inr True, p')"
    using run_process_succeeds [OF assms, of T devel split root i] unfolding succeeds_def by metis
  then show "fst (run_process_trampoline T devel os split root i p) = Runs (service_binary T i) (service_argv T i)"
    by (simp add: run_process_trampoline_def)
  show "app_new (service_argv T i) = (True, False)"
    by (simp add: app_new_def service_argv_def)
qed

theorem service_runs_and_notifies_witness:
  "fst (run_process_trampoline demo_toolkit False (demo_os ''/dev'') (\<lambda>text d. split_on (hd d) text) ''/p''
      \<lparr>Name = ''a'', Version = 1\<rparr> \<lparr>pr_os = (), pr_trace = []\<rparr>) =
    Runs (service_binary demo_toolkit \<lparr>Name = ''a'', Version = 1\<rparr>) (service_argv demo_toolkit \<lparr>Name = ''a'', Version = 1\<rparr>)"
  using service_runs_and_notifies [OF demo_os_willing] by blast

text \<open>
  C26: the first decisive event decides. \<^verbatim>\<open>start\<close> skips polls without an event and the ends of other
  processes; it returns at the first start signal of the child it cloned, throws at a start signal
  of any other process or at the end of that child, and waits for ever if there is no such event:
  the loop has no timeout.
\<close>

theorem manager_start_events:
  assumes "CHR ''-'' \<notin> set name" and "pid \<noteq> -1"
  shows "manager_start T (script_os pid) name version es =
    map_option (\<lambda>(e, rest). (start_outcome T \<lparr>Name = name, Version = 1\<rparr> pid e, rest)) (first_decisive pid es)"
  by (rule manager_start_decided [OF mk_class_id_plain [OF assms(1)] assms(2)])

theorem manager_start_events_witness:
  "manager_start demo_toolkit (script_os 100) ''a'' 1
     [Some (on_sig_chld 7), None, Some (on_sig_usr2 100)] = Some (None, [])"
  using manager_start_events [of "''a''" 100 demo_toolkit 1 "[Some (on_sig_chld 7), None, Some (on_sig_usr2 100)]"]
  by (simp add: decisive_def start_outcome_def on_sig_chld_def on_sig_usr2_def)

text \<open>
  The manager's root is the directory two levels above its executable if there are two such
  levels. If the path has only one slash, the constructor does not throw although it means to: the
  root is then the whole path (or, for a slash at the front, empty).
\<close>

lemma manager_root_cases:
  assumes "CHR ''/'' \<notin> set dir" and "CHR ''/'' \<notin> set exe"
  shows "manager_root (root @ ''/'' @ dir @ ''/'' @ exe) = Inr root \<and>
    manager_root (dir @ ''/'' @ exe) = Inr (if dir = [] then [] else dir @ ''/'' @ exe) \<and>
    manager_root exe = Inl (Exception ''could not find parent directory'')"
proof -
  have "rfind_char (CHR ''/'') (root @ CHR ''/'' # dir @ CHR ''/'' # exe) = Some (length (root @ CHR ''/'' # dir))"
    using rfind_char_append [of "CHR ''/''" exe "root @ CHR ''/'' # dir"] assms(2) by simp
  then show ?thesis
    using assms by (simp add: manager_root_def Let_def) (simp add: rfind_char_def)
qed

lemma manager_root_cases_witness:
  "manager_root (''/opt'' @ ''/'' @ ''sm-1'' @ ''/'' @ ''sm-1'') = Inr ''/opt''"
  using manager_root_cases [of "''sm-1''" "''sm-1''" "''/opt''"] by simp

end
