(* ===== verification/Random_Generator.thy ===== *)
theory Random_Generator
  imports Complex_Main Pbus_Prelude
begin

text \<open>
  The random number service (src/src/services/system/randomgenerator/main.cpp). \<^verbatim>\<open>getInteger\<close>
  computes in \<^verbatim>\<open>double\<close>; \<open>rnd\<close> is the rounding of a \<^verbatim>\<open>double\<close> operation, of which \<open>double_ok\<close>
  states what IEEE 754 guarantees for the numbers that occur: monotone, exact for the integers
  up to \<open>2 ^ 53\<close>, relative error at most \<open>2 ^ -53\<close>. The interface declares the argument
  \<^verbatim>\<open>max\<close> as non-inclusive.
\<close>

definition double_ok :: "(rat \<Rightarrow> rat) \<Rightarrow> bool" where
  "double_ok rnd \<longleftrightarrow>
     (\<forall>x y. x \<le> y \<longrightarrow> rnd x \<le> rnd y) \<and> (\<forall>n :: nat. n \<le> 2 ^ 53 \<longrightarrow> rnd (of_nat n) = of_nat n) \<and>
     (\<forall>x. 0 \<le> x \<longrightarrow> rnd x \<le> x * (1 + 1 / 2 ^ 53))"

text \<open>\<^verbatim>\<open>RAND_MAX\<close> of the C library, and \<^verbatim>\<open>floor(1.0 * rand() / RAND_MAX * max)\<close>, \<open>r\<close> being the value of \<^verbatim>\<open>rand()\<close>.\<close>

definition rand_max :: nat where
  "rand_max = 2 ^ 31 - 1"

definition get_integer :: "(rat \<Rightarrow> rat) \<Rightarrow> nat \<Rightarrow> u32 \<Rightarrow> u32" where
  "get_integer rnd r m =
     word_of_int \<lfloor>rnd (rnd (rnd (1 * of_nat r) / of_nat rand_max) * of_nat (unat m))\<rfloor>"

section \<open>Bounds\<close>

lemma double_ok_id: "double_ok (\<lambda>x. x)"
  by (simp add: double_ok_def)

text \<open>The value before the conversion to an unsigned integer.\<close>

definition scaled :: "(rat \<Rightarrow> rat) \<Rightarrow> nat \<Rightarrow> nat \<Rightarrow> rat" where
  "scaled rnd r n = rnd (rnd (rnd (1 * of_nat r) / of_nat rand_max) * of_nat n)"

lemma rnd_nat: "double_ok rnd \<Longrightarrow> n \<le> 2 ^ 53 \<Longrightarrow> rnd (of_nat n) = of_nat n"
  by (simp add: double_ok_def)

lemma rnd_mono: "double_ok rnd \<Longrightarrow> x \<le> y \<Longrightarrow> rnd x \<le> rnd y"
  by (simp add: double_ok_def)

lemma rnd_error: "double_ok rnd \<Longrightarrow> 0 \<le> x \<Longrightarrow> rnd x \<le> x * (1 + 1 / 2 ^ 53)"
  by (simp add: double_ok_def)

lemma rnd_nonneg: "double_ok rnd \<Longrightarrow> 0 \<le> x \<Longrightarrow> 0 \<le> rnd x"
  using rnd_mono [of rnd 0 x] rnd_nat [of rnd 0] by simp

lemma scaled_top:
  assumes "double_ok rnd" and "n < 2 ^ 32"
  shows "scaled rnd rand_max n = of_nat n"
proof -
  have "rnd (1 * of_nat rand_max) = of_nat rand_max"
    using rnd_nat [OF assms(1), of rand_max] by (simp add: rand_max_def)
  then have "rnd (rnd (1 * of_nat rand_max) / of_nat rand_max) = 1"
    using rnd_nat [OF assms(1), of 1] by (simp add: rand_max_def)
  then show ?thesis
    using rnd_nat [OF assms(1), of n] assms(2) by (simp add: scaled_def)
qed

lemma quotient_below:
  assumes "double_ok rnd" and "r < rand_max"
  shows "0 \<le> rnd (rnd (1 * of_nat r) / of_nat rand_max)"
    and "rnd (rnd (1 * of_nat r) / of_nat rand_max) \<le> (1 - 1 / 2 ^ 31) * (1 + 1 / 2 ^ 53)"
proof -
  have r: "rnd (1 * of_nat r) = of_nat r"
    using rnd_nat [OF assms(1), of r] assms(2) by (simp add: rand_max_def)
  show "0 \<le> rnd (rnd (1 * of_nat r) / of_nat rand_max)"
    unfolding r by (rule rnd_nonneg [OF assms(1)]) simp
  have "r \<le> 2 ^ 31 - 2"
    using assms(2) by (simp add: rand_max_def)
  then have "of_nat r / of_nat rand_max \<le> (of_nat (2 ^ 31 - 2) / of_nat rand_max :: rat)"
    by (intro divide_right_mono) (simp_all only: of_nat_le_iff of_nat_0_le_iff)
  also have "\<dots> \<le> 1 - 1 / 2 ^ 31"
    by (simp add: rand_max_def)
  finally have q: "of_nat r / of_nat rand_max \<le> (1 - 1 / 2 ^ 31 :: rat)" .
  have "rnd (of_nat r / of_nat rand_max) \<le> of_nat r / of_nat rand_max * (1 + 1 / 2 ^ 53)"
    by (rule rnd_error [OF assms(1)]) simp
  also have "\<dots> \<le> (1 - 1 / 2 ^ 31) * (1 + 1 / 2 ^ 53)"
    by (rule mult_right_mono [OF q]) simp
  finally show "rnd (rnd (1 * of_nat r) / of_nat rand_max) \<le> (1 - 1 / 2 ^ 31) * (1 + 1 / 2 ^ 53)"
    unfolding r .
qed

lemma scaled_below:
  assumes "double_ok rnd" and "r < rand_max" and "0 < n"
  shows "0 \<le> scaled rnd r n" and "scaled rnd r n < of_nat n"
proof -
  let ?q = "rnd (rnd (1 * of_nat r) / of_nat rand_max)"
  note q = quotient_below [OF assms(1,2)]
  have nn: "0 \<le> ?q * of_nat n"
    using q(1) by simp
  show "0 \<le> scaled rnd r n"
    unfolding scaled_def by (rule rnd_nonneg [OF assms(1) nn])
  have "scaled rnd r n \<le> ?q * of_nat n * (1 + 1 / 2 ^ 53)"
    unfolding scaled_def by (rule rnd_error [OF assms(1) nn])
  also have "\<dots> \<le> (1 - 1 / 2 ^ 31) * (1 + 1 / 2 ^ 53) * of_nat n * (1 + 1 / 2 ^ 53)"
    using q(2) by (intro mult_right_mono) simp_all
  also have "\<dots> = of_nat n * ((1 - 1 / 2 ^ 31) * (1 + 1 / 2 ^ 53) * (1 + 1 / 2 ^ 53))"
    by (simp only: mult.commute mult.left_commute)
  also have "\<dots> < of_nat n * 1"
    using assms(3) by (intro mult_strict_left_mono) simp_all
  finally show "scaled rnd r n < of_nat n" by simp
qed

lemma get_integer_range:
  assumes "double_ok rnd" and "r \<le> rand_max"
  shows "get_integer rnd r m \<le> m \<and> (get_integer rnd r m = m \<longleftrightarrow> r = rand_max \<or> m = 0)"
proof -
  have m: "unat m < 2 ^ 32"
    by (rule order_less_le_trans [OF unsigned_less]) simp
  have eq: "get_integer rnd r m = word_of_int \<lfloor>scaled rnd r (unat m)\<rfloor>"
    by (simp add: get_integer_def scaled_def)
  consider "r = rand_max" | "m = 0" "r < rand_max" | "0 < m" "r < rand_max"
    using assms(2) by (metis le_neq_implies_less word_neq_0_conv)
  then show ?thesis
  proof cases
    case 1
    have "get_integer rnd r m = m"
      unfolding eq unfolding 1 scaled_top [OF assms(1) m] floor_of_nat by simp
    with 1 show ?thesis by simp
  next
    case 2
    have "rnd 0 = 0" using rnd_nat [OF assms(1), of 0] by simp
    then have "get_integer rnd r m = 0"
      unfolding eq unfolding 2(1) scaled_def by simp
    with 2 show ?thesis by simp
  next
    case 3
    then have n: "0 < unat m" by (simp add: unat_gt_0 word_neq_0_conv [symmetric])
    note b = scaled_below [OF assms(1) 3(2) n]
    define k where "k = nat \<lfloor>scaled rnd r (unat m)\<rfloor>"
    have "\<lfloor>scaled rnd r (unat m)\<rfloor> = int k"
      using b(1) by (simp add: k_def)
    moreover have "k < unat m"
    proof -
      have "of_int \<lfloor>scaled rnd r (unat m)\<rfloor> < (of_int (int (unat m)) :: rat)"
        using b(2) of_int_floor_le [of "scaled rnd r (unat m)"] unfolding of_int_of_nat_eq by (rule le_less_trans [rotated])
      then show ?thesis unfolding of_int_less_iff k_def using n by linarith
    qed
    ultimately have "get_integer rnd r m = word_of_nat k" "unat (word_of_nat k :: u32) = k"
      using m by (simp_all add: eq unat_of_nat)
    then have "get_integer rnd r m < m"
      using \<open>k < unat m\<close> by (simp add: word_less_nat_alt)
    with 3 show ?thesis by auto
  qed
qed

section \<open>Properties\<close>

text \<open>
  C40: \<^verbatim>\<open>getInteger(max)\<close> is at most \<^verbatim>\<open>max\<close>, and it is \<^verbatim>\<open>max\<close>, which the interface excludes, exactly
  when \<^verbatim>\<open>rand()\<close> returns \<^verbatim>\<open>RAND_MAX\<close> (or \<^verbatim>\<open>max\<close> is 0).
\<close>

theorem get_integer_bounds:
  assumes "double_ok rnd" and "r \<le> rand_max"
  shows "get_integer rnd r m \<le> m \<and> (get_integer rnd r m = m \<longleftrightarrow> r = rand_max \<or> m = 0)"
  by (rule get_integer_range [OF assms])

theorem get_integer_bounds_witness:
  "get_integer (\<lambda>x. x) rand_max 100 = 100 \<and> get_integer (\<lambda>x. x) 5 100 \<noteq> 100"
  using get_integer_bounds [OF double_ok_id, of rand_max 100] get_integer_bounds [OF double_ok_id, of 5 100]
  by (simp add: rand_max_def)

end
