(* ===== verification/Pbus_String.thy ===== *)
theory Pbus_String
  imports Hash_Table
begin

text \<open>
  \<^verbatim>\<open>pbus::String\<close> (src/src/lib/pbus/String.h), a string that carries its hash, and
  \<^verbatim>\<open>MethodDescriptor\<close> (MethodDescriptor.h), which is made of such strings. \<open>str_hash\<close> is
  \<^verbatim>\<open>std::hash<std::string>\<close>.
\<close>

section \<open>String\<close>

record pbus_string =
  ps_str :: string
  ps_hash :: u64

text \<open>The constructor forwards its arguments to \<^verbatim>\<open>std::string\<close>: the argument here is the string they make.\<close>

definition mk_pbus_string :: "(string \<Rightarrow> u64) \<Rightarrow> string \<Rightarrow> pbus_string" where
  "mk_pbus_string str_hash str = \<lparr>ps_str = str, ps_hash = str_hash str\<rparr>"

definition pbus_string_get :: "pbus_string \<Rightarrow> string" where
  "pbus_string_get s = ps_str s"

definition pbus_string_get_hash :: "pbus_string \<Rightarrow> u64" where
  "pbus_string_get_hash s = ps_hash s"

definition pbus_string_eq :: "pbus_string \<Rightarrow> pbus_string \<Rightarrow> bool" where
  "pbus_string_eq a b \<longleftrightarrow> ps_str a = ps_str b"

text \<open>The struct \<^verbatim>\<open>Hash\<close>, which is also \<^verbatim>\<open>std::hash<pbus::String>\<close>.\<close>

definition pbus_string_hash :: "pbus_string \<Rightarrow> u64" where
  "pbus_string_hash s = pbus_string_get_hash s"

section \<open>MethodDescriptor\<close>

record method_descriptor =
  md_name :: pbus_string
  md_return_type :: pbus_string
  md_types :: "pbus_string list"

definition mk_method_descriptor :: "pbus_string \<Rightarrow> pbus_string \<Rightarrow> pbus_string list \<Rightarrow> method_descriptor" where
  "mk_method_descriptor rtype name types = \<lparr>md_name = name, md_return_type = rtype, md_types = types\<rparr>"

section \<open>Strings as keys\<close>

text \<open>
  As keys of a hashed table these strings behave as their contents do: the hash that
  was stored at construction is the hash of the contents.
\<close>

interpretation string_key: identifying_key
  "\<lambda>a b. pbus_string_eq (mk_pbus_string str_hash a) (mk_pbus_string str_hash b)"
  "\<lambda>a. pbus_string_hash (mk_pbus_string str_hash a)" for str_hash
  by unfold_locales
    (simp_all add: pbus_string_eq_def pbus_string_hash_def pbus_string_get_hash_def mk_pbus_string_def)

end
