(* ===== verification/Id_Tables.thy ===== *)
theory Id_Tables
  imports Object_Id Pbus_String
begin

text \<open>
  The tables of the program (\<^verbatim>\<open>_factories\<close>, \<^verbatim>\<open>_connections\<close>, \<^verbatim>\<open>_services\<close>, \<^verbatim>\<open>_requests\<close> and
  \<^verbatim>\<open>_localObjects\<close> of the session, \<^verbatim>\<open>_services\<close> of the registry) are hash tables keyed by
  identifiers and serials. The theories of the session model them by maps; here the two are
  shown to be equivalent.
\<close>

text \<open>A serial is its own hash in every implementation of \<^verbatim>\<open>std::hash\<close> in use; any function will do.\<close>

interpretation serial_key: identifying_key "(=) :: u32 \<Rightarrow> u32 \<Rightarrow> bool" hash for hash
  by unfold_locales auto

text \<open>
  C17: hash tables keyed by identifiers are maps. Whatever the hash functions of the library are, any
  sequence of finding, emplacing, assigning and erasing, interleaved with any number of rehashes,
  gives on a hash table that uses the \<^verbatim>\<open>Hash\<close> and \<^verbatim>\<open>Equal\<close> of the program's identifiers exactly
  the results it gives on a map.
\<close>

theorem id_tables_are_maps:
  "run_ops (table_step class_id_eq (class_id_hash name_hash version_hash combine)) class_ops (replicate (Suc n) []) =
     run_ops map_step class_ops Map.empty \<and>
   run_ops (table_step object_id_eq (object_id_hash type_hash id_hash combine)) object_ops (replicate (Suc n) []) =
     run_ops map_step object_ops Map.empty \<and>
   run_ops (table_step (=) serial_hash) serial_ops (replicate (Suc n) []) = run_ops map_step (serial_ops :: (u32, 'v) table_op list) Map.empty"
  using class_key.tables_run_as_maps object_key.tables_run_as_maps serial_key.tables_run_as_maps by blast

end
