(* ===== verification/Service_Registry.thy ===== *)
theory Service_Registry
  imports Id_Tables
begin

text \<open>
  \<^verbatim>\<open>ServiceDescriptor\<close> and \<^verbatim>\<open>ServiceRegistry\<close> of the service manager (src/src/services/system/
  servicemanager/ServiceDescriptor.h, ServiceRegistry.h and ServiceRegistry.cpp), a table of the
  programs that implement services. Nothing in the program uses it yet.
\<close>

record service_descriptor =
  Executable :: string
  Arguments :: "string list"
  Current_Directory :: string

record service_registry =
  sr_services :: "class_id \<rightharpoonup> service_descriptor"

text \<open>\<^verbatim>\<open>Add\<close> uses \<^verbatim>\<open>emplace\<close>.\<close>

definition registry_add :: "service_registry \<Rightarrow> class_id \<Rightarrow> service_descriptor \<Rightarrow> service_registry" where
  "registry_add r i d = r\<lparr>sr_services := map_emplace (sr_services r) i d\<rparr>"

definition registry_get_descriptor :: "service_registry \<Rightarrow> class_id \<Rightarrow> service_descriptor option" where
  "registry_get_descriptor r i = sr_services r i"

text \<open>The first registration of an identifier stays; the others are dropped without an error.\<close>

lemma registry_get_add:
  "registry_get_descriptor (registry_add r i d) j =
    (case registry_get_descriptor r j of None \<Rightarrow> if j = i then Some d else None | Some d' \<Rightarrow> Some d')"
  by (auto simp: registry_add_def registry_get_descriptor_def map_emplace_def split: option.splits)

lemma registry_first_add:
  "registry_get_descriptor (foldl (\<lambda>r (i, d). registry_add r i d) r ids) j =
    (case registry_get_descriptor r j of None \<Rightarrow> map_of ids j | Some d \<Rightarrow> Some d)"
proof (induction ids arbitrary: r)
  case (Cons id_desc ids)
  then show ?case
    by (cases id_desc) (auto simp: registry_get_add split: option.split)
qed (simp split: option.split)

end
