(* ===== verification/Live_Peer.thy ===== *)
theory Live_Peer
  imports Remote_Call
begin

text \<open>
  A caller together with the process that it calls. The world of the caller contains the other process,
  with a session and a world of its own, and the caller's polls let it run: what the caller writes
  the other process reads and handles, and what that has queued the caller reads. No answer is assumed;
  it is the one that the other process has computed.
\<close>

section \<open>A process in the world of another\<close>

text \<open>
  How a process is found in a world and replaced there: \<open>get\<close> and \<open>put\<close>. A world may also hold no
  process, and it may hold other things that \<open>put\<close> leaves alone.
\<close>

locale peer_world =
  fixes get :: "'v \<Rightarrow> ('p, 'w) state option" and put :: "('p, 'w) state \<Rightarrow> 'v \<Rightarrow> 'v"
  assumes get_put: "get v \<noteq> None \<Longrightarrow> get (put p v) = Some p"
    and put_put: "put p (put q v) = put p v"

text \<open>The buffer that an output event writes: the front of the queue.\<close>

definition head_buffer :: "connection \<Rightarrow> bytes" where
  "head_buffer c = (case conn_write_queue c of [] \<Rightarrow> [] | t # _ \<Rightarrow> wt_get_buffer t)"

text \<open>
  A poll of the caller on its connection to \<open>server\<close>, which knows it as \<open>client\<close>. While output is
  enabled the output event is delivered, and the other process (environment \<open>Ep\<close>, starting services by
  \<open>startp\<close>) reads and handles what was written. Otherwise the other process writes what it has queued and
  the input event is delivered; if it has queued nothing the poll times out.
\<close>

definition peer_poll ::
  "toolkit \<Rightarrow> ('o, 'v) env \<Rightarrow> ('o, 'v) start_fun \<Rightarrow> ('v \<Rightarrow> ('p, 'w) state option) \<Rightarrow> (('p, 'w) state \<Rightarrow> 'v \<Rightarrow> 'v) \<Rightarrow>
   ('p, 'w) env \<Rightarrow> ('p, 'w) start_fun \<Rightarrow> service_id \<Rightarrow> service_id \<Rightarrow> ('o, 'v) state \<Rightarrow> (exn + nat) \<times> ('o, 'v) state" where
  "peer_poll T E start get put Ep startp server client st =
     (case (ss_connections (fst st) server, get (snd st)) of
        (Some c, Some p) \<Rightarrow>
          if conn_out c then
            (case flush_output T E start server st of
               (Some e, st1) \<Rightarrow> (Inl e, st1)
             | (None, (s1, v1)) \<Rightarrow> (Inr 1, (s1, put (snd (receive_bytes T Ep startp client (head_buffer c) p)) v1)))
          else
            (case ss_connections (fst p) client of
               None \<Rightarrow> (Inr 0, st)
             | Some cp \<Rightarrow>
                 if conn_write_queue cp = [] then (Inr 0, st)
                 else (case receive_bytes T E start server (head_buffer cp)
                         (fst st, put (snd (flush_output T Ep startp client p)) (snd st)) of
                         (Some e, st1) \<Rightarrow> (Inl e, st1)
                       | (None, st1) \<Rightarrow> (Inr 1, st1)))
      | _ \<Rightarrow> (Inr 0, st))"

lemma receive_bytes_no_exception:
  assumes "ss_connections (fst st) i = Some c" and "d \<noteq> []"
  shows "fst (receive_bytes T E start i d st) = None"
  using receive_bytes_loop [OF assms] by simp

lemma peer_poll_writes:
  assumes "poll_ok T" and "ss_connections s server = Some c" and "conn_registered c" and "conn_out c"
    and "conn_write_queue c = [mk_write_task d]" and "d \<noteq> []" and "get v = Some p"
    and "receive_bytes T Ep startp client d p = (None, p1)"
  shows "peer_poll T E start get put Ep startp server client (s, v) =
    (Inr 1, (s\<lparr>ss_connections := (ss_connections s)(server \<mapsto> c\<lparr>conn_write_queue := [], conn_out := False\<rparr>)\<rparr>, put p1 v))"
  using flush_one [where E = E and start = start and w = v, OF assms(1-6)] assms(2,4,5,7,8)
  by (simp add: peer_poll_def head_buffer_def)

lemma peer_poll_reads:
  assumes "poll_ok T" and "ss_connections s server = Some c" and "\<not> conn_out c" and "get v = Some (sp, w)"
    and "ss_connections sp client = Some cp" and "conn_registered cp" and "conn_out cp"
    and "conn_write_queue cp = [mk_write_task d]" and "d \<noteq> []"
  shows "peer_poll T E start get put Ep startp server client (s, v) = (Inr 1, snd (receive_bytes T E start server d
    (s, put (sp\<lparr>ss_connections := (ss_connections sp)(client \<mapsto> cp\<lparr>conn_write_queue := [], conn_out := False\<rparr>)\<rparr>, w) v)))"
proof -
  let ?p = "(sp\<lparr>ss_connections := (ss_connections sp)(client \<mapsto> cp\<lparr>conn_write_queue := [], conn_out := False\<rparr>)\<rparr>, w)"
  have "flush_output T Ep startp client (sp, w) = (None, ?p)"
    by (rule flush_one [OF assms(1,5-9)])
  moreover have "fst (receive_bytes T E start server d (s, put ?p v)) = None"
    by (rule receive_bytes_no_exception [of _ _ c]) (simp_all add: assms(2,9))
  ultimately show ?thesis
    using assms(2-5,8)
    by (cases "receive_bytes T E start server d (s, put ?p v)") (simp add: peer_poll_def head_buffer_def)
qed

text \<open>
  The first request for object 0 of a service creates it. The request is handled as if the object had
  been there.
\<close>

lemma find_local_object_again: "find_local_object i s = (q, s1) \<Longrightarrow> q \<noteq> None \<Longrightarrow> find_local_object i s1 = (q, s1)"
  by (auto simp: find_local_object_def get_local_service_def map_emplace_def Let_def split: if_splits option.splits)

lemma find_local_object_conns:
  "find_local_object i (s\<lparr>ss_connections := C\<rparr>) =
    (fst (find_local_object i s), (snd (find_local_object i s))\<lparr>ss_connections := C\<rparr>)"
  "ss_connections (snd (find_local_object i s)) = ss_connections s"
  by (simp_all add: find_local_object_def get_local_service_def Let_def split: option.split)

lemma find_local_object_there: "ss_local_objects s i = Some obj \<Longrightarrow> find_local_object i s = (Some obj, s)"
  by (simp add: find_local_object_def)

lemma find_local_object_found: "find_local_object i s = (Some obj, s1) \<Longrightarrow> ss_local_objects s1 i = Some obj"
  by (auto simp: find_local_object_def Let_def split: if_splits)

lemma invocation_finds:
  assumes "bson_ok T" and "class_id_wf (Type i)" and "Version (Type i) = 1" and "find_local_object i s = (Some obj, s1)"
  shows "on_incoming_data T E start client n (invoke_payload T i m args) (s, w) =
    on_incoming_data T E start client n (invoke_payload T i m args) (s1, w)"
proof -
  have i: "i\<lparr>Type := (Type i)\<lparr>Version := 1\<rparr>\<rparr> = i"
    using assms(3) by (cases i; cases "Type i") simp
  have "find_local_object i s1 = (Some obj, s1)"
    by (rule find_local_object_again [OF assms(4)]) simp
  with assms(4) wire_loses_version_read [OF assms(1,2), unfolded i, of m args]
  have "on_incoming_invoke T E start client n (serialize T (object_id_write i @ VString m # args)) (s, w) =
      on_incoming_invoke T E start client n (serialize T (object_id_write i @ VString m # args)) (s1, w)"
    by (simp add: on_incoming_invoke_def del: serialize_simps)
  then show ?thesis
    using assms(1) by (simp add: on_incoming_data_def invoke_payload_def)
qed

lemma request_finds:
  assumes T: "le_ok T" "buf_ok T" "bson_ok T" and idle: "idle_conn T s client c"
    and i: "class_id_wf (Type i)" "Version (Type i) = 1" "find_local_object i s = (Some obj, s1)"
    and len: "length (invoke_payload T i m args) < 2 ^ 32"
  shows "receive_bytes T E start client (frame T (invoke_payload T i m args)) (s, w) =
    receive_bytes T E start client (frame T (invoke_payload T i m args)) (s1, w)"
proof -
  let ?req = "invoke_payload T i m args" and ?h = "on_incoming_data T E start"
  have c: "ss_connections s client = Some c" "ss_connections s1 client = Some c" "conn_service c = client"
      "rt_open T (conn_read_task c)" "rt_bytes (conn_read_task c) = []"
    using idle i(3) find_local_object_conns(2) [of i s] by (simp_all add: idle_conn_def)
  obtain t where t: "rt_read T (conn_read_task c) (frame T ?req) = (length (frame T ?req), t)" "rt_finished t" "rt_data t = ?req"
    using rt_read_frame [OF T(1,2) len c(4,5)] by blast
  have "find_local_object i (s\<lparr>ss_connections := C\<rparr>) = (Some obj, s1\<lparr>ss_connections := C\<rparr>)" for C
    using i(3) by (simp add: find_local_object_conns)
  note same = invocation_finds [OF T(3) i(1,2) this]
  have conns: "ss_connections s1 = ss_connections s"
    using i(3) find_local_object_conns(2) [of i s] by simp
  have "input_loop T ?h client (frame T ?req) (s, w) = input_loop T ?h client (frame T ?req) (s1, w)"
    unfolding input_loop.simps [of T ?h client "frame T ?req"]
    using c t T(1) by (simp add: Let_def input_message_def on_conn_def with_conn_lookup conns same [where E = E and start = start])
  then show ?thesis
    using c(1,2) T(1) by (simp add: receive_bytes_loop)
qed

section \<open>A call on a running process\<close>

text \<open>
  What a call on another process is, whatever that process does to answer it, as long as it leaves
  the connection to its caller alone: \<open>sb0\<close> has the object called, \<open>sb1\<close> and \<open>wb1\<close> are the session and the world that its method
  leaves. At the end both connections are idle again, and the serials that agreed agree.
\<close>

context peer_world
begin

lemma live_call_poll:
  assumes T: "le_ok T" "buf_ok T" "bson_ok T" "poll_ok T" and idle: "idle_conn T sa server ca"
    and peer: "get v = Some (sb, wb)" "idle_conn T sb client cb" "conn_write_serial ca = conn_read_serial cb"
    and i: "class_id_wf (Type i)" "Version (Type i) = 1" "find_local_object i sb = (Some obj, sb0)"
    and E: "\<forall>t. env_invoke Ep obj (im_name m) (serialize T args) (handling_session client t cb sb0, wb) =
        (map_sum id (ser_value T) r, (sb1 t, wb1 t)) \<and>
      ss_connections (sb1 t) client = Some (handling_conn t cb)"
    and r: "\<forall>v. r = Inr v \<longrightarrow> type_of v = im_result m"
    and len: "length (invoke_payload T i (im_name m) args) < 2 ^ 32" "length (answer_payload T (conn_write_serial ca) r) < 2 ^ 32"
    and poll: "\<forall>s' v'. (v' = v \<or> (\<exists>p. v' = put p v)) \<longrightarrow> (\<forall>j. j \<noteq> server \<longrightarrow> ss_connections s' j = ss_connections sa j) \<longrightarrow>
      fst (peer_poll T E start get put Ep startp server client (s', v')) \<noteq> Inr 0 \<longrightarrow>
      poll (s', v') = peer_poll T E start get put Ep startp server client (s', v')"
  shows "\<exists>sa_end ca_end t cb_end.
    proxy_call T E start poll I m (create_proxy server i) args (sa, v) =
      Some (rethrown r, (sa_end, put ((sb1 t)\<lparr>ss_connections := (ss_connections (sb1 t))(client \<mapsto> cb_end)\<rparr>, wb1 t) v)) \<and>
    ss_connections sa_end = (ss_connections sa)(server \<mapsto> ca_end) \<and> idle_conn T sa_end server ca_end \<and>
    conn_write_serial ca_end = conn_write_serial ca + 1 \<and> ss_services sa_end = ss_services sa \<and>
    ss_factories sa_end = ss_factories sa \<and> ss_local_objects sa_end = ss_local_objects sa \<and>
    idle_conn T ((sb1 t)\<lparr>ss_connections := (ss_connections (sb1 t))(client \<mapsto> cb_end)\<rparr>) client cb_end \<and>
    conn_read_serial cb_end = conn_read_serial cb + 1"
proof -
  let ?req = "frame T (invoke_payload T i (im_name m) args)" and ?ans = "frame T (answer_payload T (conn_write_serial ca) r)"
  note obj = find_local_object_found [OF i(3)]
  have idle0: "idle_conn T sb0 client cb"
    using peer(2) i(3) find_local_object_conns(2) [of i sb] by (simp add: idle_conn_def)
  obtain t where t: "receive_bytes T Ep startp client ?req (sb, wb) =
      (None, ((sb1 t)\<lparr>ss_connections := (ss_connections (sb1 t))(client \<mapsto> answered_conn T r cb)\<rparr>, wb1 t))"
    using server_answers_request [where start = startp, OF T idle0 i(1,2) obj E len(1)]
    unfolding request_finds [where E = Ep and start = startp, OF T(1-3) peer(2) i len(1)] by blast
  let ?s = "(sb1 t)\<lparr>ss_connections := (ss_connections (sb1 t))(client \<mapsto> answered_conn T r cb)\<rparr>"
  let ?cb = "(answered_conn T r cb)\<lparr>conn_write_queue := [], conn_out := False\<rparr>"
  let ?s1 = "(sb1 t)\<lparr>ss_connections := (ss_connections (sb1 t))(client \<mapsto> ?cb)\<rparr>"
  have v1: "get (put (?s, wb1 t) v) = Some (?s, wb1 t)"
    using peer(1) by (simp add: get_put)
  have frames: "?req \<noteq> []" "?ans \<noteq> []"
    using T(1) by simp_all
  have cp: "conn_registered (answered_conn T r cb)" "conn_out (answered_conn T r cb)"
      "conn_write_queue (answered_conn T r cb) = [mk_write_task ?ans]"
    using peer(2,3) by (simp_all add: answered_conn_idle [OF T(4) peer(2)] idle_conn_def)
  have sends: "poll (s, v) = (Inr 1,
      (s\<lparr>ss_connections := (ss_connections s)(server \<mapsto> c\<lparr>conn_write_queue := [], conn_out := False\<rparr>)\<rparr>, put (?s, wb1 t) v))"
    if "\<forall>j. j \<noteq> server \<longrightarrow> ss_connections s j = ss_connections sa j" "ss_connections s server = Some c" "conn_registered c" "conn_out c" "conn_write_queue c = [mk_write_task ?req]" for s c
    using poll [rule_format, of v s] peer_poll_writes [where get = get and put = put and v = v and E = E and start = start,
        OF T(4) that(2-5) frames(1) peer(1) t] that(1) by simp
  have reads: "poll (s, put (?s, wb1 t) v) =
      (Inr 1, snd (receive_bytes T E start server ?ans (s, put (?s1, wb1 t) v)))"
    if "\<forall>j. j \<noteq> server \<longrightarrow> ss_connections s j = ss_connections sa j" "idle_conn T s server c" "\<not> conn_out c" for s c
  proof -
    have "ss_connections s server = Some c" using that(2) by (simp add: idle_conn_def)
    from peer_poll_reads [where get = get and put = put and E = E and start = start, OF T(4) this that(3) v1 _ cp frames(2), of client]
    have "peer_poll T E start get put Ep startp server client (s, put (?s, wb1 t) v) =
        (Inr 1, snd (receive_bytes T E start server ?ans (s, put (?s1, wb1 t) v)))"
      by (simp add: put_put)
    with poll [rule_format, of "put (?s, wb1 t) v" s] that(1) show ?thesis by auto
  qed
  have idle_b: "idle_conn T ?s1 client ?cb" "conn_read_serial ?cb = conn_read_serial cb + 1"
    using peer(2) by (simp_all add: answered_conn_idle [OF T(4) peer(2)] idle_conn_def)
  have "\<exists>sa_end c. proxy_call T E start poll I m
      (create_proxy server i) args (sa, v) = Some (rethrown r, (sa_end, put (?s1, wb1 t) v)) \<and>
    ss_connections sa_end = (ss_connections sa)(server \<mapsto> c) \<and> idle_conn T sa_end server c \<and>
    conn_write_serial c = conn_write_serial ca + 1 \<and> conn_read_serial c = conn_read_serial ca + 1 \<and>
    ss_services sa_end = ss_services sa \<and> ss_factories sa_end = ss_factories sa \<and> ss_local_objects sa_end = ss_local_objects sa"
    by (rule caller_gets_answer_rounds [where E = E and start = start and wb = "put (?s, wb1 t) v", OF T idle r len(2)])
      (use sends reads in blast)+
  with idle_b show ?thesis by blast
qed

lemma live_call:
  assumes T: "le_ok T" "buf_ok T" "bson_ok T" "poll_ok T" and idle: "idle_conn T sa server ca"
    and peer: "get v = Some (sb, wb)" "idle_conn T sb client cb" "conn_write_serial ca = conn_read_serial cb"
    and i: "class_id_wf (Type i)" "Version (Type i) = 1" "find_local_object i sb = (Some obj, sb0)"
    and E: "\<forall>t. env_invoke Ep obj (im_name m) (serialize T args) (handling_session client t cb sb0, wb) =
        (map_sum id (ser_value T) r, (sb1 t, wb1 t)) \<and>
      ss_connections (sb1 t) client = Some (handling_conn t cb)"
    and r: "\<forall>v. r = Inr v \<longrightarrow> type_of v = im_result m"
    and len: "length (invoke_payload T i (im_name m) args) < 2 ^ 32" "length (answer_payload T (conn_write_serial ca) r) < 2 ^ 32"
  shows "\<exists>sa_end ca_end t cb_end.
    proxy_call T E start (peer_poll T E start get put Ep startp server client) I m (create_proxy server i) args (sa, v) =
      Some (rethrown r, (sa_end, put ((sb1 t)\<lparr>ss_connections := (ss_connections (sb1 t))(client \<mapsto> cb_end)\<rparr>, wb1 t) v)) \<and>
    ss_connections sa_end = (ss_connections sa)(server \<mapsto> ca_end) \<and> idle_conn T sa_end server ca_end \<and>
    conn_write_serial ca_end = conn_write_serial ca + 1 \<and> ss_services sa_end = ss_services sa \<and>
    ss_factories sa_end = ss_factories sa \<and> ss_local_objects sa_end = ss_local_objects sa \<and>
    idle_conn T ((sb1 t)\<lparr>ss_connections := (ss_connections (sb1 t))(client \<mapsto> cb_end)\<rparr>) client cb_end \<and>
    conn_read_serial cb_end = conn_read_serial cb + 1"
  using live_call_poll [where poll = "peer_poll T E start get put Ep startp server client" and E = E and start = start,
      OF T idle peer i E r len] by blast

end

text \<open>A world that is the other process and something else.\<close>

definition side_get :: "('p, 'w) state \<times> 'x \<Rightarrow> ('p, 'w) state option" where
  "side_get v = Some (fst v)"

definition side_put :: "('p, 'w) state \<Rightarrow> ('p, 'w) state \<times> 'x \<Rightarrow> ('p, 'w) state \<times> 'x" where
  "side_put p v = (p, snd v)"

interpretation side: peer_world side_get side_put
  by unfold_locales (simp_all add: side_get_def side_put_def)

section \<open>Properties\<close>

text \<open>
  C1: a remote call is transparent. Let caller and server be connected, nothing in transit, and
  the caller's write serial equal to the server's read serial, as it is on every connection
  that has not been lost; let the server hold object \<open>i\<close>, which implements the interface.
  Then calling method \<open>m\<close> on the caller's proxy puts one frame on the wire; the server's input
  event calls the implementation exactly once with exactly the proxy's arguments and queues
  one answer; and the call as a whole, in whose polls the server runs, returns the value that the
  implementation returned, or throws a \<^verbatim>\<open>std::runtime_error\<close> with the text of what it threw. The
  implementation has run once then, both connections are idle again, and the serials still agree.
\<close>

theorem remote_call:
  assumes "le_ok T" and "buf_ok T" and "bson_ok T" and "poll_ok T"
    and "idle_conn T sa server ca" and "idle_conn T sb client cb" and "conn_write_serial ca = conn_read_serial cb"
    and "class_id_wf (Type i)" and "Version (Type i) = 1" and "ss_local_objects sb i = Some obj"
    and "lookup_method I (im_name m) = Some m" and "map type_of args = im_args m"
    and "env_invoke Eb obj (im_name m) (serialize T args) = on_world (pbus_invoke T impl I (im_name m) (serialize T args))"
    and "impl (im_name m) args wb = (r, wb_end)" and "\<forall>v. r = Inr v \<longrightarrow> type_of v = im_result m"
    and "length (invoke_payload T i (im_name m) args) < 2 ^ 32"
    and "length (answer_payload T (conn_write_serial ca) r) < 2 ^ 32"
  defines "request \<equiv> frame T (invoke_payload T i (im_name m) args)"
    and "answer \<equiv> frame T (answer_payload T (conn_write_serial ca) r)"
  shows "(\<exists>sa_sent ca_sent. session_invoke T Ea start_a (im_result m) server i
        \<lparr>Method_Service = if_class I, Method_Name = im_name m\<rparr> args (sa, ((sb, wb), x)) = (Inr (conn_write_serial ca), (sa_sent, ((sb, wb), x))) \<and>
      ss_connections sa_sent = (ss_connections sa)(server \<mapsto> ca_sent) \<and> queued_bytes ca_sent = request) \<and>
    (\<exists>sb_end cb_end. receive_bytes T Eb start_b client request (sb, wb) = (None, (sb_end, wb_end)) \<and>
      ss_connections sb_end = (ss_connections sb)(client \<mapsto> cb_end) \<and> queued_bytes cb_end = answer) \<and>
    (\<exists>sa_end ca_end sb_end cb_end. proxy_call T Ea start_a (peer_poll T Ea start_a side_get side_put Eb start_b server client) I m
        (create_proxy server i) args (sa, ((sb, wb), x)) = Some (rethrown r, (sa_end, ((sb_end, wb_end), x))) \<and>
      idle_conn T sa_end server ca_end \<and> idle_conn T sb_end client cb_end \<and> conn_write_serial ca_end = conn_read_serial cb_end)"
proof (intro conjI)
  have open_c: "open_conn sa server ca" and ready: "conn_registered ca" "conn_write_queue ca = []"
    using assms(5) by (simp_all add: open_conn_def idle_conn_def)
  show "\<exists>sa_sent ca_sent. session_invoke T Ea start_a (im_result m) server i
      \<lparr>Method_Service = if_class I, Method_Name = im_name m\<rparr> args (sa, ((sb, wb), x)) = (Inr (conn_write_serial ca), (sa_sent, ((sb, wb), x))) \<and>
    ss_connections sa_sent = (ss_connections sa)(server \<mapsto> ca_sent) \<and> queued_bytes ca_sent = request"
    using session_invoke_open [where E = Ea and start = start_a and w = "((sb, wb), x)", OF assms(4) open_c]
      queued_bytes_enqueue [OF assms(4) ready(1)] ready(2)
    by (intro exI conjI) (auto simp: queue_message_def request_def message_bytes_frame assms(1,2) queued_bytes_def)
  have env: "\<forall>s. env_invoke Eb obj (im_name m) (serialize T args) (s, wb) = (map_sum id (ser_value T) r, (s, wb_end))"
    using method_invoke_serialized [OF assms(3,12), of impl "[]" wb] assms(11,13,14,15)
    by (cases r) (auto simp: pbus_invoke_lookup dest!: type_of_undefined)
  from server_handles_request [where E = Eb and start = start_b, OF assms(1-4,6,8-10) env assms(16)] assms(7)
  show "\<exists>sb_end cb_end. receive_bytes T Eb start_b client request (sb, wb) = (None, (sb_end, wb_end)) \<and>
      ss_connections sb_end = (ss_connections sb)(client \<mapsto> cb_end) \<and> queued_bytes cb_end = answer"
    unfolding request_def answer_def by auto
  have "\<forall>t. env_invoke Eb obj (im_name m) (serialize T args) (handling_session client t cb sb, wb) =
        (map_sum id (ser_value T) r, (handling_session client t cb sb, wb_end)) \<and>
      ss_connections (handling_session client t cb sb) client = Some (handling_conn t cb)"
    using env by simp
  from side.live_call [where E = Ea and start = start_a and startp = start_b and I = I and v = "((sb, wb), x)",
      OF assms(1-5) _ assms(6-9) find_local_object_there [OF assms(10)] this assms(15-17)] assms(7)
  show "\<exists>sa_end ca_end sb_end cb_end. proxy_call T Ea start_a (peer_poll T Ea start_a side_get side_put Eb start_b server client) I m
        (create_proxy server i) args (sa, ((sb, wb), x)) = Some (rethrown r, (sa_end, ((sb_end, wb_end), x))) \<and>
      idle_conn T sa_end server ca_end \<and> idle_conn T sb_end client cb_end \<and> conn_write_serial ca_end = conn_read_serial cb_end"
    by (simp add: side_get_def side_put_def) metis
qed

text \<open>For the witnesses: a caller that starts no services and implements nothing.\<close>

definition demo_no_start :: "(nat, 'w) start_fun" where
  "demo_no_start i st = (Some (Exception ''no service manager''), st)"

definition demo_caller_env :: "(nat, (nat, nat) state \<times> unit) env" where
  "demo_caller_env = \<lparr>env_connect = (\<lambda>path v. (Some (System_Exception ''connect''), v)),
     env_invoke = (\<lambda>obj m d. on_world (\<lambda>v. (Inl (Exception ''no object''), v))), env_devel = True\<rparr>"

theorem remote_call_witness:
  "\<exists>sa_end sb_end. proxy_call demo_toolkit demo_caller_env demo_no_start
      (peer_poll demo_toolkit demo_caller_env demo_no_start side_get side_put demo_random_env demo_random_start demo_random demo_peer)
      random_generator_if \<lparr>im_name = ''getInteger'', im_args = [TU32], im_result = TU32\<rparr>
      (create_proxy demo_random (mk_object_id demo_random 0)) [VU32 100] (demo_client_session, ((demo_server_session, 0), ())) =
    Some (Inr (VU32 50), (sa_end, ((sb_end, 1), ())))"
proof -
  let ?m = "\<lparr>im_name = ''getInteger'', im_args = [TU32], im_result = TU32\<rparr>"
  have a: "idle_conn demo_toolkit demo_client_session demo_random (mk_accepted_connection demo_random)"
    by (rule idle_accepted) (simp add: demo_client_session_def)
  have b: "idle_conn demo_toolkit demo_server_session demo_peer (mk_accepted_connection demo_peer)"
    by (rule idle_accepted) (simp add: demo_server_session_def)
  have obj: "ss_local_objects demo_server_session (mk_object_id demo_random 0) = Some 5"
    by (simp add: demo_server_session_def)
  have wf: "class_id_wf (Type (mk_object_id demo_random 0))" "Version (Type (mk_object_id demo_random 0)) = 1"
    by (simp_all add: demo_random_def class_id_wf_def)
  have m: "lookup_method random_generator_if (im_name ?m) = Some ?m"
    by (simp add: random_generator_if_def)
  have impl: "demo_half (im_name ?m) [VU32 100] 0 = (Inr (VU32 50), 1)"
    by (simp add: demo_half_def)
  have len: "length (invoke_payload demo_toolkit (mk_object_id demo_random 0) (im_name ?m) [VU32 100]) < 2 ^ 32"
    "length (answer_payload demo_toolkit (conn_write_serial (mk_accepted_connection demo_random)) (Inr (VU32 50))) < 2 ^ 32"
    by (simp_all add: invoke_payload_def answer_payload_def result_payload_def object_id_write_def class_id_write_def
        length_demo_put demo_random_def)
  have serials: "conn_write_serial (mk_accepted_connection demo_random) = conn_read_serial (mk_accepted_connection demo_peer)"
    by (simp add: mk_accepted_connection_def mk_connection_def)
  have env: "env_invoke demo_random_env 5 (im_name ?m) d = on_world (pbus_invoke demo_toolkit demo_half random_generator_if (im_name ?m) d)"
    and types: "map type_of [VU32 100] = im_args ?m" "\<forall>v. (Inr (VU32 50) :: exn + wire_value) = Inr v \<longrightarrow> type_of v = im_result ?m"
    and r: "rethrown (Inr (VU32 50)) = Inr (VU32 50)" for d
    by (simp_all add: demo_random_env_def rethrown_def)
  from remote_call [where Ea = demo_caller_env and start_a = demo_no_start and start_b = demo_random_start and x = "()",
      OF demo_le_ok demo_buf_ok demo_bson_ok demo_poll_ok a b serials wf obj m types(1) env impl types(2) len]
  show ?thesis
    unfolding r by blast
qed

end
