(* ===== verification/Service_Startup.thy ===== *)
theory Service_Startup
  imports Live_Peer Service_Manager
begin

text \<open>
  A service is started on demand, from end to end: a client sends to a service that is not
  running; the attempt to connect fails, the client calls the service manager's method
  \<^verbatim>\<open>start\<close> over the bus, the manager clones a child and waits for its signal, its answer
  travels back, and the client connects or passes on the manager's exception. The manager is a process
  in the client's world, which runs while the client polls.
\<close>

section \<open>The manager as an object of the bus\<close>

text \<open>
  The implementation that the generated dispatch calls: \<^verbatim>\<open>Manager::start\<close>. A call that does not
  return is no call of an implementation; the value given for it is not used below.
\<close>

definition manager_impl :: "toolkit \<Rightarrow> 'k manager_os \<Rightarrow> 'k implementation" where
  "manager_impl T M method args k =
     (case args of
        [VString name, VU16 version] \<Rightarrow>
          (case manager_start T M name version k of
             Some (None, k1) \<Rightarrow> (Inr VUndefined, k1)
           | Some (Some e, k1) \<Rightarrow> (Inl e, k1)
           | None \<Rightarrow> (Inl (Exception ''start does not return''), k))
      | _ \<Rightarrow> (Inl (Exception ''bad arguments''), k))"

definition start_result :: "exn option \<Rightarrow> exn + wire_value" where
  "start_result outcome = (case outcome of None \<Rightarrow> Inr VUndefined | Some e \<Rightarrow> Inl e)"

lemma manager_impl_script:
  assumes "class_id_wf i" and "Version i = 1" and "pid \<noteq> -1" and "first_decisive pid es = Some (ev, rest)"
  shows "manager_impl T (script_os pid) ''start'' [VString (Name i), VU16 1] es = (start_result (start_outcome T i pid ev), rest)"
proof -
  have "mk_class_id (Name i) (ucast (1 :: u16)) = Inr i"
    using assms(1,2) by (cases i) (simp add: class_id_wf_def mk_class_id_plain)
  from manager_start_decided [OF this assms(3)] assms(4) show ?thesis
    by (simp add: manager_impl_def start_result_def split: option.split)
qed

lemma start_result_type: "start_result outcome = Inr v \<Longrightarrow> v = VUndefined"
  by (simp add: start_result_def split: option.splits)

section \<open>The client's call\<close>

lemma start_method_lookup: "lookup_method service_manager_if ''start'' = Some start_method"
  by (simp add: service_manager_if_def start_method_def)

lemma service_manager_class [simp]: "if_class service_manager_if = service_manager_id" "service_manager_if \<noteq> Core_Object"
  by (simp_all add: service_manager_if_def)

lemma service_manager_wf [simp]: "class_id_wf service_manager_id" "Version service_manager_id = 1"
  by (simp_all add: service_manager_id_def class_id_wf_def)

text \<open>
  The call of \<^verbatim>\<open>start\<close>, with the manager in the client's world: its session \<open>sm\<close> and, as its world, the
  events that will arrive in its pipe, of which the call consumes those up to the first decisive one.
\<close>

lemma start_call_live:
  assumes T: "le_ok T" "buf_ok T" "bson_ok T" "poll_ok T" "fmt_ok T"
    and c: "idle_conn T s service_manager_id cm" and s: "ss_services s service_manager_id = None"
    and i: "class_id_wf i" "Version i = 1"
    and m: "idle_conn T sm client cb" "conn_write_serial cm = conn_read_serial cb"
      "find_local_object (mk_object_id service_manager_id 0) sm = (Some obj, sm0)"
    and Em: "\<forall>d. env_invoke Em obj ''start'' d = on_world (pbus_invoke T (manager_impl T (script_os pid)) service_manager_if ''start'' d)"
    and ev: "pid \<noteq> -1" "first_decisive pid es = Some (ev, rest)"
    and poll: "\<forall>s' p. (\<forall>j. j \<noteq> service_manager_id \<longrightarrow> ss_connections s' j = ss_connections s j) \<longrightarrow>
      fst (peer_poll T E start side_get side_put Em start_m service_manager_id client (s', (p, x))) \<noteq> Inr 0 \<longrightarrow>
      bt_poll B E start (s', (p, x)) = peer_poll T E start side_get side_put Em start_m service_manager_id client (s', (p, x))"
    and len: "length (invoke_payload T (mk_object_id service_manager_id 0) ''start'' [VString (Name i), VU16 1]) < 2 ^ 32"
      "length (answer_payload T (conn_write_serial cm) (start_result (start_outcome T i pid ev))) < 2 ^ 32"
  shows "\<exists>s_end cm_end sm_end cb_end. start_call T E B start i (s, ((sm, es), x)) =
      Some (map_option (\<lambda>e. Runtime_Error (exn_what e)) (start_outcome T i pid ev), (s_end, ((sm_end, rest), x))) \<and>
    ss_connections s_end = (ss_connections s)(service_manager_id \<mapsto> cm_end) \<and> idle_conn T s_end service_manager_id cm_end \<and>
    idle_conn T sm_end client cb_end \<and> conn_write_serial cm_end = conn_read_serial cb_end"
proof -
  let ?r = "start_result (start_outcome T i pid ev)" and ?i = "mk_object_id service_manager_id 0"
    and ?p = "create_proxy service_manager_id (mk_object_id service_manager_id 0)" and ?s = "register_proxies service_manager_if s"
    and ?args = "[VString (Name i), VU16 1]"
  have m_start: "im_name start_method = ''start''" "map type_of ?args = im_args start_method"
      "\<forall>v. ?r = Inr v \<longrightarrow> type_of v = im_result start_method"
    by (auto simp: start_method_def dest: start_result_type)
  have args: "?args = [VString (Name i), VU16 (ucast (Version i))]"
    using i(2) by simp
  have idle: "idle_conn T ?s service_manager_id cm"
    using c by (simp add: idle_conn_def)
  have get: "side_get ((sm, es), x) = Some (sm, es)"
    by (simp add: side_get_def)
  have "env_invoke Em obj ''start'' (serialize T ?args) (w, es) = (map_sum id (ser_value T) ?r, (w, rest))" for w
    using method_invoke_serialized [OF T(3), of ?args start_method "manager_impl T (script_os pid)" "[]" es]
      manager_impl_script [OF i ev, of T] Em
    by (simp add: pbus_invoke_lookup start_method_lookup) (auto simp: start_method_def start_result_def split: option.split)
  then have inv: "\<forall>t. env_invoke Em obj (im_name start_method) (serialize T ?args) (handling_session client t cb sm0, es) =
        (map_sum id (ser_value T) ?r, (handling_session client t cb sm0, rest)) \<and>
      ss_connections (handling_session client t cb sm0) client = Some (handling_conn t cb)"
    by (simp add: m_start)
  have wf: "class_id_wf (Type ?i)" "Version (Type ?i) = 1" by simp_all
  have "\<exists>s_end cm_end sm_end cb_end. proxy_call T E start (bt_poll B E start) service_manager_if start_method ?p ?args (?s, ((sm, es), x)) =
      Some (rethrown ?r, (s_end, ((sm_end, rest), x))) \<and>
    ss_connections s_end = (ss_connections ?s)(service_manager_id \<mapsto> cm_end) \<and> idle_conn T s_end service_manager_id cm_end \<and>
    idle_conn T sm_end client cb_end \<and> conn_write_serial cm_end = conn_read_serial cb_end"
    using side.live_call_poll [where poll = "bt_poll B E start" and E = E and start = start and startp = start_m and I = service_manager_if,
        OF T(1-4) idle get m(1,2) wf m(3) inv m_start(3) len(1) [folded m_start(1)] len(2)] m(2) poll
    by (auto simp: side_put_def) metis
  moreover have "get_service T (bt_implements B) service_manager_if s = (Inr (Remote_Service ?p), ?s)"
    using get_service_proxy [OF T(5), of service_manager_if s "bt_implements B"] s by simp
  ultimately show ?thesis
    unfolding args
    by (auto simp: start_call_def start_result_def rethrown_def split: option.splits) metis+
qed

text \<open>
  For the witness: a client, and a service manager that gets the start signal of its child. The client
  can connect to the service once the manager has taken that signal from its pipe.
\<close>

definition demo_app :: service_id where
  "demo_app = \<lparr>Name = ''a'', Version = 1\<rparr>"

definition demo_app_client :: "nat session" where
  "demo_app_client = empty_session\<lparr>ss_connections := [service_manager_id \<mapsto> mk_accepted_connection service_manager_id]\<rparr>"

type_synonym manager_world = "(nat, event option list) state \<times> unit"

definition demo_app_env :: "(nat, manager_world) env" where
  "demo_app_env = \<lparr>env_connect = (\<lambda>path v. if snd (fst v) = [] then (None, v) else (Some (System_Exception ''connect''), v)),
     env_invoke = (\<lambda>obj m d. on_world (\<lambda>v. (Inl (Exception ''no object''), v))), env_devel = True\<rparr>"

definition demo_manager_session :: "nat session" where
  "demo_manager_session = empty_session\<lparr>ss_connections := [demo_peer \<mapsto> mk_accepted_connection demo_peer],
     ss_local_objects := [mk_object_id service_manager_id 0 \<mapsto> 5]\<rparr>"

definition demo_manager_env :: "(nat, event option list) env" where
  "demo_manager_env = \<lparr>env_connect = (\<lambda>path k. (Some (System_Exception ''connect''), k)),
     env_invoke = (\<lambda>obj m d. on_world (pbus_invoke demo_toolkit (manager_impl demo_toolkit (script_os 100)) service_manager_if m d)), env_devel = True\<rparr>"

definition demo_app_boot :: "(nat, manager_world) boot" where
  "demo_app_boot = \<lparr>bt_implements = (\<lambda>obj. False), bt_local_start = (\<lambda>obj name version w. (None, w)),
     bt_poll = (\<lambda>E start. peer_poll demo_toolkit E start side_get side_put demo_manager_env demo_no_start service_manager_id demo_peer),
     bt_invoke = (\<lambda>E start obj m d. on_world (\<lambda>v. (Inl (Exception ''no object''), v)))\<rparr>"

lemma length_demo_put_more:
  "length (tk_put_u16 demo_toolkit h) = 3" "length (tk_put_undef demo_toolkit) = 1"
  by (simp_all add: demo_toolkit_def)

section \<open>Properties\<close>

text \<open>
  C8: a service that is not running is started by sending to it. Let a client be connected to the
  service manager, with nothing in transit, and send to a service that it cannot reach. Then \<^verbatim>\<open>Send\<close>
  has the manager run \<^verbatim>\<open>Manager::start\<close> once, which consumes the signals up to the first decisive one.
  If that is the start of the manager's own child, and the service can be reached then, \<^verbatim>\<open>Send\<close> has
  connected and queued the data as message 0 of the new connection; otherwise it has thrown a
  \<^verbatim>\<open>std::runtime_error\<close> with the text of the manager's exception. Either way nothing is left in transit
  between client and manager. This holds at any depth \<open>n\<close> of nested calls: the send itself needs one
  level, and what is below it (\<open>E\<close>, \<open>other\<close>) does not matter.
\<close>

theorem service_started_on_demand:
  assumes T: "le_ok T" "buf_ok T" "bson_ok T" "poll_ok T" "fmt_ok T"
    and "idle_conn T s service_manager_id cm" and "ss_services s service_manager_id = None"
    and "ss_connections s i = None" and "i \<noteq> service_manager_id" and "class_id_wf i" and "Version i = 1"
    and "idle_conn T sm client cb" and "conn_write_serial cm = conn_read_serial cb"
    and "ss_local_objects sm (mk_object_id service_manager_id 0) = Some obj"
    and "\<forall>d. env_invoke Em obj ''start'' d = on_world (pbus_invoke T (manager_impl T (script_os pid)) service_manager_if ''start'' d)"
    and "pid \<noteq> -1" and "first_decisive pid es = Some (ev, rest)"
    and "env_connect E (get_socket_path T (env_devel E) i) ((sm, es), x) = (Some e, ((sm, es), x1))"
    and up: "\<forall>sm_end. start_outcome T i pid ev = None \<longrightarrow> env_connect E (get_socket_path T (env_devel E) i) ((sm_end, rest), x1) = (None, ((sm_end, rest), x2))"
    and poll: "\<forall>E start. bt_poll B E start = peer_poll T E start side_get side_put Em start_m service_manager_id client"
    and "length (invoke_payload T (mk_object_id service_manager_id 0) ''start'' [VString (Name i), VU16 1]) < 2 ^ 32"
    and "length (answer_payload T (conn_write_serial cm) (start_result (start_outcome T i pid ev))) < 2 ^ 32"
  shows "\<exists>s_end cm_end sm_end cb_end x_end.
    idle_conn T s_end service_manager_id cm_end \<and> idle_conn T sm_end client cb_end \<and>
    conn_write_serial cm_end = conn_read_serial cb_end \<and>
    (case start_outcome T i pid ev of
       Some ex \<Rightarrow> session_send T (env_depth T E B other n) (start_depth T E B other (Suc n)) i data (s, ((sm, es), x)) =
         (Inl (Runtime_Error (exn_what ex)), (s_end, ((sm_end, rest), x_end)))
     | None \<Rightarrow> session_send T (env_depth T E B other n) (start_depth T E B other (Suc n)) i data (s, ((sm, es), x)) =
           (Inr 0, (s_end, ((sm_end, rest), x_end))) \<and>
         (\<exists>c. ss_connections s_end i = Some c \<and> conn_service c = i \<and> conn_socket c = Some Connected \<and> queued_bytes c = data))"
proof -
  let ?E = "env_depth T E B other n" and ?start = "start_depth T E B other (Suc n)"
  let ?c = "(mk_connection i)\<lparr>conn_socket := Some Unconnected\<rparr>"
  let ?s = "s\<lparr>ss_connections := (ss_connections s)(i \<mapsto> ?c)\<rparr>"
  have idle: "idle_conn T ?s service_manager_id cm" "ss_services ?s service_manager_id = None"
    using assms(6,7,9) by (simp_all add: idle_conn_def)
  have polls: "\<forall>s' p. (\<forall>j. j \<noteq> service_manager_id \<longrightarrow> ss_connections s' j = ss_connections ?s j) \<longrightarrow>
      fst (peer_poll T ?E (start_depth T E B other n) side_get side_put Em start_m service_manager_id client (s', (p, x1))) \<noteq> Inr 0 \<longrightarrow>
      bt_poll B ?E (start_depth T E B other n) (s', (p, x1)) =
        peer_poll T ?E (start_depth T E B other n) side_get side_put Em start_m service_manager_id client (s', (p, x1))"
    using poll by simp
  from start_call_live [where start = "start_depth T E B other n" and E = ?E and x = x1, OF T idle assms(10-13) find_local_object_there [OF assms(14)] assms(15-17) polls assms(21,22)]
  obtain s_up cm_up sm_up cb_up where call: "start_call T ?E B (start_depth T E B other n) i (?s, ((sm, es), x1)) =
      Some (map_option (\<lambda>e. Runtime_Error (exn_what e)) (start_outcome T i pid ev), (s_up, ((sm_up, rest), x1)))"
    and conns: "ss_connections s_up = (ss_connections ?s)(service_manager_id \<mapsto> cm_up)"
    and ready: "idle_conn T s_up service_manager_id cm_up" "idle_conn T sm_up client cb_up"
      "conn_write_serial cm_up = conn_read_serial cb_up"
    by blast
  have tried: "env_connect ?E (get_socket_path T (env_devel ?E) i) ((sm, es), x) = (Some e, ((sm, es), x1))"
    using assms(18) by simp
  show ?thesis
  proof (cases "start_outcome T i pid ev")
    case None
    have conn: "ss_connections s_up i = Some ?c"
      using conns assms(9) by simp
    have again: "env_connect ?E (get_socket_path T (env_devel ?E) i) ((sm_up, rest), x1) = (None, ((sm_up, rest), x2))"
      using up None by simp
    have "?start i (?s, ((sm, es), x1)) = (None, (s_up, ((sm_up, rest), x1)))"
      using call None by simp
    from connect_on_demand [where start = ?start, OF T(4) assms(8,9) tried this conn again, of data] obtain c where
      "session_send T ?E ?start i data (s, ((sm, es), x)) =
        (Inr 0, (s_up\<lparr>ss_connections := (ss_connections s_up)(i \<mapsto> c)\<rparr>, ((sm_up, rest), x2)))"
      "conn_service c = i" "conn_socket c = Some Connected" "conn_write_queue c = [mk_write_task data]"
      by blast
    moreover have "idle_conn T (s_up\<lparr>ss_connections := (ss_connections s_up)(i \<mapsto> c)\<rparr>) service_manager_id cm_up"
      using ready(1) assms(9) by (simp add: idle_conn_def)
    ultimately show ?thesis
      using ready(2,3) by (auto simp: None queued_bytes_def idle_conn_def)
  next
    case (Some ex)
    have "?start i (?s, ((sm, es), x1)) = (Some (Runtime_Error (exn_what ex)), (s_up, ((sm_up, rest), x1)))"
      using call Some by simp
    from connect_start_fails [where start = ?start, OF assms(8,9) tried this, of data] ready show ?thesis
      unfolding Some option.case by blast
  qed
qed

theorem service_started_on_demand_witness:
  "\<exists>s_end sm_end c. session_send demo_toolkit (env_depth demo_toolkit demo_app_env demo_app_boot demo_no_start 2)
      (start_depth demo_toolkit demo_app_env demo_app_boot demo_no_start 3) demo_app [7]
      (demo_app_client, ((demo_manager_session, [Some (on_sig_usr2 100)]), ())) = (Inr 0, (s_end, ((sm_end, []), ()))) \<and>
    ss_connections s_end demo_app = Some c \<and> conn_socket c = Some Connected \<and> queued_bytes c = [7]"
proof -
  let ?cm = "mk_accepted_connection service_manager_id" and ?cb = "mk_accepted_connection demo_peer" and ?es = "[Some (on_sig_usr2 100)]"
  have out: "start_outcome demo_toolkit demo_app 100 (on_sig_usr2 100) = None"
    by (simp add: start_outcome_def on_sig_usr2_def)
  have pid: "(100 :: int) \<noteq> -1"
    by simp
  have ev: "first_decisive 100 ?es = Some (on_sig_usr2 100, [])"
    by (simp add: decisive_def on_sig_usr2_def)
  have a: "idle_conn demo_toolkit demo_app_client service_manager_id ?cm" "ss_services demo_app_client service_manager_id = None"
    "ss_connections demo_app_client demo_app = None" "demo_app \<noteq> service_manager_id" "class_id_wf demo_app" "Version demo_app = 1"
    by (simp_all add: idle_accepted demo_app_client_def empty_session_def demo_app_def service_manager_id_def class_id_wf_def)
  have b: "idle_conn demo_toolkit demo_manager_session demo_peer ?cb" "conn_write_serial ?cm = conn_read_serial ?cb"
    "ss_local_objects demo_manager_session (mk_object_id service_manager_id 0) = Some 5"
    by (simp_all add: idle_accepted demo_manager_session_def) (simp_all add: mk_accepted_connection_def mk_connection_def)
  have c: "\<forall>d. env_invoke demo_manager_env 5 ''start'' d =
      on_world (pbus_invoke demo_toolkit (manager_impl demo_toolkit (script_os 100)) service_manager_if ''start'' d)"
    by (simp add: demo_manager_env_def)
  have d: "env_connect demo_app_env path ((sm, ?es), ()) = (Some (System_Exception ''connect''), ((sm, ?es), ()))"
    "\<forall>sm. start_outcome demo_toolkit demo_app 100 (on_sig_usr2 100) = None \<longrightarrow>
      env_connect demo_app_env path ((sm, []), ()) = (None, ((sm, []), ()))" for path sm
    by (simp_all add: demo_app_env_def)
  have p: "\<forall>E start. bt_poll demo_app_boot E start =
      peer_poll demo_toolkit E start side_get side_put demo_manager_env demo_no_start service_manager_id demo_peer"
    by (simp add: demo_app_boot_def)
  have l: "length (invoke_payload demo_toolkit (mk_object_id service_manager_id 0) ''start'' [VString (Name demo_app), VU16 1]) < 2 ^ 32"
    by (simp add: invoke_payload_def object_id_write_def class_id_write_def length_demo_put length_demo_put_more demo_app_def service_manager_id_def)
  have l2: "length (answer_payload demo_toolkit (conn_write_serial ?cm) (start_result (start_outcome demo_toolkit demo_app 100 (on_sig_usr2 100)))) < 2 ^ 32"
    by (simp add: out start_result_def answer_payload_def result_payload_def length_demo_put length_demo_put_more)
  have "Suc 2 = (3 :: nat)" by simp
  with service_started_on_demand [where data = "[7]" and other = demo_no_start and n = 2, OF demo_le_ok demo_buf_ok demo_bson_ok demo_poll_ok demo_fmt_ok
      a b(1,2,3) c pid ev d p l l2] out show ?thesis
    by auto
qed

end
