(* ===== verification/Manager_Pipe.thy ===== *)
theory Manager_Pipe
  imports Service_Manager
begin

text \<open>
  The pipe of the service manager over several calls of \<^verbatim>\<open>Manager::start\<close>. The signal handlers
  write an event for every signal into the one pipe of the process, and \<^verbatim>\<open>start\<close> reads it only
  while it waits: what a call leaves in the pipe is the first thing that the next call reads.
\<close>

section \<open>A sequence of starts\<close>

text \<open>
  A call of \<^verbatim>\<open>start\<close>: its arguments, the process identifier that \<^verbatim>\<open>clone\<close> returns, and the events
  written while it waits (\<open>None\<close> for a poll without an event) or until the next call.
\<close>

record start_request =
  sq_name :: string
  sq_version :: u16
  sq_pid :: int
  sq_arrivals :: "event option list"

text \<open>The events that are still in the pipe when a call has ended.\<close>

definition unread :: "event option list \<Rightarrow> event list" where
  "unread es = List.map_filter id es"

text \<open>The results of the calls; \<open>None\<close> for a call that waits for ever, after which there is no other.\<close>

fun manager_starts :: "toolkit \<Rightarrow> start_request list \<Rightarrow> event list \<Rightarrow> exn option option list" where
  "manager_starts T [] pipe = []"
| "manager_starts T (q # qs) pipe =
     (case manager_start T (script_os (sq_pid q)) (sq_name q) (sq_version q) (map Some pipe @ sq_arrivals q) of
        None \<Rightarrow> [None]
      | Some (outcome, rest) \<Rightarrow> Some outcome # manager_starts T qs (unread rest))"

section \<open>Lemmas\<close>

lemma unread_simps [simp]:
  "unread [] = []"
  "unread (None # es) = unread es"
  "unread (Some e # es) = e # unread es"
  "unread (es @ fs) = unread es @ unread fs"
  "unread (map Some pipe) = pipe"
  by (simp_all add: unread_def map_filter_def)

text \<open>The start signals among the events, and the processes whose end is among them.\<close>

definition starts :: "event list \<Rightarrow> event list" where
  "starts es = filter (\<lambda>e. Event_Type e = Started) es"

definition ended :: "event list \<Rightarrow> int set" where
  "ended es = {Event_Id e |e. e \<in> set es \<and> Event_Type e = Stopped}"

lemma starts_simps [simp]:
  "starts [] = []"
  "starts (e # es) = (if Event_Type e = Started then e # starts es else starts es)"
  "starts (es @ fs) = starts es @ starts fs"
  by (simp_all add: starts_def)

lemma ended_simps [simp]:
  "ended [] = {}"
  "ended (e # es) = (if Event_Type e = Stopped then insert (Event_Id e) (ended es) else ended es)"
  "ended (es @ fs) = ended es \<union> ended fs"
  by (auto simp: ended_def)

text \<open>If the child itself does not end, the first start signal decides.\<close>

lemma first_start_decides:
  assumes "starts (unread es) = e # later" and "pid \<notin> ended (unread es)"
  shows "\<exists>rest. first_decisive pid es = Some (e, rest) \<and> starts (unread rest) = later \<and> ended (unread rest) \<subseteq> ended (unread es)"
  using assms
proof (induction pid es rule: first_decisive.induct)
  case (3 pid x es)
  then show ?case
    by (cases "Event_Type x") (auto simp: decisive_def)
qed auto

text \<open>
  \<open>well_started\<close>: while each call waits, its child signals its start once and nobody else does,
  and none of the children of these calls ends; other processes may.
\<close>

definition well_started :: "start_request list \<Rightarrow> bool" where
  "well_started qs \<longleftrightarrow>
     (\<forall>q \<in> set qs. sq_pid q \<noteq> -1 \<and> CHR ''-'' \<notin> set (sq_name q) \<and>
        starts (unread (sq_arrivals q)) = [on_sig_usr2 (sq_pid q)] \<and>
        (\<forall>q' \<in> set qs. sq_pid q' \<notin> ended (unread (sq_arrivals q))))"

lemma well_started_Cons:
  assumes "well_started (q # qs)"
  shows "well_started qs" and "sq_pid q \<noteq> -1" and "CHR ''-'' \<notin> set (sq_name q)"
    and "starts (unread (sq_arrivals q)) = [on_sig_usr2 (sq_pid q)]"
    and "\<forall>q' \<in> set (q # qs). sq_pid q' \<notin> ended (unread (sq_arrivals q))"
  using assms by (auto simp: well_started_def)

text \<open>One call, with the start signals that were in the pipe before.\<close>

lemma one_start:
  assumes "well_started (q # qs)" and "\<forall>q' \<in> set (q # qs). sq_pid q' \<notin> ended pipe"
    and "starts pipe @ [on_sig_usr2 (sq_pid q)] = e # later"
  obtains rest where
    "manager_start T (script_os (sq_pid q)) (sq_name q) (sq_version q) (map Some pipe @ sq_arrivals q) =
      Some (start_outcome T \<lparr>Name = sq_name q, Version = 1\<rparr> (sq_pid q) e, rest)"
    "starts (unread rest) = later" "\<forall>q' \<in> set qs. sq_pid q' \<notin> ended (unread rest)"
proof -
  let ?es = "map Some pipe @ sq_arrivals q"
  note q = well_started_Cons [OF assms(1)]
  have "starts (unread ?es) = e # later" "sq_pid q \<notin> ended (unread ?es)"
    using q(4,5) assms(2,3) by simp_all
  then obtain rest where rest: "first_decisive (sq_pid q) ?es = Some (e, rest)"
    "starts (unread rest) = later" "ended (unread rest) \<subseteq> ended (unread ?es)"
    using first_start_decides by blast
  show thesis
  proof (rule that)
    show "manager_start T (script_os (sq_pid q)) (sq_name q) (sq_version q) ?es =
        Some (start_outcome T \<lparr>Name = sq_name q, Version = 1\<rparr> (sq_pid q) e, rest)"
      by (simp add: manager_start_decided [OF mk_class_id_plain [OF q(3)] q(2)] rest(1))
    show "\<forall>q' \<in> set qs. sq_pid q' \<notin> ended (unread rest)"
      using rest(3) q(5) assms(2) by auto
  qed (rule rest(2))
qed

lemma start_outcome_usr2 [simp]:
  "start_outcome T i pid (on_sig_usr2 other) = (if other = pid then None else Some (Exception ''spurious startup signal''))"
  by (simp add: start_outcome_def on_sig_usr2_def)

section \<open>Properties\<close>

text \<open>
  C28: a start signal of a foreign process breaks every later start. Let each of a sequence of services
  signal its start once and not end while the manager waits. If no start signal is in the pipe at the
  beginning, every \<^verbatim>\<open>start\<close> returns without an exception, whatever other processes end meanwhile. If
  one start signal is in the pipe that is not of one of these services, every \<^verbatim>\<open>start\<close> throws
  "spurious startup signal", although every service starts: each call reads the signal that the call
  before it has left.
\<close>

theorem foreign_signal_breaks_starts:
  assumes "well_started qs" and "distinct (map sq_pid qs)" and "\<forall>q \<in> set qs. sq_pid q \<notin> ended pipe"
  shows "(starts pipe = [] \<longrightarrow> manager_starts T qs pipe = replicate (length qs) (Some None)) \<and>
    (\<forall>x. starts pipe = [on_sig_usr2 x] \<longrightarrow> x \<notin> sq_pid ` set qs \<longrightarrow>
      manager_starts T qs pipe = replicate (length qs) (Some (Some (Exception ''spurious startup signal''))))"
  using assms
proof (induction qs arbitrary: pipe)
  case (Cons q qs)
  note tail = well_started_Cons(1) [OF Cons.prems(1)]
  have "manager_starts T (q # qs) pipe = replicate (length (q # qs)) (Some None)" if none: "starts pipe = []"
  proof -
    obtain rest where one: "manager_start T (script_os (sq_pid q)) (sq_name q) (sq_version q) (map Some pipe @ sq_arrivals q) =
        Some (start_outcome T \<lparr>Name = sq_name q, Version = 1\<rparr> (sq_pid q) (on_sig_usr2 (sq_pid q)), rest)"
      and rest: "starts (unread rest) = []" "\<forall>q' \<in> set qs. sq_pid q' \<notin> ended (unread rest)"
      by (rule one_start [OF Cons.prems(1,3)]) (use none in simp)
    from Cons.IH [OF tail _ rest(2)] Cons.prems(2) one rest(1) show ?thesis by simp
  qed
  moreover have "manager_starts T (q # qs) pipe = replicate (length (q # qs)) (Some (Some (Exception ''spurious startup signal'')))"
    if x: "starts pipe = [on_sig_usr2 x]" "x \<notin> sq_pid ` set (q # qs)" for x
  proof -
    obtain rest where one: "manager_start T (script_os (sq_pid q)) (sq_name q) (sq_version q) (map Some pipe @ sq_arrivals q) =
        Some (start_outcome T \<lparr>Name = sq_name q, Version = 1\<rparr> (sq_pid q) (on_sig_usr2 x), rest)"
      and rest: "starts (unread rest) = [on_sig_usr2 (sq_pid q)]" "\<forall>q' \<in> set qs. sq_pid q' \<notin> ended (unread rest)"
      by (rule one_start [OF Cons.prems(1,3)]) (use x(1) in simp)
    have "sq_pid q \<notin> sq_pid ` set qs"
      using Cons.prems(2) by simp
    with Cons.IH [OF tail _ rest(2)] Cons.prems(2) one rest(1) x(2) show ?thesis by auto
  qed
  ultimately show ?case by blast
qed simp

definition demo_starts :: "start_request list" where
  "demo_starts =
     [\<lparr>sq_name = ''a'', sq_version = 1, sq_pid = 100, sq_arrivals = [None, Some (on_sig_usr2 100)]\<rparr>,
      \<lparr>sq_name = ''b'', sq_version = 1, sq_pid = 101, sq_arrivals = [Some (on_sig_usr2 101), Some (on_sig_chld 7)]\<rparr>]"

theorem foreign_signal_breaks_starts_witness:
  "manager_starts demo_toolkit demo_starts [] = [Some None, Some None] \<and>
   manager_starts demo_toolkit demo_starts [on_sig_usr2 7] =
     [Some (Some (Exception ''spurious startup signal'')), Some (Some (Exception ''spurious startup signal''))]"
proof -
  have ok: "well_started demo_starts" "distinct (map sq_pid demo_starts)"
    by (simp_all add: demo_starts_def well_started_def on_sig_usr2_def on_sig_chld_def)
  have "\<forall>q \<in> set demo_starts. sq_pid q \<notin> ended []" "\<forall>q \<in> set demo_starts. sq_pid q \<notin> ended [on_sig_usr2 7]"
    by (simp_all add: on_sig_usr2_def)
  from foreign_signal_breaks_starts [OF ok this(1), of demo_toolkit] foreign_signal_breaks_starts [OF ok this(2), of demo_toolkit]
  show ?thesis
    by (simp add: demo_starts_def on_sig_usr2_def)
qed

end
