(* ===== verification/Programs.thy ===== *)
theory Programs
  imports Live_Peer Service_Manager Random_Generator
begin

text \<open>
  The programs: \<^verbatim>\<open>main\<close> of the random number service (services/system/randomgenerator/main.cpp), of
  the service manager (services/system/servicemanager/main.cpp) and of the example client
  (client/client.cpp).
\<close>

section \<open>Services\<close>

text \<open>
  The two service programs differ in the interface and the class of the instance only: an
  \<^verbatim>\<open>Application\<close> for the class identifier, its service registered, \<^verbatim>\<open>Run\<close>. An exception ends
  the program; \<open>None\<close>: it runs for ever. The calls that set the listening socket up are
  returned as well.
\<close>

definition service_main ::
  "toolkit \<Rightarrow> bool \<Rightarrow> (string \<Rightarrow> exn option) \<Rightarrow> exn option \<Rightarrow> (('o, 'w) state \<Rightarrow> ('o, 'w) state) \<Rightarrow> (('o, 'w) state \<Rightarrow> (exn + nat) \<times> ('o, 'w) state) \<Rightarrow>
   idl_interface \<Rightarrow> 'o \<Rightarrow> string list \<Rightarrow> ('o, 'w) state \<Rightarrow> bus_call list \<times> (exn \<times> ('o, 'w) state) option" where
  "service_main T devel listen poll_add notify_parent poll I impl argv st =
     (case application_new T devel listen poll_add (if_class I) argv of
        (Inl e, calls) \<Rightarrow> (calls, Some (e, st))
      | (Inr app, calls) \<Rightarrow>
          (calls, app_run notify_parent poll (ap_notify_parent app) (app_register_service I impl (fst st), snd st)))"

definition random_generator_main ::
  "toolkit \<Rightarrow> bool \<Rightarrow> (string \<Rightarrow> exn option) \<Rightarrow> exn option \<Rightarrow> (('o, 'w) state \<Rightarrow> ('o, 'w) state) \<Rightarrow> (('o, 'w) state \<Rightarrow> (exn + nat) \<times> ('o, 'w) state) \<Rightarrow>
   'o \<Rightarrow> string list \<Rightarrow> ('o, 'w) state \<Rightarrow> bus_call list \<times> (exn \<times> ('o, 'w) state) option" where
  "random_generator_main T devel listen poll_add notify_parent poll impl argv st =
     service_main T devel listen poll_add notify_parent poll random_generator_if impl argv st"

definition service_manager_main ::
  "toolkit \<Rightarrow> bool \<Rightarrow> (string \<Rightarrow> exn option) \<Rightarrow> exn option \<Rightarrow> (('o, 'w) state \<Rightarrow> ('o, 'w) state) \<Rightarrow> (('o, 'w) state \<Rightarrow> (exn + nat) \<times> ('o, 'w) state) \<Rightarrow>
   'o \<Rightarrow> string list \<Rightarrow> ('o, 'w) state \<Rightarrow> bus_call list \<times> (exn \<times> ('o, 'w) state) option" where
  "service_manager_main T devel listen poll_add notify_parent poll impl argv st =
     service_main T devel listen poll_add notify_parent poll service_manager_if impl argv st"

section \<open>The client\<close>

definition client_id :: service_id where
  "client_id = \<lparr>Name = ''app.pbus.example.random'', Version = 1\<rparr>"

definition get_integer_method :: idl_method where
  "get_integer_method = \<lparr>im_name = ''getInteger'', im_args = [TU32], im_result = TU32\<rparr>"

text \<open>
  The loop: \<open>call\<close> is the call of \<^verbatim>\<open>getInteger(100)\<close>, the list holds the lines logged. The first
  exception ends the program; \<open>None\<close>: a call does not return.
\<close>

primrec client_loop ::
  "nat \<Rightarrow> ('s \<Rightarrow> ((exn + wire_value) \<times> 's) option) \<Rightarrow> 's \<Rightarrow> (exn option \<times> wire_value list \<times> 's) option" where
  "client_loop 0 call st = Some (None, [], st)"
| "client_loop (Suc n) call st =
     (case call st of
        None \<Rightarrow> None
      | Some (Inl e, st1) \<Rightarrow> Some (Some e, [], st1)
      | Some (Inr v, st1) \<Rightarrow> map_option (\<lambda>(e, lines, st2). (e, v # lines, st2)) (client_loop n call st1))"

definition client_rounds :: nat where
  "client_rounds = 1000"

text \<open>\<open>local_call\<close> is the method of an object of this process, should one implement the interface.\<close>

definition client_main ::
  "toolkit \<Rightarrow> ('o, 'w) env \<Rightarrow> ('o, 'w) start_fun \<Rightarrow> (('o, 'w) state \<Rightarrow> (exn + nat) \<times> ('o, 'w) state) \<Rightarrow> ('o \<Rightarrow> bool) \<Rightarrow>
   ('o \<Rightarrow> u32 \<Rightarrow> 'w \<Rightarrow> (exn + wire_value) \<times> 'w) \<Rightarrow> (string \<Rightarrow> exn option) \<Rightarrow> exn option \<Rightarrow> string list \<Rightarrow> ('o, 'w) state \<Rightarrow>
   (exn option \<times> wire_value list \<times> ('o, 'w) state) option" where
  "client_main T E start poll implements local_call listen poll_add argv st =
     (case application_new T (env_devel E) listen poll_add client_id argv of
        (Inl e, calls) \<Rightarrow> Some (Some e, [], st)
      | (Inr app, calls) \<Rightarrow>
          (case get_service T implements random_generator_if (fst st) of
             (Inl e, s1) \<Rightarrow> Some (Some e, [], (s1, snd st))
           | (Inr (Local_Service obj), s1) \<Rightarrow>
               client_loop client_rounds
                 (\<lambda>st. case local_call obj 100 (snd st) of (r, w1) \<Rightarrow> Some (r, (fst st, w1))) (s1, snd st)
           | (Inr (Remote_Service p), s1) \<Rightarrow>
               client_loop client_rounds (proxy_call T E start poll random_generator_if get_integer_method p [VU32 100]) (s1, snd st)))"

section \<open>A service that is started\<close>

lemma application_new_ok:
  assumes "listen (get_socket_path T devel i) = None" and "poll_add = None"
  shows "application_new T devel listen poll_add i (service_argv T i) =
    (Inr \<lparr>ap_notify_parent = True, ap_trace = False\<rparr>,
     [Set_Non_Blocking, Unlink (get_socket_path T devel i), Listen (get_socket_path T devel i), Poll_Add_Accept])"
  using assms by (simp add: application_new_def mk_local_bus_def Let_def app_new_def service_argv_def)

lemma app_loop_stops: "poll st = (Inl e, st1) \<Longrightarrow> app_loop poll st = Some (e, st1)"
  by (subst app_loop.simps) simp

lemma application_new_listen_fails:
  assumes "listen (get_socket_path T devel i) = Some e"
  shows "application_new T devel listen poll_add i argv =
    (Inl e, [Set_Non_Blocking, Unlink (get_socket_path T devel i), Listen (get_socket_path T devel i)])"
  using assms by (simp add: application_new_def mk_local_bus_def Let_def split: prod.split)

section \<open>A client and its server\<close>

text \<open>What a sequence of results makes the client log, and the exception that ends it.\<close>

primrec logged_until :: "(exn + 'a) list \<Rightarrow> exn option \<times> 'a list" where
  "logged_until [] = (None, [])"
| "logged_until (r # rs) =
     (case r of Inl e \<Rightarrow> (Some e, []) | Inr v \<Rightarrow> (case logged_until rs of (e, vs) \<Rightarrow> (e, v # vs)))"

text \<open>
  The polls of a client whose server keeps the requests it has got, in the world of the client, and
  answers each of them by \<open>r\<close> of all the requests so far: first the output event, whose bytes are the next
  request, then an input event with the answer to it.
\<close>

definition serving_poll ::
  "toolkit \<Rightarrow> ('o, bytes list \<times> 'w) env \<Rightarrow> ('o, bytes list \<times> 'w) start_fun \<Rightarrow> service_id \<Rightarrow> (bytes list \<Rightarrow> exn + wire_value) \<Rightarrow>
   ('o, bytes list \<times> 'w) state \<Rightarrow> (exn + nat) \<times> ('o, bytes list \<times> 'w) state" where
  "serving_poll T E start server r st =
     (case ss_connections (fst st) server of
        None \<Rightarrow> (Inr 0, st)
      | Some c \<Rightarrow>
          if conn_out c
          then (Inr 1, apsnd (apfst (\<lambda>got. got @ [head_buffer c])) (snd (flush_output T E start server st)))
          else (Inr 1, snd (receive_bytes T E start server
                  (frame T (answer_payload T (conn_write_serial c - 1) (r (fst (snd st))))) st)))"

lemma call_served:
  fixes i :: object_id and args :: "wire_value list"
  assumes T: "le_ok T" "buf_ok T" "bson_ok T" "poll_ok T" and c: "idle_conn T s server c"
    and r: "\<forall>got v. r got = Inr v \<longrightarrow> type_of v = im_result m" and len: "\<forall>n got. length (answer_payload T n (r got)) < 2 ^ 32"
  defines "req \<equiv> frame T (invoke_payload T i (im_name m) args)"
  shows "\<exists>s' c'. proxy_call T E start (serving_poll T E start server r) I m (create_proxy server i) args (s, (got, w)) =
      Some (rethrown (r (got @ [req])), (s', (got @ [req], w))) \<and> idle_conn T s' server c'"
proof -
  have frame: "req \<noteq> []"
    using T(1) by (simp add: req_def)
  have "serving_poll T E start server r (s1, (got, w)) =
      (Inr 1, (s1\<lparr>ss_connections := (ss_connections s1)(server \<mapsto> d\<lparr>conn_write_queue := [], conn_out := False\<rparr>)\<rparr>, (got @ [req], w)))"
    if "ss_connections s1 server = Some d" "conn_registered d" "conn_out d" "conn_write_queue d = [mk_write_task req]" for s1 d
    using flush_one [where E = E and start = start and w = "(got, w)", OF T(4) that frame] that
    by (simp add: serving_poll_def head_buffer_def)
  moreover have "serving_poll T E start server r (s1, (got @ [req], w)) =
      (Inr 1, snd (receive_bytes T E start server (frame T (answer_payload T (conn_write_serial c) (r (got @ [req])))) (s1, (got @ [req], w))))"
    if "idle_conn T s1 server d" "conn_write_serial d = conn_write_serial c + 1" "\<not> conn_out d" for s1 d
    using that by (simp add: serving_poll_def idle_conn_def)
  moreover note caller_gets_answer_rounds [where E = E and start = start and I = I and i = i and args = args and m = m and
        wa = "(got, w)" and wb = "(got @ [req], w)" and wc = "(got @ [req], w)" and poll = "serving_poll T E start server r",
        OF T c spec [OF r, of "got @ [req]"] len [rule_format, of "conn_write_serial c"], folded req_def]
  ultimately show ?thesis
    by blast
qed

lemma client_loop_served:
  fixes i :: object_id and args :: "wire_value list"
  assumes T: "le_ok T" "buf_ok T" "bson_ok T" "poll_ok T"
    and r: "\<forall>got v. r got = Inr v \<longrightarrow> type_of v = im_result m" and len: "\<forall>n got. length (answer_payload T n (r got)) < 2 ^ 32"
  defines "req \<equiv> frame T (invoke_payload T i (im_name m) args)"
  shows "idle_conn T s server c \<Longrightarrow>
    \<exists>s_end. client_loop k (proxy_call T E start (serving_poll T E start server r) I m (create_proxy server i) args) (s, (got, w)) =
      (case logged_until (map (\<lambda>j. rethrown (r (got @ replicate (Suc j) req))) [0..<k]) of (e, lines) \<Rightarrow>
         Some (e, lines, (s_end, (got @ replicate (length lines + (if e = None then 0 else 1)) req, w))))"
proof (induction k arbitrary: s c got)
  case (Suc k)
  let ?call = "proxy_call T E start (serving_poll T E start server r) I m (create_proxy server i) args"
  obtain s' c' where call: "?call (s, (got, w)) = Some (rethrown (r (got @ [req])), (s', (got @ [req], w)))"
    and c': "idle_conn T s' server c'"
    using call_served [where E = E and start = start and I = I and i = i and args = args and got = got and w = w, OF T Suc.prems r len, folded req_def] by blast
  have shift: "map (\<lambda>j. rethrown (r (got @ replicate (Suc j) req))) [0..<Suc k] =
      rethrown (r (got @ [req])) # map (\<lambda>j. rethrown (r ((got @ [req]) @ replicate (Suc j) req))) [0..<k]"
    by (simp add: map_upt_Suc del: upt_Suc)
  obtain s_end where rest: "client_loop k ?call (s', (got @ [req], w)) =
      (case logged_until (map (\<lambda>j. rethrown (r ((got @ [req]) @ replicate (Suc j) req))) [0..<k]) of (e, lines) \<Rightarrow>
         Some (e, lines, (s_end, ((got @ [req]) @ replicate (length lines + (if e = None then 0 else 1)) req, w))))"
    using Suc.IH [OF c'] by blast
  show ?case
    unfolding shift using rest
    by (cases "rethrown (r (got @ [req]))") (auto simp: call split: prod.splits)
qed simp

lemma map_sum_VU32: "\<forall>got v. map_sum id VU32 (r got) = Inr v \<longrightarrow> type_of v = im_result get_integer_method"
  by (auto simp: get_integer_method_def map_sum_def split: sum.splits)

lemma upt_first_three: "3 \<le> k \<Longrightarrow> [0..<k] = 0 # 1 # 2 # [3..<k]"
  by (simp add: upt_conv_Cons numeral_2_eq_2 numeral_3_eq_3)

section \<open>Properties\<close>

text \<open>
  C29: a service is ready when it says so. Run with the arguments that the service manager passes, a
  service program first listens on the very path that clients of the service connect to, then
  registers its object as object 0 of its class, where the first request finds it, and only then
  signals its parent: whatever the signal sets off begins in the state in which the object is registered.
  After that it polls. If it cannot listen it ends with the exception; it has then not signalled,
  nor registered anything.
\<close>

theorem service_ready_when_notified:
  fixes notify_parent :: "('o, 'w) state \<Rightarrow> ('o, 'w) state"
  assumes "listen (get_socket_path T devel (if_class I)) = None" and "ss_local_objects s (mk_object_id (if_class I) 0) = None"
  shows "let path = get_socket_path T devel (if_class I); s_ready = app_register_service I impl s;
             run = \<lambda>listen. service_main T devel listen None notify_parent poll I impl (service_argv T (if_class I)) (s, w) in
    run listen = ([Set_Non_Blocking, Unlink path, Listen path, Poll_Add_Accept], app_loop poll (notify_parent (s_ready, w))) \<and>
    fst (find_local_object (mk_object_id (if_class I) 0) s_ready) = Some impl \<and>
    (\<forall>failing e. failing path = Some e \<longrightarrow>
      run failing = ([Set_Non_Blocking, Unlink path, Listen path], Some (e, (s, w))))"
proof -
  let ?path = "get_socket_path T devel (if_class I)"
  have "service_main T devel listen None notify_parent poll I impl (service_argv T (if_class I)) (s, w) =
      ([Set_Non_Blocking, Unlink ?path, Listen ?path, Poll_Add_Accept], app_loop poll (notify_parent (app_register_service I impl s, w)))"
    using assms(1) by (simp add: service_main_def app_run_def application_new_ok)
  moreover have "fst (find_local_object (mk_object_id (if_class I) 0) (app_register_service I impl s)) = Some impl"
    using assms(2)
    by (simp add: find_local_object_def app_register_service_def register_service_def get_local_service_def
        service_factory_get_def Let_def)
  moreover have "service_main T devel failing None notify_parent poll I impl (service_argv T (if_class I)) (s, w) =
      ([Set_Non_Blocking, Unlink ?path, Listen ?path], Some (e, (s, w)))" if "failing ?path = Some e" for failing e
    using that by (simp add: service_main_def application_new_listen_fails)
  ultimately show ?thesis by (simp add: Let_def)
qed

text \<open>For the witness: a parent that calls at once, and notes the object that its call finds.\<close>

definition demo_parent :: "(nat, nat option) state \<Rightarrow> (nat, nat option) state" where
  "demo_parent st = (fst st, fst (find_local_object (mk_object_id (if_class random_generator_if) 0) (fst st)))"

theorem service_ready_when_notified_witness:
  "snd (service_main demo_toolkit True (\<lambda>path. None) None demo_parent (\<lambda>st. (Inl (Exception ''stop''), st))
      random_generator_if 5 (service_argv demo_toolkit (if_class random_generator_if)) (empty_session, None)) =
    Some (Exception ''stop'', (app_register_service random_generator_if 5 empty_session, Some 5))"
proof -
  let ?path = "get_socket_path demo_toolkit True (if_class random_generator_if)"
    and ?ready = "app_register_service random_generator_if 5 empty_session :: nat session"
  have "ss_local_objects (empty_session :: nat session) (mk_object_id (if_class random_generator_if) 0) = None"
    by (simp add: empty_session_def)
  note ready = service_ready_when_notified [where listen = "\<lambda>path. None" and T = demo_toolkit and devel = True and
      notify_parent = demo_parent and poll = "\<lambda>st. (Inl (Exception ''stop''), st)" and impl = 5 and w = None,
      OF refl this, unfolded Let_def]
  have "service_main demo_toolkit True (\<lambda>path. None) None demo_parent (\<lambda>st. (Inl (Exception ''stop''), st)) random_generator_if 5
      (service_argv demo_toolkit (if_class random_generator_if)) (empty_session, None) =
    ([Set_Non_Blocking, Unlink ?path, Listen ?path, Poll_Add_Accept],
     app_loop (\<lambda>st. (Inl (Exception ''stop''), st)) (demo_parent (?ready, None)))"
    using ready by (rule conjunct1)
  moreover have "demo_parent (?ready, None) = (?ready, Some 5)"
    using ready [THEN conjunct2, THEN conjunct1] by (simp add: demo_parent_def)
  ultimately show ?thesis
    by (simp add: app_loop_stops)
qed

text \<open>
  C30: the client logs what the service returns. Connected to a service that answers by \<open>r\<close> of the
  requests it has got so far, the client program sends it one request after the other, each of them
  \<^verbatim>\<open>getInteger(100)\<close> for its object 0, and logs the values it answers, one line for each of 1000
  requests in their order, and returns 0. If an answer is an exception, it logs the values
  before and ends with a \<^verbatim>\<open>std::runtime_error\<close> with the exception's text; the service has then got no
  further request.
\<close>

theorem client_logs_answers:
  fixes E :: "('o, bytes list \<times> 'w) env"
  assumes "le_ok T" and "buf_ok T" and "bson_ok T" and "poll_ok T" and "fmt_ok T"
    and "idle_conn T s (if_class random_generator_if) c" and "ss_services s (if_class random_generator_if) = None"
    and "listen (get_socket_path T (env_devel E) client_id) = None"
    and "\<forall>n got. length (answer_payload T n (map_sum id VU32 (r got))) < 2 ^ 32"
  defines "req \<equiv> frame T (invoke_payload T (mk_object_id (if_class random_generator_if) 0) ''getInteger'' [VU32 100])"
  shows "\<exists>s_end. client_main T E start
      (serving_poll T E start (if_class random_generator_if) (\<lambda>got. map_sum id VU32 (r got))) implements local_call listen None argv
      (s, ([], w)) =
    (case logged_until (map (\<lambda>j. rethrown (map_sum id VU32 (r (replicate (Suc j) req)))) [0..<1000]) of
       (e, lines) \<Rightarrow> Some (e, lines, (s_end, (replicate (length lines + (if e = None then 0 else 1)) req, w))))"
proof -
  let ?I = random_generator_if and ?r = "\<lambda>got. map_sum id VU32 (r got) :: exn + wire_value"
  let ?i = "mk_object_id (if_class ?I) 0"
  have "\<exists>app calls. application_new T (env_devel E) listen None client_id argv = (Inr app, calls)"
    using assms(8) by (simp add: application_new_def mk_local_bus_def Let_def split: prod.split)
  then obtain app calls where app: "application_new T (env_devel E) listen None client_id argv = (Inr app, calls)" by blast
  have svc: "get_service T implements ?I s = (Inr (Remote_Service (create_proxy (if_class ?I) ?i)), register_proxies ?I s)"
    using get_service_proxy [OF assms(5), of ?I s implements] assms(7) by (simp add: random_generator_if_def class_id_wf_def)
  have "idle_conn T (register_proxies ?I s) (if_class ?I) c"
    using assms(6) by (simp add: idle_conn_def)
  from client_loop_served [OF assms(1-4) map_sum_VU32 assms(9) this, where k = client_rounds and
      E = E and start = start and I = ?I and i = ?i and args = "[VU32 100]" and got = "[]" and w = w]
  have "\<exists>s_end. client_loop client_rounds (proxy_call T E start
      (serving_poll T E start (if_class ?I) ?r) ?I get_integer_method (create_proxy (if_class ?I) ?i) [VU32 100])
      (register_proxies ?I s, ([], w)) =
    (case logged_until (map (\<lambda>j. rethrown (?r (replicate (Suc j) req))) [0..<client_rounds]) of
       (e, lines) \<Rightarrow> Some (e, lines, (s_end, (replicate (length lines + (if e = None then 0 else 1)) req, w))))"
    by (simp only: append_Nil req_def get_integer_method_def idl_method.simps)
  then show ?thesis
    by (simp only: client_rounds_def client_main_def app svc fst_conv snd_conv prod.case sum.case service_ref.case)
qed

definition demo_logging_env :: "(nat, bytes list \<times> nat) env" where
  "demo_logging_env = \<lparr>env_connect = (\<lambda>path w. (Some (System_Exception ''connect''), w)),
     env_invoke = (\<lambda>obj m d. on_world (\<lambda>w. (Inl (Exception ''no object''), w))), env_devel = True\<rparr>"

theorem client_logs_answers_witness:
  "\<exists>s_end. client_main demo_toolkit demo_logging_env demo_no_start
      (serving_poll demo_toolkit demo_logging_env demo_no_start demo_random
        (\<lambda>got. map_sum id VU32 (if length got < 3 then Inr (word_of_nat (length got) + 6) else Inl (Exception ''gone''))))
      (\<lambda>obj. False) (\<lambda>obj m w. (Inr VUndefined, w)) (\<lambda>path. None) None [] (demo_client_session, ([], 0)) =
    Some (Some (Runtime_Error ''gone''), [VU32 7, VU32 8],
      (s_end, (replicate 3 (frame demo_toolkit (invoke_payload demo_toolkit (mk_object_id demo_random 0) ''getInteger'' [VU32 100])), 0)))"
proof -
  let ?r = "\<lambda>got. if length got < 3 then Inr (word_of_nat (length got) + 6) else Inl (Exception ''gone'') :: exn + u32"
  let ?c = "mk_accepted_connection demo_random"
  have log: "logged_until (map (\<lambda>j. rethrown (map_sum id VU32 (?r (replicate (Suc j) req)))) [0..<1000]) =
      (Some (Runtime_Error ''gone''), [VU32 7, VU32 8])" for req
    using upt_first_three [of 1000] by (simp add: rethrown_def del: upt_rec_numeral)
  have len: "\<forall>n got. length (answer_payload demo_toolkit n (map_sum id VU32 (?r got))) < 2 ^ 32"
    by (simp add: answer_payload_def result_payload_def exception_payload_def length_demo_put)
  have rid: "if_class random_generator_if = demo_random"
    by (simp add: random_generator_if_def demo_random_def)
  have c: "idle_conn demo_toolkit demo_client_session (if_class random_generator_if) ?c"
    "ss_services demo_client_session (if_class random_generator_if) = None"
    unfolding rid by (simp_all add: idle_accepted demo_client_session_def empty_session_def)
  from client_logs_answers [OF demo_le_ok demo_buf_ok demo_bson_ok demo_poll_ok demo_fmt_ok c, where listen = "\<lambda>path. None" and r = ?r
      and E = demo_logging_env and start = demo_no_start and w = 0 and argv = "[]" and implements = "\<lambda>obj. False"
      and local_call = "\<lambda>obj m w. (Inr VUndefined, w)", OF refl len]
  show ?thesis
    unfolding rid log by (simp add: numeral_3_eq_3 eval_nat_numeral)
qed

end
