(* ===== verification/Nested_Calls.thy ===== *)
theory Nested_Calls
  imports Remote_Call
begin

text \<open>
  Calls made while a call is being handled. A service may call another service from within a method:
  the method's \<^verbatim>\<open>Wait\<close> polls, and the poll dispatches whatever events there are. When only the called
  service answers, the outer call is as transparent as a direct one. When another request of the
  same client arrives meanwhile, the read task of its connection still holds the request that is being
  handled, and it is handled again.
\<close>

section \<open>A service that calls another service\<close>

lemma rethrown_rethrown [simp]: "rethrown (rethrown r) = rethrown r"
  by (simp add: rethrown_def split: sum.split)

lemma rethrown_type: "\<forall>v. r = Inr v \<longrightarrow> type_of v = t \<Longrightarrow> \<forall>v. rethrown r = Inr v \<longrightarrow> type_of v = t"
  by (auto simp: rethrown_def split: sum.splits)

text \<open>The bytes that a method returns, whatever state its implementation works on.\<close>

lemma pbus_invoke_serialized:
  assumes "bson_ok T" and "lookup_method I (im_name m) = Some m" and "map type_of args = im_args m"
    and "impl (im_name m) args w = (r, w1)" and "\<forall>v. r = Inr v \<longrightarrow> type_of v = im_result m"
  shows "pbus_invoke T impl I (im_name m) (serialize T args) w = (map_sum id (ser_value T) r, w1)"
  using method_invoke_serialized [OF assms(1,3), of impl "[]" w] assms(2,4,5)
  by (cases r) (auto simp: pbus_invoke_lookup dest!: type_of_undefined)

text \<open>
  A service may call another service. Let the object that a client calls be implemented by a
  call on a proxy of a third service, and let that service answer \<open>r\<close> while the method waits. Then the
  input event that brings the client's request ends with one answer queued for the client, under the
  client's serial: the value of \<open>r\<close>, or the text of its exception. The client's \<^verbatim>\<open>Wait\<close> returns that
  value or throws a \<^verbatim>\<open>std::runtime_error\<close> with that text, exactly as if it had called the third
  service itself. The connection to the third service is idle again, and both its serials are one
  further.
\<close>

lemma relayed_call:
  assumes "le_ok T" and "buf_ok T" and "bson_ok T" and "poll_ok T"
    and "idle_conn T sa relay ca" and "idle_conn T s client cc" and "conn_write_serial ca = conn_read_serial cc"
    and "idle_conn T s server cs" and "client \<noteq> server"
    and "class_id_wf (Type i)" and "Version (Type i) = 1" and "ss_local_objects s i = Some obj"
    and "lookup_method I (im_name m) = Some m" and "map type_of args = im_args m"
    and "env_invoke E obj (im_name m) (serialize T args) = pbus_invoke T impl I (im_name m) (serialize T args)"
    and "\<forall>st x. proxy_call T En start_n (caller_poll T En start_n server (frame T (answer_payload T (conn_write_serial cs) r))) J k
        (create_proxy server j) args_n st = Some x \<longrightarrow> impl (im_name m) args st = x"
    and "\<forall>v. r = Inr v \<longrightarrow> type_of v = im_result k" and "im_result k = im_result m"
    and "length (invoke_payload T i (im_name m) args) < 2 ^ 32"
    and "length (answer_payload T (conn_write_serial cs) r) < 2 ^ 32"
    and "length (answer_payload T (conn_write_serial ca) (rethrown r)) < 2 ^ 32"
  defines "request \<equiv> frame T (invoke_payload T i (im_name m) args)"
    and "answer \<equiv> frame T (answer_payload T (conn_write_serial ca) (rethrown r))"
  shows "(\<exists>s_end cc_end cs_end. receive_bytes T E start client request (s, w) = (None, (s_end, w)) \<and>
      ss_connections s_end = (ss_connections s)(client \<mapsto> cc_end, server \<mapsto> cs_end) \<and> queued_bytes cc_end = answer \<and>
      idle_conn T s_end server cs_end \<and> conn_write_serial cs_end = conn_write_serial cs + 1 \<and>
      conn_read_serial cs_end = conn_read_serial cs + 1) \<and>
    (\<exists>sa_end. proxy_call T Ea start_a (caller_poll T Ea start_a relay answer) I m (create_proxy relay i) args (sa, wa) =
      Some (rethrown r, (sa_end, wa)))"
proof
  let ?h = "\<lambda>t. handling_session client t cc s" and ?r = "rethrown r"
  let ?call = "proxy_call T En start_n (caller_poll T En start_n server (frame T (answer_payload T (conn_write_serial cs) r))) J k
        (create_proxy server j) args_n"
  have r: "\<forall>v. ?r = Inr v \<longrightarrow> type_of v = im_result m"
    using rethrown_type [OF assms(17)] assms(18) by simp
  have "idle_conn T (?h t) server cs" for t
    using assms(8,9) by (simp add: idle_conn_def)
  from caller_gets_answer_state [where E = En and start = start_n and I = J and wa = w, OF assms(1-4) this assms(17,20)]
  have "\<forall>t. \<exists>s1 c. ?call (?h t, w) = Some (?r, (s1, w)) \<and> ss_connections s1 = (ss_connections (?h t))(server \<mapsto> c) \<and>
      idle_conn T s1 server c \<and> conn_write_serial c = conn_write_serial cs + 1 \<and> conn_read_serial c = conn_read_serial cs + 1"
    by blast
  then obtain s1 c where
    call: "\<And>t. ?call (?h t, w) = Some (?r, (s1 t, w))"
    and conns: "\<And>t. ss_connections (s1 t) = (ss_connections (?h t))(server \<mapsto> c t)"
    and c: "\<And>t. idle_conn T (s1 t) server (c t)" "\<And>t. conn_write_serial (c t) = conn_write_serial cs + 1"
      "\<And>t. conn_read_serial (c t) = conn_read_serial cs + 1"
    by metis
  have "\<forall>t. env_invoke E obj (im_name m) (serialize T args) (?h t, w) = (map_sum id (ser_value T) ?r, (s1 t, w)) \<and>
      ss_connections (s1 t) client = Some (handling_conn t cc)"
  proof
    fix t
    have "impl (im_name m) args (?h t, w) = (?r, (s1 t, w))"
      using assms(16) call by blast
    from pbus_invoke_serialized [where impl = impl and w = "(?h t, w)", OF assms(3,13,14) this r] show "env_invoke E obj (im_name m) (serialize T args) (?h t, w) =
        (map_sum id (ser_value T) ?r, (s1 t, w)) \<and> ss_connections (s1 t) client = Some (handling_conn t cc)"
      using assms(9) by (simp add: assms(15) conns)
  qed
  from server_handles_request_state [where start = start, OF assms(1-4,6,10-12) this assms(19)]
  obtain t s_end cc_end where e: "receive_bytes T E start client request (s, w) = (None, (s_end, w))"
      "s_end = (s1 t)\<lparr>ss_connections := (ss_connections (s1 t))(client \<mapsto> cc_end)\<rparr>"
      "queued_bytes cc_end = frame T (answer_payload T (conn_read_serial cc) ?r)"
    unfolding request_def by blast
  have "ss_connections s_end = (ss_connections s)(client \<mapsto> cc_end, server \<mapsto> c t)"
    using assms(9) by (auto simp: e(2) conns)
  moreover have "idle_conn T s_end server (c t)"
    using c(1) [of t] assms(9) by (simp add: e(2) idle_conn_def)
  ultimately show "\<exists>s_end cc_end cs_end. receive_bytes T E start client request (s, w) = (None, (s_end, w)) \<and>
      ss_connections s_end = (ss_connections s)(client \<mapsto> cc_end, server \<mapsto> cs_end) \<and> queued_bytes cc_end = answer \<and>
      idle_conn T s_end server cs_end \<and> conn_write_serial cs_end = conn_write_serial cs + 1 \<and>
      conn_read_serial cs_end = conn_read_serial cs + 1"
    using e(1,3) c(2,3) assms(7) unfolding answer_def by auto
  show "\<exists>sa_end. proxy_call T Ea start_a (caller_poll T Ea start_a relay answer) I m (create_proxy relay i) args (sa, wa) =
      Some (rethrown r, (sa_end, wa))"
    using caller_gets_answer [OF assms(1-5) r assms(21), of Ea start_a I i args wa] unfolding answer_def by simp
qed

text \<open>
  An example: a relay that implements the random number service by calling another one, which
  answers 50.
\<close>

definition demo_get_integer :: idl_method where
  "demo_get_integer = \<lparr>im_name = ''getInteger'', im_args = [TU32], im_result = TU32\<rparr>"

definition demo_relay :: class_id where
  "demo_relay = \<lparr>Name = ''relay'', Version = 1\<rparr>"

definition demo_relay_session :: "nat session" where
  "demo_relay_session = empty_session\<lparr>ss_connections := [demo_peer \<mapsto> mk_accepted_connection demo_peer,
     demo_random \<mapsto> mk_accepted_connection demo_random], ss_local_objects := [mk_object_id demo_relay 0 \<mapsto> 5]\<rparr>"

definition demo_relay_call :: "wire_value list \<Rightarrow> (nat, nat) state \<Rightarrow> ((exn + wire_value) \<times> (nat, nat) state) option" where
  "demo_relay_call args = proxy_call demo_toolkit demo_random_env demo_random_start
     (caller_poll demo_toolkit demo_random_env demo_random_start demo_random
       (frame demo_toolkit (answer_payload demo_toolkit 0 (Inr (VU32 50)))))
     random_generator_if demo_get_integer (create_proxy demo_random (mk_object_id demo_random 0)) args"

definition demo_relay_impl :: "(nat, nat) state implementation" where
  "demo_relay_impl name args st =
     (case demo_relay_call args st of Some x \<Rightarrow> x | None \<Rightarrow> (Inl (Exception ''no answer''), st))"

definition demo_relay_env :: "(nat, nat) env" where
  "demo_relay_env = \<lparr>env_connect = (\<lambda>path w. (Some (System_Exception ''connect''), w)),
     env_invoke = (\<lambda>obj m d. pbus_invoke demo_toolkit demo_relay_impl random_generator_if m d), env_devel = True\<rparr>"

lemma demo_random_fresh: "demo_random \<noteq> demo_peer" "demo_relay \<noteq> demo_peer" "demo_relay \<noteq> demo_random"
  by (simp_all add: demo_random_def demo_peer_def demo_relay_def)

lemma demo_lengths:
  "length (invoke_payload demo_toolkit (mk_object_id demo_relay 0) ''getInteger'' [VU32 100]) < 2 ^ 32"
  "length (answer_payload demo_toolkit n (Inr (VU32 k))) < 2 ^ 32"
  by (simp_all add: invoke_payload_def answer_payload_def result_payload_def object_id_write_def class_id_write_def
      length_demo_put demo_relay_def)

lemma relayed_call_witness:
  "(\<exists>s_end. receive_bytes demo_toolkit demo_relay_env demo_random_start demo_peer
      (frame demo_toolkit (invoke_payload demo_toolkit (mk_object_id demo_relay 0) ''getInteger'' [VU32 100]))
      (demo_relay_session, 7) = (None, (s_end, 7))) \<and>
   (\<exists>sa_end. proxy_call demo_toolkit demo_random_env demo_random_start
      (caller_poll demo_toolkit demo_random_env demo_random_start demo_random
        (frame demo_toolkit (answer_payload demo_toolkit 0 (Inr (VU32 50)))))
      random_generator_if demo_get_integer (create_proxy demo_random (mk_object_id demo_relay 0)) [VU32 100] (demo_client_session, 3) =
    Some (Inr (VU32 50), (sa_end, 3)))"
proof -
  let ?T = demo_toolkit and ?m = demo_get_integer and ?i = "mk_object_id demo_relay 0"
  have idle: "idle_conn ?T demo_relay_session demo_peer (mk_accepted_connection demo_peer)"
      "idle_conn ?T demo_relay_session demo_random (mk_accepted_connection demo_random)"
      "idle_conn ?T demo_client_session demo_random (mk_accepted_connection demo_random)"
    by (rule idle_accepted; simp add: demo_relay_session_def demo_client_session_def demo_random_fresh)+
  have obj: "ss_local_objects demo_relay_session ?i = Some 5"
    by (simp add: demo_relay_session_def)
  have wf: "class_id_wf (Type ?i)" "Version (Type ?i) = 1"
    by (simp_all add: demo_relay_def class_id_wf_def)
  have m: "lookup_method random_generator_if (im_name ?m) = Some ?m" "map type_of [VU32 100] = im_args ?m"
    by (simp_all add: random_generator_if_def demo_get_integer_def)
  have impl: "\<forall>st x. proxy_call ?T demo_random_env demo_random_start
        (caller_poll ?T demo_random_env demo_random_start demo_random (frame ?T (answer_payload ?T
          (conn_write_serial (mk_accepted_connection demo_random)) (Inr (VU32 50))))) random_generator_if ?m
        (create_proxy demo_random (mk_object_id demo_random 0)) [VU32 100] st = Some x \<longrightarrow>
      demo_relay_impl (im_name ?m) [VU32 100] st = x"
    by (simp add: demo_relay_impl_def demo_relay_call_def)
  have env: "env_invoke demo_relay_env 5 (im_name ?m) (serialize ?T [VU32 100]) =
      pbus_invoke ?T demo_relay_impl random_generator_if (im_name ?m) (serialize ?T [VU32 100])"
    by (simp add: demo_relay_env_def)
  have zero: "conn_write_serial (mk_accepted_connection demo_random) = conn_read_serial (mk_accepted_connection demo_peer)"
    by (simp add: mk_accepted_connection_def mk_connection_def)
  note call = relayed_call [where start = demo_random_start and start_a = demo_random_start and Ea = demo_random_env,
      OF demo_le_ok demo_buf_ok demo_bson_ok demo_poll_ok idle(3,1) zero idle(2) demo_random_fresh(1) [symmetric] wf obj m env impl,
      of 7 3]
  show ?thesis
    using call demo_lengths
    by (simp add: demo_get_integer_def mk_accepted_connection_def mk_connection_def rethrown_def) blast
qed

section \<open>A second request while the first one is handled\<close>

text \<open>
  The read loop of a connection whose read task is finished, as it is while the message is being
  handled, consumes nothing: it hands the message over again, under the next serial.
\<close>

lemma input_loop_finished:
  assumes "ss_connections s i = Some c" and "rt_finished (conn_read_task c)" and "d \<noteq> []"
  shows "input_loop T h i d (s, w) = input_loop T h i d (input_message h i c (rt_data (conn_read_task c)) (s, w))"
proof -
  have "on_conn i (\<lambda>c'. c'\<lparr>conn_read_task := conn_read_task c\<rparr>) (s, w) = (s, w)"
    using assms(1) by (simp add: on_conn_def with_conn_lookup fun_upd_idem)
  then show ?thesis
    using assms by (subst input_loop.simps) (simp add: rt_read_finished)
qed

text \<open>An implementation that answers \<open>r\<close> without using the session.\<close>

definition pure_method ::
  "('o, 'w) env \<Rightarrow> 'o \<Rightarrow> string \<Rightarrow> bytes \<Rightarrow> 'w \<Rightarrow> exn + bytes \<Rightarrow> 'w \<Rightarrow> bool" where
  "pure_method E obj m d w r w' \<longleftrightarrow> (\<forall>s. env_invoke E obj m d (s, w) = (r, (s, w')))"

text \<open>Such a request, complete, on an open connection.\<close>

lemma input_message_pure:
  assumes T: "le_ok T" "buf_ok T" "bson_ok T" "poll_ok T"
    and c: "open_conn s client c" "conn_service c = client"
    and i: "class_id_wf (Type i)" "Version (Type i) = 1" "ss_local_objects s i = Some obj"
    and E: "pure_method E obj m (serialize T args) w (map_sum id (ser_value T) r) w1"
  shows "input_message (on_incoming_data T E start) client c (invoke_payload T i m args) (s, w) =
    (s\<lparr>ss_connections := (ss_connections s)(client \<mapsto> answered_conn T r c)\<rparr>, w1)"
proof -
  let ?c = "c\<lparr>conn_read_serial := conn_read_serial c + 1\<rparr>"
  let ?s = "s\<lparr>ss_connections := (ss_connections s)(client \<mapsto> ?c)\<rparr>"
  have look: "ss_connections s client = Some c" and c1: "open_conn ?s client ?c"
    using c(1) by (simp_all add: open_conn_def)
  have "env_invoke E obj m (serialize T args) (?s, w) = (map_sum id (ser_value T) r, (?s, w1))"
    using E by (simp add: pure_method_def)
  from input_message_request [where start = start, OF T look c(2) i this c1] show ?thesis
    by (simp add: answered_conn_def)
qed

text \<open>
  The second request read while the first one is handled: the state in which the nested input event ends.
\<close>

lemma nested_request_repeats:
  assumes T: "le_ok T" "buf_ok T" "bson_ok T" "poll_ok T" and idle: "idle_conn T s client c"
    and i: "class_id_wf (Type i)" "Version (Type i) = 1" "ss_local_objects s i = Some obj"
    and i': "class_id_wf (Type i')" "Version (Type i') = 1" "ss_local_objects s i' = Some obj'"
    and len': "length (invoke_payload T i' m' args') < 2 ^ 32"
    and E: "pure_method E obj m (serialize T args) w (map_sum id (ser_value T) r) w1"
    and E': "pure_method E obj' m' (serialize T args') w1 (map_sum id (ser_value T) r') w2"
    and t: "rt_finished t" "rt_data t = invoke_payload T i m args"
  defines "n \<equiv> conn_read_serial c"
  shows "\<exists>c2. receive_bytes T E start client (frame T (invoke_payload T i' m' args')) (handling_session client t c s, w) =
      (None, (s\<lparr>ss_connections := (ss_connections s)(client \<mapsto> c2)\<rparr>, w2)) \<and>
    conn_registered c2 \<and> conn_socket c2 = Some Connected \<and> conn_read_serial c2 = n + 3 \<and>
    queued_bytes c2 = frame T (answer_payload T (n + 1) r) @ frame T (answer_payload T (n + 2) r')"
proof -
  let ?c = "handling_conn t c" and ?req = "invoke_payload T i m args" and ?req' = "invoke_payload T i' m' args'"
  let ?c1 = "answered_conn T r ?c" and ?on = "on_incoming_data T E start"
  let ?at = "\<lambda>d. s\<lparr>ss_connections := (ss_connections s)(client \<mapsto> d)\<rparr>"
  have c: "conn_registered ?c" "conn_socket ?c = Some Connected" "conn_service ?c = client"
      "conn_read_serial ?c = n + 1" "conn_read_task ?c = t" "queued_bytes ?c = []"
    using idle by (simp_all add: idle_conn_def handling_conn_def n_def queued_bytes_def)
  note c1 = answered_conn_simps [OF T(4,1) c(1), of r]
  have "open_conn (?at ?c) client ?c"
    using c by (simp add: open_conn_def)
  from input_message_pure [OF T this c(3) i(1,2) _ E] i(3)
  have "input_message ?on client ?c ?req (?at ?c, w) = (?at ?c1, w1)"
    by simp
  then have one: "input_loop T ?on client (frame T ?req') (?at ?c, w) = input_loop T ?on client (frame T ?req') (?at ?c1, w1)"
    using input_loop_finished [where h = ?on and c = ?c and s = "?at ?c" and w = w and d = "frame T ?req'"] c(5) t T(1) by simp
  obtain t' where "input_loop T ?on client (frame T ?req') (?at ?c1, w1) =
      input_message ?on client ?c1 ?req' (on_conn client (\<lambda>c. c\<lparr>conn_read_task := t'\<rparr>) (?at ?c1, w1))"
    using input_loop_frame [OF T(1,2) len', of "?at ?c1" client ?c1 ?on w1] c1(5) by auto
  moreover let ?d = "?c1\<lparr>conn_read_task := t'\<rparr>"
  have "\<dots> = input_message ?on client ?d ?req' (?at ?d, w1)"
    by (simp add: input_message_def on_conn_def with_conn_lookup)
  moreover have "\<dots> = (?at (answered_conn T r' ?d), w2)"
  proof -
    have "open_conn (?at ?d) client ?d" "conn_service ?d = client"
      using c1 c by (simp_all add: open_conn_def)
    from input_message_pure [OF T this i'(1,2) _ E'] i'(3) show ?thesis by simp
  qed
  ultimately have "receive_bytes T E start client (frame T ?req') (handling_session client t c s, w) =
      (None, (?at (answered_conn T r' ?d), w2))"
    using receive_bytes_loop [of "(?at ?c, w)" client ?c "frame T ?req'" T E start] one T(1) by (simp add: handling_session_def)
  moreover have "conn_registered ?d" using c1(1) by simp
  note c2 = answered_conn_simps [OF T(4,1) this, of r']
  ultimately show ?thesis
    using c c1 by (intro exI [of _ "answered_conn T r' ?d"]) (simp add: c2 queued_bytes_def add.assoc)
qed

text \<open>
  C38: a method that polls may be executed again. Let a client send two requests, one after the other,
  and let the method called by the first one poll while it is handled (because it calls another
  service, say), so that the input event that brings the second request is delivered inside it. The
  first request is then executed a second time before the second one is read, and the serials move:
  the second execution is answered under the serial that the client gave to its second request, the
  second request under the one after it, which names no request yet, and only then the method that was
  called first returns its own answer. The client's second call gets the result of its first request.
\<close>

theorem nested_poll_repeats_request:
  assumes "le_ok T" and "buf_ok T" and "bson_ok T" and "poll_ok T" and "idle_conn T s client c"
    and "class_id_wf (Type i)" and "Version (Type i) = 1" and "ss_local_objects s i = Some obj"
    and "class_id_wf (Type i')" and "Version (Type i') = 1" and "ss_local_objects s i' = Some obj'"
    and "length (invoke_payload T i m args) < 2 ^ 32" and "length (invoke_payload T i' m' args') < 2 ^ 32"
    and "pure_method En obj m (serialize T args) w (map_sum id (ser_value T) r_again) w1"
    and "pure_method En obj' m' (serialize T args') w1 (map_sum id (ser_value T) r') w2"
    and "\<forall>st. env_invoke E obj m (serialize T args) st = (map_sum id (ser_value T) r,
        snd (receive_bytes T En start_n client (frame T (invoke_payload T i' m' args')) st))"
  defines "n \<equiv> conn_read_serial c"
  shows "\<exists>s_end c_end. receive_bytes T E start client (frame T (invoke_payload T i m args)) (s, w) = (None, (s_end, w2)) \<and>
    ss_connections s_end = (ss_connections s)(client \<mapsto> c_end) \<and> conn_read_serial c_end = n + 3 \<and>
    queued_bytes c_end = frame T (answer_payload T (n + 1) r_again) @ frame T (answer_payload T (n + 2) r') @
      frame T (answer_payload T n r)"
proof -
  let ?req = "invoke_payload T i m args" and ?req' = "invoke_payload T i' m' args'"
  let ?at = "\<lambda>d. s\<lparr>ss_connections := (ss_connections s)(client \<mapsto> d)\<rparr>"
  let ?q = "frame T (answer_payload T (n + 1) r_again) @ frame T (answer_payload T (n + 2) r')"
  have "\<exists>c2. receive_bytes T En start_n client (frame T ?req') (handling_session client t c s, w) = (None, (?at c2, w2)) \<and>
      conn_registered c2 \<and> conn_socket c2 = Some Connected \<and> conn_read_serial c2 = n + 3 \<and> queued_bytes c2 = ?q"
    if "rt_finished t" "rt_data t = ?req" for t
    unfolding n_def by (rule nested_request_repeats [OF assms(1-11,13-15) that])
  then obtain c2 where c2: "\<And>t. rt_finished t \<Longrightarrow> rt_data t = ?req \<Longrightarrow>
      receive_bytes T En start_n client (frame T ?req') (handling_session client t c s, w) = (None, (?at (c2 t), w2)) \<and>
      conn_registered (c2 t) \<and> conn_socket (c2 t) = Some Connected \<and> conn_read_serial (c2 t) = n + 3 \<and> queued_bytes (c2 t) = ?q"
    by metis
  then have "\<forall>t. rt_finished t \<longrightarrow> rt_data t = ?req \<longrightarrow> env_invoke E obj m (serialize T args) (handling_session client t c s, w) =
      (map_sum id (ser_value T) r, (?at (c2 t), w2)) \<and> open_conn (?at (c2 t)) client (c2 t)"
    using assms(16) by (simp add: open_conn_def)
  from receive_request [where start = start, OF assms(1-8) this assms(12), folded n_def]
  obtain t where t: "rt_finished t" "rt_data t = ?req"
    and e: "receive_bytes T E start client (frame T ?req) (s, w) = (None, (?at
      ((snd (conn_enqueue T (frame T (answer_payload T n r)) (c2 t)))\<lparr>conn_read_task := new_read_task\<rparr>), w2))"
    by auto
  let ?d = "(snd (conn_enqueue T (frame T (answer_payload T n r)) (c2 t)))\<lparr>conn_read_task := new_read_task\<rparr>"
  have "conn_read_serial ?d = n + 3" "queued_bytes ?d = ?q @ frame T (answer_payload T n r)"
    using c2 [OF t] assms(4) by (simp_all add: conn_enqueue_registered queued_bytes_def)
  with e show ?thesis
    by (intro exI [of _ "?at ?d"] exI [of _ ?d]) simp
qed

text \<open>For the witness: \<^verbatim>\<open>getInteger(100)\<close> and then \<^verbatim>\<open>getInteger(10)\<close> of an object that polls.\<close>

definition demo_polling_env :: "(nat, nat) env" where
  "demo_polling_env = demo_random_env\<lparr>env_invoke := \<lambda>obj m d st. (Inr (ser_value demo_toolkit (VU32 77)),
     snd (receive_bytes demo_toolkit demo_random_env demo_random_start demo_peer
       (frame demo_toolkit (invoke_payload demo_toolkit (mk_object_id demo_random 0) ''getInteger'' [VU32 10])) st))\<rparr>"

lemma demo_pure:
  "pure_method demo_random_env 5 ''getInteger'' (serialize demo_toolkit [VU32 k]) w
     (map_sum id (ser_value demo_toolkit) (Inr (VU32 (k div 2)))) (Suc w)"
proof -
  let ?m = demo_get_integer
  have "pbus_invoke demo_toolkit demo_half random_generator_if (im_name ?m) (serialize demo_toolkit [VU32 k]) w =
      (map_sum id (ser_value demo_toolkit) (Inr (VU32 (k div 2))), Suc w)"
    by (rule pbus_invoke_serialized [OF demo_bson_ok])
      (simp_all add: random_generator_if_def demo_get_integer_def demo_half_def)
  then show ?thesis
    by (simp add: pure_method_def demo_random_env_def on_world_def demo_get_integer_def)
qed

theorem nested_poll_repeats_request_witness:
  "\<exists>s_end c_end. receive_bytes demo_toolkit demo_polling_env demo_random_start demo_peer
      (frame demo_toolkit (invoke_payload demo_toolkit (mk_object_id demo_random 0) ''getInteger'' [VU32 100])) (demo_server_session, 0) =
      (None, (s_end, 2)) \<and> ss_connections s_end demo_peer = Some c_end \<and>
    queued_bytes c_end = frame demo_toolkit (answer_payload demo_toolkit 1 (Inr (VU32 50))) @
      frame demo_toolkit (answer_payload demo_toolkit 2 (Inr (VU32 5))) @ frame demo_toolkit (answer_payload demo_toolkit 0 (Inr (VU32 77)))"
proof -
  let ?T = demo_toolkit and ?i = "mk_object_id demo_random 0"
  have idle: "idle_conn ?T demo_server_session demo_peer (mk_accepted_connection demo_peer)"
    by (rule idle_accepted) (simp add: demo_server_session_def)
  have i: "class_id_wf (Type ?i)" "Version (Type ?i) = 1" "ss_local_objects demo_server_session ?i = Some 5"
    by (simp_all add: demo_random_def class_id_wf_def demo_server_session_def)
  have len: "length (invoke_payload ?T ?i ''getInteger'' [VU32 100]) < 2 ^ 32" "length (invoke_payload ?T ?i ''getInteger'' [VU32 10]) < 2 ^ 32"
    by (simp_all add: invoke_payload_def object_id_write_def class_id_write_def length_demo_put demo_random_def)
  have env: "\<forall>st. env_invoke demo_polling_env 5 ''getInteger'' (serialize ?T [VU32 100]) st =
      (map_sum id (ser_value ?T) (Inr (VU32 77)), snd (receive_bytes ?T demo_random_env demo_random_start demo_peer
        (frame ?T (invoke_payload ?T ?i ''getInteger'' [VU32 10])) st))"
    by (simp add: demo_polling_env_def)
  from nested_poll_repeats_request [where start = demo_random_start, OF demo_le_ok demo_buf_ok demo_bson_ok demo_poll_ok idle i i len demo_pure demo_pure env]
  have "\<exists>s_end c_end. receive_bytes ?T demo_polling_env demo_random_start demo_peer
      (frame ?T (invoke_payload ?T ?i ''getInteger'' [VU32 100])) (demo_server_session, w) = (None, (s_end, Suc (Suc w))) \<and>
    ss_connections s_end demo_peer = Some c_end \<and>
    queued_bytes c_end = frame ?T (answer_payload ?T 1 (Inr (VU32 50))) @
      frame ?T (answer_payload ?T 2 (Inr (VU32 5))) @ frame ?T (answer_payload ?T 0 (Inr (VU32 77)))" for w
    by (simp add: mk_accepted_connection_def mk_connection_def) (metis fun_upd_same)
  from this [of 0] show ?thesis
    by (simp add: numeral_2_eq_2)
qed

end
