(* ===== verification/Call_Chain.thy ===== *)
theory Call_Chain
  imports Nested_Calls Live_Peer
begin

text \<open>
  Chains of services: a client calls a service, which calls another one to answer the call, and so on,
  over any number of processes. Each process runs in the polls of the one that waits for it. To the client
  the chain is one object: it gets what the methods would compute if they called each other directly,
  and the chain is ready for the next call.
\<close>

section \<open>Processes that contain the process they call\<close>

datatype ('o, 'w) chain = Leaf 'w | Hop "'o session" "('o, 'w) chain"

fun chain_get :: "('o, 'w) chain \<Rightarrow> ('o, ('o, 'w) chain) state option" where
  "chain_get (Leaf w) = None"
| "chain_get (Hop s v) = Some (s, v)"

fun chain_put :: "('o, ('o, 'w) chain) state \<Rightarrow> ('o, 'w) chain \<Rightarrow> ('o, 'w) chain" where
  "chain_put (s, v) _ = Hop s v"

interpretation chain: peer_world chain_get chain_put
proof
  show "chain_get v \<noteq> None \<Longrightarrow> chain_get (chain_put p v) = Some p" for v :: "('a, 'b) chain" and p
    by (cases p) simp
  show "chain_put p (chain_put q v) = chain_put p v" for p q and v :: "('a, 'b) chain"
    by (cases p) simp
qed

text \<open>The world of the last process, the only one that a method changes.\<close>

fun chain_leaf :: "('o, 'w) chain \<Rightarrow> 'w" where
  "chain_leaf (Leaf w) = w"
| "chain_leaf (Hop s v) = chain_leaf v"

text \<open>
  A process as the one before it sees it: its service, the name under which it knows its client,
  the object that is called with its interface and method; and how the method of the process before
  uses it: the arguments it passes on, and what it makes of the result.
\<close>

record 'o callee =
  ce_service :: service_id
  ce_client :: service_id
  ce_object :: object_id
  ce_impl :: 'o
  ce_interface :: idl_interface
  ce_method :: idl_method
  ce_args :: "string \<Rightarrow> wire_value list \<Rightarrow> wire_value list"
  ce_result :: "exn + wire_value \<Rightarrow> exn + wire_value"

text \<open>
  The method of a process followed by the processes \<open>cs\<close>: a call on a proxy of the first of them, or, in
  the last process, \<open>leaf\<close>. A wait that does not end would be the exception here; the theorems show that
  it ends.
\<close>

primrec chain_impl ::
  "toolkit \<Rightarrow> ('o, ('o, 'w) chain) env \<Rightarrow> ('o, ('o, 'w) chain) start_fun \<Rightarrow> 'w implementation \<Rightarrow> 'o callee list \<Rightarrow>
   ('o, ('o, 'w) chain) state implementation" where
  "chain_impl T E start leaf [] name args st =
     (case snd st of
        Leaf w \<Rightarrow> (case leaf name args w of (r, w1) \<Rightarrow> (r, (fst st, Leaf w1)))
      | Hop s v \<Rightarrow> (Inl (Exception ''not the last process''), st))"
| "chain_impl T E start leaf (c # cs) name args st =
     (case proxy_call T E start
        (peer_poll T E start chain_get chain_put
          (E\<lparr>env_invoke := \<lambda>obj. pbus_invoke T (chain_impl T E start leaf cs) (ce_interface c)\<rparr>) start (ce_service c) (ce_client c))
        (ce_interface c) (ce_method c) (create_proxy (ce_service c) (ce_object c)) (ce_args c name args) st of
        None \<Rightarrow> (Inl (Exception ''no answer''), st)
      | Some (r, st1) \<Rightarrow> (ce_result c r, st1))"

text \<open>The same methods calling each other directly, in one process.\<close>

primrec local_chain :: "'w implementation \<Rightarrow> 'o callee list \<Rightarrow> 'w implementation" where
  "local_chain leaf [] name args w = leaf name args w"
| "local_chain leaf (c # cs) name args w =
     (case local_chain leaf cs (im_name (ce_method c)) (ce_args c name args) w of (r, w1) \<Rightarrow> (ce_result c (rethrown r), w1))"

text \<open>
  Neighbours are connected, nothing is in transit, the caller's write serial is the callee's read serial,
  and the callee holds the object. A process has different connections to its client and to its callee.
\<close>

fun chain_ok :: "toolkit \<Rightarrow> 'o callee list \<Rightarrow> ('o, ('o, 'w) chain) state \<Rightarrow> bool" where
  "chain_ok T [] (s, v) \<longleftrightarrow> (\<exists>w. v = Leaf w)"
| "chain_ok T (c # cs) (s, v) \<longleftrightarrow>
     (\<exists>sp vp ca cb. v = Hop sp vp \<and> idle_conn T s (ce_service c) ca \<and> idle_conn T sp (ce_client c) cb \<and>
        conn_write_serial ca = conn_read_serial cb \<and> ss_local_objects sp (ce_object c) = Some (ce_impl c) \<and>
        (cs \<noteq> [] \<longrightarrow> ce_client c \<noteq> ce_service (hd cs)) \<and> chain_ok T cs (sp, vp))"

definition callee_ok :: "'o callee \<Rightarrow> bool" where
  "callee_ok c \<longleftrightarrow> class_id_wf (Type (ce_object c)) \<and> Version (Type (ce_object c)) = 1 \<and>
     lookup_method (ce_interface c) (im_name (ce_method c)) = Some (ce_method c)"

text \<open>Every call along the chain has arguments and a result of its types, and its messages fit their size field.\<close>

primrec call_fits :: "toolkit \<Rightarrow> 'w implementation \<Rightarrow> 'o callee list \<Rightarrow> string \<Rightarrow> wire_value list \<Rightarrow> 'w \<Rightarrow> bool" where
  "call_fits T leaf [] name args w \<longleftrightarrow> True"
| "call_fits T leaf (c # cs) name args w \<longleftrightarrow>
     (let m = ce_method c; as = ce_args c name args; r = fst (local_chain leaf cs (im_name m) as w) in
        map type_of as = im_args m \<and> (\<forall>v. r = Inr v \<longrightarrow> type_of v = im_result m) \<and>
        length (invoke_payload T (ce_object c) (im_name m) as) < 2 ^ 32 \<and>
        (\<forall>n. length (answer_payload T n r) < 2 ^ 32) \<and> call_fits T leaf cs (im_name m) as w)"

section \<open>One call\<close>

lemma chain_ok_other:
  assumes "cs \<noteq> [] \<longrightarrow> ss_connections s1 (ce_service (hd cs)) = ss_connections s (ce_service (hd cs))"
  shows "chain_ok T cs (s1, v) \<longleftrightarrow> chain_ok T cs (s, v)"
  using assms by (cases cs) (auto simp: idle_conn_def)

lemma chain_ok_ConsI:
  "idle_conn T s (ce_service c) ca \<Longrightarrow> idle_conn T sp (ce_client c) cb \<Longrightarrow> conn_write_serial ca = conn_read_serial cb \<Longrightarrow>
   ss_local_objects sp (ce_object c) = Some (ce_impl c) \<Longrightarrow> (cs \<noteq> [] \<longrightarrow> ce_client c \<noteq> ce_service (hd cs)) \<Longrightarrow>
   chain_ok T cs (sp, vp) \<Longrightarrow> chain_ok T (c # cs) (s, Hop sp vp)"
  by auto

text \<open>What a call leaves alone in the caller's session: everything but its connection to the callee.\<close>

definition chain_frame :: "'o callee list \<Rightarrow> 'o session \<Rightarrow> 'o session \<Rightarrow> bool" where
  "chain_frame cs s s1 \<longleftrightarrow> ss_local_objects s1 = ss_local_objects s \<and>
     (\<forall>i. (cs \<noteq> [] \<longrightarrow> i \<noteq> ce_service (hd cs)) \<longrightarrow> ss_connections s1 i = ss_connections s i)"

text \<open>One hop: what the rest of the chain does, wherever the request of the hop is handled, is given.\<close>

lemma chain_hop:
  assumes T: "le_ok T" "buf_ok T" "bson_ok T" "poll_ok T" and c: "callee_ok c"
    and ca: "idle_conn T s (ce_service c) ca" and cb: "idle_conn T sp (ce_client c) cb"
    and serials: "conn_write_serial ca = conn_read_serial cb" and obj: "ss_local_objects sp (ce_object c) = Some (ce_impl c)"
    and differ: "cs \<noteq> [] \<longrightarrow> ce_client c \<noteq> ce_service (hd cs)"
    and types: "map type_of (ce_args c name args) = im_args (ce_method c)" "\<forall>v. r = Inr v \<longrightarrow> type_of v = im_result (ce_method c)"
    and len: "length (invoke_payload T (ce_object c) (im_name (ce_method c)) (ce_args c name args)) < 2 ^ 32"
      "length (answer_payload T (conn_write_serial ca) r) < 2 ^ 32"
    and rest: "\<forall>t. \<exists>s1 v1. chain_impl T E start leaf cs (im_name (ce_method c)) (ce_args c name args)
        (handling_session (ce_client c) t cb sp, vp) = (r, (s1, v1)) \<and>
      chain_leaf v1 = w1 \<and> chain_ok T cs (s1, v1) \<and> chain_frame cs (handling_session (ce_client c) t cb sp) s1"
  shows "\<exists>s1 v1. chain_impl T E start leaf (c # cs) name args (s, Hop sp vp) = (ce_result c (rethrown r), (s1, v1)) \<and>
    chain_leaf v1 = w1 \<and> chain_ok T (c # cs) (s1, v1) \<and> chain_frame (c # cs) s s1"
proof -
  let ?m = "ce_method c" and ?as = "ce_args c name args"
  let ?E = "E\<lparr>env_invoke := \<lambda>obj. pbus_invoke T (chain_impl T E start leaf cs) (ce_interface c)\<rparr>"
  from rest obtain s1 v1 where call: "\<And>t. chain_impl T E start leaf cs (im_name ?m) ?as (handling_session (ce_client c) t cb sp, vp) = (r, (s1 t, v1 t))"
    and leaf: "\<And>t. chain_leaf (v1 t) = w1" and ok: "\<And>t. chain_ok T cs (s1 t, v1 t)"
    and frame: "\<And>t. chain_frame cs (handling_session (ce_client c) t cb sp) (s1 t)"
    by metis
  note c = c [unfolded callee_ok_def, THEN conjunct1] c [unfolded callee_ok_def, THEN conjunct2, THEN conjunct1]
    c [unfolded callee_ok_def, THEN conjunct2, THEN conjunct2]
  have "\<forall>t. env_invoke ?E (ce_impl c) (im_name ?m) (serialize T ?as) (handling_session (ce_client c) t cb sp, vp) =
      (map_sum id (ser_value T) r, (s1 t, v1 t)) \<and> ss_connections (s1 t) (ce_client c) = Some (handling_conn t cb)"
    using pbus_invoke_serialized [where impl = "chain_impl T E start leaf cs", OF T(3) c(3) types(1) call types(2)] frame differ
    by (auto simp: chain_frame_def)
  from chain.live_call [where startp = start and start = start and E = E and I = "ce_interface c" and v = "Hop sp vp",
      OF T ca _ cb serials c(1,2) find_local_object_there [OF obj] this types(2) len]
  obtain sa_end ca_end t cb_end where e: "chain_impl T E start leaf (c # cs) name args (s, Hop sp vp) = (ce_result c (rethrown r),
        (sa_end, Hop ((s1 t)\<lparr>ss_connections := (ss_connections (s1 t))(ce_client c \<mapsto> cb_end)\<rparr>) (v1 t)))"
      "ss_connections sa_end = (ss_connections s)(ce_service c \<mapsto> ca_end)" "idle_conn T sa_end (ce_service c) ca_end"
      "conn_write_serial ca_end = conn_write_serial ca + 1" "ss_local_objects sa_end = ss_local_objects s"
      "idle_conn T ((s1 t)\<lparr>ss_connections := (ss_connections (s1 t))(ce_client c \<mapsto> cb_end)\<rparr>) (ce_client c) cb_end"
      "conn_read_serial cb_end = conn_read_serial cb + 1"
    by auto
  have "chain_ok T cs ((s1 t)\<lparr>ss_connections := (ss_connections (s1 t))(ce_client c \<mapsto> cb_end)\<rparr>, v1 t)"
    using ok [of t] differ by (subst chain_ok_other [of cs _ "s1 t"]) auto
  moreover have "conn_write_serial ca_end = conn_read_serial cb_end"
      "ss_local_objects ((s1 t)\<lparr>ss_connections := (ss_connections (s1 t))(ce_client c \<mapsto> cb_end)\<rparr>) (ce_object c) = Some (ce_impl c)"
    using e(4,7) serials obj frame [of t] by (simp_all add: chain_frame_def)
  ultimately have "chain_ok T (c # cs) (sa_end, Hop ((s1 t)\<lparr>ss_connections := (ss_connections (s1 t))(ce_client c \<mapsto> cb_end)\<rparr>) (v1 t))"
    by (intro chain_ok_ConsI [OF e(3,6) _ _ differ])
  moreover have "chain_frame (c # cs) s sa_end"
    using e(2,5) by (simp add: chain_frame_def)
  moreover have "chain_leaf (Hop ((s1 t)\<lparr>ss_connections := (ss_connections (s1 t))(ce_client c \<mapsto> cb_end)\<rparr>) (v1 t)) = w1"
    using leaf [of t] by simp
  ultimately show ?thesis
    using e(1) by blast
qed

lemma chain_call:
  assumes T: "le_ok T" "buf_ok T" "bson_ok T" "poll_ok T" and cs: "list_all callee_ok cs"
    and "chain_ok T cs (s, v)" and "call_fits T leaf cs name args (chain_leaf v)"
  shows "\<exists>s1 v1. chain_impl T E start leaf cs name args (s, v) = (fst (local_chain leaf cs name args (chain_leaf v)), (s1, v1)) \<and>
    chain_leaf v1 = snd (local_chain leaf cs name args (chain_leaf v)) \<and> chain_ok T cs (s1, v1) \<and> chain_frame cs s s1"
  using cs assms(6,7)
proof (induction cs arbitrary: name args s v)
  case Nil
  then show ?case by (auto simp: chain_frame_def split: prod.split)
next
  case (Cons c cs)
  let ?m = "ce_method c" and ?as = "ce_args c name args"
  obtain sp vp ca cb where v: "v = Hop sp vp" and conns: "idle_conn T s (ce_service c) ca" "idle_conn T sp (ce_client c) cb"
      "conn_write_serial ca = conn_read_serial cb" and obj: "ss_local_objects sp (ce_object c) = Some (ce_impl c)"
    and differ: "cs \<noteq> [] \<longrightarrow> ce_client c \<noteq> ce_service (hd cs)" and rest: "chain_ok T cs (sp, vp)"
    using Cons.prems(2) by auto
  let ?r = "local_chain leaf cs (im_name ?m) ?as (chain_leaf vp)"
  have fits: "map type_of ?as = im_args ?m" "\<forall>v. fst ?r = Inr v \<longrightarrow> type_of v = im_result ?m"
      "length (invoke_payload T (ce_object c) (im_name ?m) ?as) < 2 ^ 32" "length (answer_payload T n (fst ?r)) < 2 ^ 32"
      "call_fits T leaf cs (im_name ?m) ?as (chain_leaf vp)" for n
    using Cons.prems(3) by (simp_all add: v Let_def)
  have c: "callee_ok c" "list_all callee_ok cs"
    using Cons.prems(1) by simp_all
  have "chain_ok T cs (handling_session (ce_client c) t cb sp, vp)" for t
    using rest differ by (subst chain_ok_other [of cs _ sp]) auto
  with Cons.IH [OF c(2) _ fits(5)]
  have "\<forall>t. \<exists>s1 v1. chain_impl T E start leaf cs (im_name ?m) ?as (handling_session (ce_client c) t cb sp, vp) = (fst ?r, (s1, v1)) \<and>
      chain_leaf v1 = snd ?r \<and> chain_ok T cs (s1, v1) \<and> chain_frame cs (handling_session (ce_client c) t cb sp) s1"
    by blast
  from chain_hop [OF T c(1) conns obj differ fits(1-4) this] show ?case
    by (simp add: v split_beta del: chain_impl.simps chain_ok.simps)
qed

section \<open>Sequences of calls\<close>

primrec run_all :: "('c \<Rightarrow> 's \<Rightarrow> 'r \<times> 's) \<Rightarrow> 'c list \<Rightarrow> 's \<Rightarrow> 'r list \<times> 's" where
  "run_all f [] st = ([], st)"
| "run_all f (x # xs) st = (case f x st of (r, st1) \<Rightarrow> case run_all f xs st1 of (rs, st2) \<Rightarrow> (r # rs, st2))"

text \<open>A call is a method's name with its arguments.\<close>

primrec calls_fit :: "toolkit \<Rightarrow> 'w implementation \<Rightarrow> 'o callee list \<Rightarrow> (string \<times> wire_value list) list \<Rightarrow> 'w \<Rightarrow> bool" where
  "calls_fit T leaf cs [] w \<longleftrightarrow> True"
| "calls_fit T leaf cs (x # xs) w \<longleftrightarrow>
     call_fits T leaf cs (fst x) (snd x) w \<and> calls_fit T leaf cs xs (snd (local_chain leaf cs (fst x) (snd x) w))"

text \<open>
  C9: a chain of services is one object. Let each process of a chain be connected to the next, with
  nothing in transit, and let the method of each but the last call the method of the next. Any
  sequence of calls that the client makes through the whole chain then returns, one by one, and gives
  exactly the results that the methods would give if they called each other directly (an exception
  arrives as a \<^verbatim>\<open>std::runtime_error\<close> with its text); the world of the last process changes as if it had
  been called directly, so that each call reaches it once; and at the end nothing is in transit and the
  serials of all neighbours still agree.
\<close>

theorem chain_is_one_object:
  assumes "le_ok T" and "buf_ok T" and "bson_ok T" and "poll_ok T" and "list_all callee_ok cs"
    and "chain_ok T cs (s, v)" and "calls_fit T leaf cs calls (chain_leaf v)"
  shows "\<exists>s1 v1. run_all (\<lambda>x. chain_impl T E start leaf cs (fst x) (snd x)) calls (s, v) =
      (fst (run_all (\<lambda>x. local_chain leaf cs (fst x) (snd x)) calls (chain_leaf v)), (s1, v1)) \<and>
    chain_leaf v1 = snd (run_all (\<lambda>x. local_chain leaf cs (fst x) (snd x)) calls (chain_leaf v)) \<and>
    chain_ok T cs (s1, v1)"
  using assms(6,7)
proof (induction calls arbitrary: s v)
  case Nil
  then show ?case by simp
next
  case (Cons x calls)
  let ?l = "local_chain leaf cs (fst x) (snd x) (chain_leaf v)"
  obtain s1 v1 where one: "chain_impl T E start leaf cs (fst x) (snd x) (s, v) = (fst ?l, (s1, v1))"
      "chain_leaf v1 = snd ?l" "chain_ok T cs (s1, v1)"
    using chain_call [where E = E and start = start, OF assms(1-5) Cons.prems(1)] Cons.prems(2) by force
  moreover from Cons.IH [OF one(3)] Cons.prems(2) one(2)
  obtain s2 v2 where "run_all (\<lambda>x. chain_impl T E start leaf cs (fst x) (snd x)) calls (s1, v1) =
      (fst (run_all (\<lambda>x. local_chain leaf cs (fst x) (snd x)) calls (snd ?l)), (s2, v2))"
    "chain_leaf v2 = snd (run_all (\<lambda>x. local_chain leaf cs (fst x) (snd x)) calls (snd ?l))" "chain_ok T cs (s2, v2)"
    by auto
  ultimately show ?case
    by (simp split: prod.split)
qed

text \<open>
  For the witness: a client, a relay and the random number service, which halves its argument and counts
  the calls.
\<close>

definition demo_via_relay :: "nat callee" where
  "demo_via_relay = \<lparr>ce_service = demo_relay, ce_client = demo_peer, ce_object = mk_object_id demo_relay 0, ce_impl = 5,
     ce_interface = random_generator_if, ce_method = demo_get_integer, ce_args = (\<lambda>name args. args), ce_result = id\<rparr>"

definition demo_last :: "nat callee" where
  "demo_last = demo_via_relay\<lparr>ce_service := demo_random, ce_client := demo_relay, ce_object := mk_object_id demo_random 0\<rparr>"

definition demo_chain :: "(nat, (nat, nat) chain) state" where
  "demo_chain = (empty_session\<lparr>ss_connections := [demo_relay \<mapsto> mk_accepted_connection demo_relay]\<rparr>,
     Hop demo_relay_session
       (Hop (empty_session\<lparr>ss_connections := [demo_relay \<mapsto> mk_accepted_connection demo_relay],
           ss_local_objects := [mk_object_id demo_random 0 \<mapsto> 5]\<rparr>)
         (Leaf 0)))"

definition demo_chain_env :: "(nat, (nat, nat) chain) env" where
  "demo_chain_env = \<lparr>env_connect = (\<lambda>path v. (Some (System_Exception ''connect''), v)),
     env_invoke = (\<lambda>obj m d. on_world (\<lambda>v. (Inl (Exception ''no object''), v))), env_devel = True\<rparr>"

definition demo_chain_start :: "(nat, (nat, nat) chain) start_fun" where
  "demo_chain_start i st = (Some (Exception ''no service manager''), st)"

theorem chain_is_one_object_witness:
  "\<exists>s1 v1. run_all (\<lambda>x. chain_impl demo_toolkit demo_chain_env demo_chain_start demo_half [demo_via_relay, demo_last] (fst x) (snd x))
      [(''getInteger'', [VU32 100]), (''getInteger'', [VU32 7])] demo_chain = ([Inr (VU32 50), Inr (VU32 3)], (s1, v1)) \<and>
    chain_leaf v1 = 2"
proof -
  let ?cs = "[demo_via_relay, demo_last]" and ?calls = "[(''getInteger'', [VU32 100]), (''getInteger'', [VU32 7])]"
  have cs: "list_all callee_ok ?cs"
    by (simp add: callee_ok_def demo_via_relay_def demo_last_def demo_relay_def demo_random_def class_id_wf_def
        random_generator_if_def demo_get_integer_def)
  have ok: "chain_ok demo_toolkit ?cs (fst demo_chain, snd demo_chain)"
    by (simp add: demo_chain_def demo_via_relay_def demo_last_def demo_relay_session_def demo_random_fresh idle_accepted)
      (auto simp: idle_conn_def mk_accepted_connection_def mk_connection_def demo_random_fresh demo_random_fresh [symmetric])
  have len: "length (invoke_payload demo_toolkit (mk_object_id demo_relay 0) ''getInteger'' [VU32 k]) < 2 ^ 32"
    "length (invoke_payload demo_toolkit (mk_object_id demo_random 0) ''getInteger'' [VU32 k]) < 2 ^ 32"
    "length (answer_payload demo_toolkit n (Inr (VU32 k))) < 2 ^ 32" for n k
    by (simp_all add: invoke_payload_def answer_payload_def result_payload_def object_id_write_def class_id_write_def
        length_demo_put demo_relay_def demo_random_def)
  have "calls_fit demo_toolkit demo_half ?cs ?calls (chain_leaf (snd demo_chain))"
    using len by (simp add: demo_via_relay_def demo_last_def demo_half_def demo_get_integer_def demo_chain_def rethrown_def)
  note call = chain_is_one_object [where E = demo_chain_env and start = demo_chain_start,
      OF demo_le_ok demo_buf_ok demo_bson_ok demo_poll_ok cs ok this]
  have "run_all (\<lambda>x. local_chain demo_half ?cs (fst x) (snd x)) ?calls (chain_leaf (snd demo_chain)) = ([Inr (VU32 50), Inr (VU32 3)], 2)"
    by (simp add: demo_via_relay_def demo_last_def demo_half_def demo_chain_def rethrown_def demo_get_integer_def)
  with call show ?thesis by auto
qed

end
