(* ===== verification/Reconnect.thy ===== *)
theory Reconnect
  imports Bus_Handling Nested_Calls
begin

text \<open>
  What a hangup leaves behind. \<^verbatim>\<open>HandleSocketEvent\<close> drops the socket and keeps the write queue, with
  the offset into the message that was being written, and the write serial; the next \<^verbatim>\<open>Send\<close>
  connects again, and the other side accepts with a new connection object. The bytes and the serials
  of the two sides then do not fit any more.
\<close>

section \<open>The bytes\<close>

text \<open>
  C23: after a reconnect the receiver reads the tail of a message as if it were a message. Let a
  connection hang up in any state that it can reach, and let the sender send \<open>p\<close> and everything be
  written and read. The receiver is given the messages that the specification \<open>split_frames\<close> finds in
  what was left in the queue, which may begin in the middle of a message, followed by the frame of
  \<open>p\<close>. In the witness the payload that was cut contains a frame itself, and the receiver gets a
  message that nobody has sent.
\<close>

theorem reconnect_reads_tail:
  assumes "le_ok T" and "buf_ok T" and "poll_ok T"
    and "(link_step T)\<^sup>*\<^sup>* (init_link service) l" and "length p < 2 ^ 32"
    and "split_frames T (queued_bytes (lk_tx l) @ frame T p) = (fs, rest)"
  shows "\<exists>l'. (link_step T)\<^sup>*\<^sup>* (relink l) l' \<and> lk_sent l' = [(word_of_nat (length (lk_sent l)), p)] \<and>
    lk_got l' = numbered fs \<and> rt_bytes (lk_rx l') = rest \<and> lk_wire l' = []"
proof -
  let ?tx = "lk_tx (relink l)" and ?n = "word_of_nat (length (lk_sent l)) :: u32"
  have inv: "link_inv T l" by (rule link_inv_steps [OF assms(1-4) link_inv_init])
  then have n: "conn_write_serial ?tx = ?n"
    unfolding link_inv_def by (auto simp: relink_def conn_connected_def conn_hangup_def)
  have ready: "conn_registered ?tx" "list_all (\<lambda>t. \<not> wt_finished t) (conn_write_queue ?tx)"
    and q: "queued_bytes ?tx = queued_bytes (lk_tx l)"
    using link_inv_ready [OF inv] by (simp_all add: relink_def conn_connected_def conn_hangup_def conn_ready_def queued_bytes_def)
  let ?l1 = "(relink l)\<lparr>lk_tx := snd (conn_enqueue T (frame T p) ?tx), lk_sent := [(?n, p)]\<rparr>"
  have "link_step T (relink l) ((relink l)\<lparr>lk_tx := snd (conn_enqueue T (frame T p) ?tx), lk_sent := lk_sent (relink l) @ [(?n, p)]\<rparr>)"
    using ready(1) assms(3) by (intro link_send [OF assms(5)]) (simp add: conn_enqueue_registered n)
  then have send: "link_step T (relink l) ?l1"
    by (simp add: relink_def)
  have "conn_ready (lk_tx ?l1)" and q1: "queued_bytes (lk_tx ?l1) = queued_bytes (lk_tx l) @ frame T p"
    using ready queued_bytes_enqueue [OF assms(3) ready(1), of "frame T p"] assms(1,3)
    by (auto simp: conn_ready_def conn_enqueue_registered q mk_write_task_def wt_finished_def)
  from link_flush [OF assms(3) this(1)] q1 obtain l2 where l2: "(link_step T)\<^sup>*\<^sup>* ?l1 l2" "lk_sent l2 = [(?n, p)]"
      "lk_wire l2 = queued_bytes (lk_tx l) @ frame T p" "lk_rx l2 = new_read_task" "lk_rx_serial l2 = 0" "lk_got l2 = []"
    by (auto simp: relink_def)
  obtain rx i got where r: "read_loop T log_frame new_read_task 0 [] (lk_wire l2) = (rx, i, got)"
    by (cases "read_loop T log_frame new_read_task 0 [] (lk_wire l2)")
  let ?l3 = "l2\<lparr>lk_rx := rx, lk_rx_serial := i, lk_got := got, lk_wire := []\<rparr>"
  have "link_step T l2 ?l3"
    by (rule link_input [where chunk = "lk_wire l2"]) (use assms(1) in \<open>simp_all add: r l2(4-6)\<close>, simp add: l2(3))
  with send l2(1) have run: "(link_step T)\<^sup>*\<^sup>* (relink l) ?l3"
    by (meson converse_rtranclp_into_rtranclp rtranclp.rtrancl_into_rtrancl)
  have "rt_bytes rx = rest" "got = numbered fs"
    using read_loop_split [OF assms(2) rt_open_new r, of fs rest] assms(6) dispatch_log_numbered [of "[]" fs]
    by (simp_all add: l2(3))
  with run l2(2) show ?thesis
    by (intro exI [of _ ?l3]) simp
qed

theorem reconnect_reads_tail_witness:
  "\<exists>l l'. (link_step demo_toolkit)\<^sup>*\<^sup>* (init_link demo_peer) l \<and> lk_sent l = [(0, frame demo_toolkit [9])] \<and> lk_got l = [] \<and>
    (link_step demo_toolkit)\<^sup>*\<^sup>* (relink l) l' \<and> lk_sent l' = [(1, [8])] \<and> lk_got l' = [(0, [9]), (1, [8])]"
proof -
  let ?T = demo_toolkit and ?p = "frame demo_toolkit [9]" and ?i = "init_link demo_peer"
  let ?c = "snd (conn_enqueue ?T (frame ?T ?p) (lk_tx ?i))" and ?w = "\<lambda>b :: bytes. (Inr (min 4 (length b)) :: exn + nat)"
  have reg: "conn_registered (lk_tx ?i)"
    by (simp add: init_link_def mk_accepted_connection_def)
  let ?l1 = "?i\<lparr>lk_tx := ?c, lk_sent := lk_sent ?i @ [(0, ?p)]\<rparr>"
  have one: "link_step ?T ?i ?l1"
    using reg by (intro link_send) (simp_all add: conn_enqueue_registered init_link_def mk_accepted_connection_def mk_connection_def frame_def)
  have ready: "conn_ready (lk_tx ?l1)"
    by (rule link_inv_ready [OF link_inv_step [OF demo_le_ok demo_buf_ok demo_poll_ok link_inv_init one]])
  let ?t = "mk_write_task (frame ?T ?p)"
  have q: "conn_write_queue (lk_tx ?l1) = ?t # []"
    using reg by (simp add: conn_enqueue_registered init_link_def mk_accepted_connection_def mk_connection_def)
  have buf: "wt_get_buffer ?t = frame ?T ?p" "length (frame ?T ?p) = 9" "drop 4 (frame ?T ?p) = ?p"
    by (simp_all add: mk_write_task_def wt_get_buffer_def) (simp_all add: frame_def)
  let ?tx = "?c\<lparr>conn_write_queue := [wt_complete 4 ?t], conn_out := True\<rparr>"
  have o: "conn_output ?T ?w (lk_tx ?l1) = (None, ?tx, take 4 (frame ?T ?p))"
    using conn_output_ok [OF demo_poll_ok ready q, of ?w 4] by (simp add: buf)
  let ?l2 = "?l1\<lparr>lk_tx := ?tx, lk_wire := lk_wire ?l1 @ take 4 (frame ?T ?p)\<rparr>"
  have "link_step ?T ?l1 ?l2"
    using ready q by (intro link_output [OF _ _ o]) (auto simp: conn_ready_def)
  with one have run: "(link_step ?T)\<^sup>*\<^sup>* ?i ?l2"
    by (meson converse_rtranclp_into_rtranclp rtranclp.rtrancl_refl)
  have "queued_bytes (lk_tx ?l2) = ?p"
    using buf(3) by (simp add: queued_bytes_def wt_complete_def mk_write_task_def wt_get_buffer_def)
  then have "split_frames ?T (queued_bytes (lk_tx ?l2) @ frame ?T [8]) = ([[9], [8]], [])"
    using split_frames_frames [OF demo_le_ok, of "[[9], [8]]" "[]"] by simp
  from reconnect_reads_tail [OF demo_le_ok demo_buf_ok demo_poll_ok run _ this] obtain l' where
    l': "(link_step ?T)\<^sup>*\<^sup>* (relink ?l2) l'" "lk_sent l' = [(1, [8])]" "lk_got l' = numbered [[9], [8]]"
    by (auto simp: init_link_def)
  have "numbered [[9], [8]] = [(0, [9]), (1, [8 :: u8])]"
    by (simp add: numbered_def upt_rec)
  with run l' show ?thesis
    by (intro exI [of _ ?l2] exI [of _ l'] conjI) (simp_all add: init_link_def)
qed

section \<open>The serials\<close>

text \<open>
  The polls of a caller that waits on a connection that has read the message \<open>n\<close> and nothing after
  it: until then output is flushed and the bytes \<open>d\<close> are read, afterwards no event comes.
\<close>

definition last_poll ::
  "toolkit \<Rightarrow> ('o, 'w) env \<Rightarrow> ('o, 'w) start_fun \<Rightarrow> service_id \<Rightarrow> u32 \<Rightarrow> bytes \<Rightarrow> ('o, 'w) state \<Rightarrow> (exn + nat) \<times> ('o, 'w) state" where
  "last_poll T E start server n d st =
     (case ss_connections (fst st) server of
        None \<Rightarrow> (Inr 0, st)
      | Some c \<Rightarrow> if conn_read_serial c = n + 1 then (Inr 0, st) else caller_poll T E start server d st)"

definition hangup_event :: socket_event where
  "hangup_event = \<lparr>ev_hangup = True, ev_output = False, ev_input = False\<rparr>"

text \<open>A send on a connection whose socket was dropped connects and goes on with the old serial.\<close>

lemma session_send_reconnects:
  assumes "poll_ok T" and "ss_connections s i = Some c" and "conn_socket c = None" and "conn_service c = i"
    and "env_connect E (get_socket_path T (env_devel E) i) w = (None, w1)"
  shows "session_send T E start i data (s, w) = (Inr (conn_write_serial c),
    (s\<lparr>ss_connections := (ss_connections s)(i \<mapsto> snd (conn_enqueue T data (conn_connected c)))\<rparr>, w1))"
proof -
  have "conn_connected (c\<lparr>conn_socket := Some Unconnected\<rparr>) = conn_connected c" "conn_registered (conn_connected c)"
      "conn_write_serial (conn_connected c) = conn_write_serial c"
    by (simp_all add: conn_connected_def)
  then show ?thesis
    using assms by (simp add: session_send_def session_connect_def conn_send_def conn_open_def with_conn_lookup conn_enqueue_registered)
qed

text \<open>An answer that names another request than \<open>n\<close> leaves the slot of \<open>n\<close> alone.\<close>

lemma caller_reads_other_answer:
  assumes T: "le_ok T" "buf_ok T" "bson_ok T" and c: "idle_conn T s server c" and "\<not> conn_out c"
    and m: "is_answer T m" "length m < 2 ^ 32" "\<not> answers T n m"
  shows "\<exists>s'. caller_poll T E start server (frame T m) (s, w) = (Inr 1, (s', w)) \<and>
    get_response_parser s' server n = get_response_parser s server n \<and>
    (\<exists>c'. ss_connections s' server = Some c' \<and> conn_read_serial c' = conn_read_serial c + 1)"
proof -
  have look: "ss_connections s server = Some c" "conn_service c = server" "rt_open T (conn_read_task c)" "rt_bytes (conn_read_task c) = []"
    using c by (simp_all add: idle_conn_def)
  obtain t where t: "receive_bytes T E start server (frame T m) (s, w) =
      (None, input_message (on_incoming_data T E start) server c m (on_conn server (\<lambda>c. c\<lparr>conn_read_task := t\<rparr>) (s, w)))"
    using receive_frame [where E = E and start = start and w = w, OF T(1,2) m(2) look(1,3,4)] by blast
  let ?c = "c\<lparr>conn_read_task := t, conn_read_serial := conn_read_serial c + 1\<rparr>"
  let ?s = "s\<lparr>ss_connections := (ss_connections s)(server \<mapsto> ?c)\<rparr>"
  obtain s1 where s1: "on_incoming_data T E start server (conn_read_serial c) m (?s, w) = (s1, w)"
      "ss_connections s1 = ss_connections ?s" "get_response_parser s1 server n = map_option (absorb T n m) (get_response_parser ?s server n)"
    using answer_absorbed [OF m(1), of E start server "conn_read_serial c" ?s w] by blast
  have "absorb T n m = (\<lambda>p. p)"
    using absorb_other [OF m(3)] by blast
  then have "get_response_parser s1 server n = get_response_parser s server n"
    using s1(3) by (simp add: option.map_ident get_response_parser_def)
  then show ?thesis
    using look s1(1,2) assms(5)
    by (simp add: caller_poll_def t input_message_def on_conn_def with_conn_lookup Let_def get_response_parser_def)
qed

lemma wait_times_out_third:
  assumes "poll st = (Inr 1, st1)" and "poll st1 = (Inr 1, st2)" and "poll st2 = (Inr 0, st3)"
    and "\<not> answered origin n st1" and "\<not> answered origin n st2"
  shows "session_wait poll t origin n st = Some (Inl (Exception ''Timed out waiting for reply''), st3)"
  using wait_response_unfold [where poll = poll and st = st and c = 0 and ?st1.0 = st1, OF _ assms(4)]
    wait_response_unfold [where poll = poll and st = st1 and c = 0 and ?st1.0 = st2, OF _ assms(5)]
    wait_response_timeout [where poll = poll, OF assms(3)] assms(1,2)
  by (simp add: session_wait_def)

text \<open>A call whose answer names another request, in the state in which the request has been queued.\<close>

lemma call_unanswered:
  assumes T: "le_ok T" "buf_ok T" "bson_ok T" "poll_ok T" and idle: "idle_conn T s0 server c0"
    and c: "ss_connections s server = Some c"
      "c = c0\<lparr>conn_out := True, conn_write_queue := [mk_write_task (frame T request)], conn_write_serial := n + 1\<rparr>"
    and p: "get_response_parser s server n = Some (mk_response_parser t)"
    and m: "is_answer T m" "length m < 2 ^ 32" "\<not> answers T n m"
  shows "\<exists>s_end. session_wait (last_poll T E start server (conn_read_serial c0) (frame T m)) t server n (s, w) =
    Some (Inl (Exception ''Timed out waiting for reply''), (s_end, w))"
proof -
  let ?poll = "last_poll T E start server (conn_read_serial c0) (frame T m)" and ?d = "c\<lparr>conn_write_queue := [], conn_out := False\<rparr>"
  let ?sent = "s\<lparr>ss_connections := (ss_connections s)(server \<mapsto> ?d)\<rparr>"
  have "caller_poll T E start server (frame T m) (s, w) = (Inr 1, (?sent, w))"
    by (rule caller_first_poll [OF T(1,4) c(1)]) (use idle in \<open>simp_all add: c(2) idle_conn_def\<close>)
  then have one: "?poll (s, w) = (Inr 1, (?sent, w))"
    using c by (simp add: last_poll_def)
  have idle': "idle_conn T ?sent server ?d" "\<not> conn_out ?d"
    using idle by (simp_all add: idle_conn_def c(2))
  obtain s2 where s2: "caller_poll T E start server (frame T m) (?sent, w) = (Inr 1, (s2, w))"
      "get_response_parser s2 server n = get_response_parser ?sent server n"
      "\<exists>c'. ss_connections s2 server = Some c' \<and> conn_read_serial c' = conn_read_serial ?d + 1"
    using caller_reads_other_answer [where E = E and start = start and w = w, OF T(1-3) idle' m] by blast
  have two: "?poll (?sent, w) = (Inr 1, (s2, w))"
    using s2(1) by (simp add: last_poll_def c(2))
  have three: "?poll (s2, w) = (Inr 0, (s2, w))"
    using s2(3) by (auto simp: last_poll_def c(2))
  have "\<not> answered server n (?sent, w)" "\<not> answered server n (s2, w)"
    using p s2(2) by (simp_all add: answered_def get_response_parser_def)
  from wait_times_out_third [where poll = ?poll, OF one two three this] show ?thesis by blast
qed

text \<open>
  C22: a call after a reconnect times out. Let a client that has sent something on its connection lose
  it in a hangup, and let the server accept the new connection. Then the call is made: the request is
  sent on the new connection and executed once by the server, which answers it. But the client
  goes on counting its messages where it was, the server begins at 0, and the answer names 0: the
  client's \<^verbatim>\<open>Wait\<close>, having read the answer, times out. It does so for every client that has sent
  something, whatever the method returns.
\<close>

theorem reconnected_call_times_out:
  assumes "le_ok T" and "buf_ok T" and "bson_ok T" and "poll_ok T"
    and "idle_conn T sa server ca" and "conn_write_serial ca \<noteq> 0"
    and "handle_socket_event T Ea start_a server hangup_event sock_write sock_read (sa, wa) = (e, lost)"
    and "env_connect Ea (get_socket_path T (env_devel Ea) server) wa = (None, wa1)"
    and "ss_connections sb client = Some (mk_accepted_connection client)"
    and "class_id_wf (Type i)" and "Version (Type i) = 1" and "ss_local_objects sb i = Some obj"
    and "\<forall>s. env_invoke Eb obj (im_name m) (serialize T args) (s, wb) = (map_sum id (ser_value T) r, (s, wb_end))"
    and "length (invoke_payload T i (im_name m) args) < 2 ^ 32" and "length (answer_payload T 0 r) < 2 ^ 32"
  defines "request \<equiv> frame T (invoke_payload T i (im_name m) args)" and "answer \<equiv> frame T (answer_payload T 0 r)"
  shows "(\<exists>sa_sent ca_sent. session_invoke T Ea start_a (im_result m) server i
        \<lparr>Method_Service = if_class I, Method_Name = im_name m\<rparr> args lost = (Inr (conn_write_serial ca), (sa_sent, wa1)) \<and>
      ss_connections sa_sent = (ss_connections sa)(server \<mapsto> ca_sent) \<and> queued_bytes ca_sent = request) \<and>
    (\<exists>sb_end cb_end. receive_bytes T Eb start_b client request (sb, wb) = (None, (sb_end, wb_end)) \<and>
      ss_connections sb_end = (ss_connections sb)(client \<mapsto> cb_end) \<and> queued_bytes cb_end = answer) \<and>
    (\<exists>sa_end. proxy_call T Ea start_a (last_poll T Ea start_a server (conn_read_serial ca) answer) I m
        (create_proxy server i) args lost =
      Some (Inl (Exception ''Timed out waiting for reply''), (sa_end, wa1)))"
proof -
  let ?n = "conn_write_serial ca" and ?req = "invoke_payload T i (im_name m) args" and ?h = "conn_hangup ca"
  let ?c = "snd (conn_enqueue T (frame T ?req) (conn_connected ?h))"
  have ca: "ss_connections sa server = Some ca" "conn_service ca = server" "conn_socket ca = Some Connected"
      "conn_registered ca" "conn_write_queue ca = []"
    using assms(5) by (simp_all add: idle_conn_def)
  have lost: "lost = (sa\<lparr>ss_connections := (ss_connections sa)(server \<mapsto> ?h)\<rparr>, wa)"
    using ca(1) assms(4,7) by (auto simp: handle_socket_event_def hangup_event_def with_conn_lookup)
  have c: "?c = ca\<lparr>conn_out := True, conn_write_queue := [mk_write_task (frame T ?req)], conn_write_serial := ?n + 1\<rparr>"
    using assms(4) ca by (simp add: conn_enqueue_registered conn_connected_def conn_hangup_def)
  have h: "conn_socket ?h = None" "conn_service ?h = server" "conn_write_serial ?h = ?n"
    using ca by (simp_all add: conn_hangup_def)
  have look: "ss_connections (fst lost) server = Some ?h"
    by (simp add: lost)
  let ?s = "put_parser server ?n (mk_response_parser (im_result m)) (sa\<lparr>ss_connections := (ss_connections sa)(server \<mapsto> ?c)\<rparr>)"
  have inv: "session_invoke T Ea start_a (im_result m) server i \<lparr>Method_Service = if_class I, Method_Name = im_name m\<rparr> args lost =
      (Inr ?n, (?s, wa1))"
    using session_send_reconnects [where start = start_a and data = "frame T ?req", OF assms(4) look h(1,2) assms(8)] h(3)
    by (simp add: session_invoke_def make_request_def message_bytes_frame assms(1,2) lost invoke_payload_def)
  have conn: "ss_connections ?s = (ss_connections sa)(server \<mapsto> ?c)"
    by (simp add: put_parser_def)
  have "queued_bytes ?c = request"
    using ca by (simp add: c request_def queued_bytes_def mk_write_task_def wt_get_buffer_def)
  with inv conn have sent: "\<exists>sa_sent ca_sent. session_invoke T Ea start_a (im_result m) server i
        \<lparr>Method_Service = if_class I, Method_Name = im_name m\<rparr> args lost = (Inr ?n, (sa_sent, wa1)) \<and>
      ss_connections sa_sent = (ss_connections sa)(server \<mapsto> ca_sent) \<and> queued_bytes ca_sent = request"
    by blast
  have served: "\<exists>sb_end cb_end. receive_bytes T Eb start_b client request (sb, wb) = (None, (sb_end, wb_end)) \<and>
      ss_connections sb_end = (ss_connections sb)(client \<mapsto> cb_end) \<and> queued_bytes cb_end = answer"
    using server_handles_request [where E = Eb and start = start_b, OF assms(1-4) idle_accepted [OF assms(9)] assms(10-14)]
    unfolding request_def answer_def by (auto simp: mk_accepted_connection_def mk_connection_def)
  have m: "is_answer T (answer_payload T 0 r)" "\<not> answers T ?n (answer_payload T 0 r)"
    using assms(3,6) answers_is_answer by (auto simp: answer_payload_def split: sum.split)
  have "get_response_parser ?s server ?n = Some (mk_response_parser (im_result m))"
    by (simp add: get_put_parser)
  from call_unanswered [where E = Ea and start = start_a and w = wa1, OF assms(1-5) _ c this m(1) assms(15) m(2)] conn
  obtain sa_end where "session_wait (last_poll T Ea start_a server (conn_read_serial ca) answer) (im_result m) server ?n (?s, wa1) =
      Some (Inl (Exception ''Timed out waiting for reply''), (sa_end, wa1))"
    unfolding answer_def by auto
  then show ?thesis
    using sent served inv by (simp add: proxy_call_def create_proxy_def)
qed

theorem reconnected_call_times_out_witness:
  "let T = demo_toolkit; c = (mk_accepted_connection demo_random)\<lparr>conn_write_serial := 1\<rparr>;
       sa = empty_session\<lparr>ss_connections := [demo_random \<mapsto> c]\<rparr>; E = demo_random_env\<lparr>env_connect := \<lambda>path w. (None, w)\<rparr>;
       lost = snd (handle_socket_event T E demo_random_start demo_random hangup_event (\<lambda>b. Inr 0) (Inr (0, [])) (sa, 3));
       i = mk_object_id demo_random 0; answer = frame T (answer_payload T 0 (Inr (VU32 50)))
   in (\<exists>sb_end cb_end. receive_bytes T demo_random_env demo_random_start demo_peer
          (frame T (invoke_payload T i ''getInteger'' [VU32 100])) (demo_server_session, 0) = (None, (sb_end, 1)) \<and>
        ss_connections sb_end demo_peer = Some cb_end \<and> queued_bytes cb_end = answer) \<and>
      (\<exists>sa_end. proxy_call T E demo_random_start (last_poll T E demo_random_start demo_random 0 answer)
          random_generator_if demo_get_integer (create_proxy demo_random i) [VU32 100] lost =
        Some (Inl (Exception ''Timed out waiting for reply''), (sa_end, 3)))"
proof -
  let ?T = demo_toolkit and ?c = "(mk_accepted_connection demo_random)\<lparr>conn_write_serial := 1\<rparr>" and ?i = "mk_object_id demo_random 0"
  let ?sa = "empty_session\<lparr>ss_connections := [demo_random \<mapsto> ?c]\<rparr> :: nat session"
    and ?E = "demo_random_env\<lparr>env_connect := \<lambda>path w. (None, w)\<rparr>"
  obtain e lost where h: "handle_socket_event ?T ?E demo_random_start demo_random hangup_event (\<lambda>b. Inr 0) (Inr (0, [])) (?sa, 3) = (e, lost)"
    by (metis prod.collapse)
  have idle: "idle_conn ?T ?sa demo_random ?c" "conn_write_serial ?c \<noteq> 0" "conn_read_serial ?c = 0"
    by (simp_all add: idle_conn_def mk_accepted_connection_def mk_connection_def)
  have accepted: "ss_connections demo_server_session demo_peer = Some (mk_accepted_connection demo_peer)"
    by (simp add: demo_server_session_def)
  have connect: "env_connect ?E (get_socket_path ?T (env_devel ?E) demo_random) 3 = (None, 3)"
    by simp
  have i: "class_id_wf (Type ?i)" "Version (Type ?i) = 1" "ss_local_objects demo_server_session ?i = Some 5"
    by (simp_all add: demo_random_def class_id_wf_def demo_server_session_def)
  have env: "\<forall>s. env_invoke demo_random_env 5 (im_name demo_get_integer) (serialize ?T [VU32 100]) (s, 0) =
      (map_sum id (ser_value ?T) (Inr (VU32 50)), (s, 1))"
    using demo_pure [of 100 0] by (simp add: pure_method_def demo_get_integer_def)
  have len: "length (invoke_payload ?T ?i (im_name demo_get_integer) [VU32 100]) < 2 ^ 32"
    by (simp add: invoke_payload_def object_id_write_def class_id_write_def length_demo_put demo_random_def demo_get_integer_def)
  note call = reconnected_call_times_out [where start_b = demo_random_start and I = random_generator_if,
      OF demo_le_ok demo_buf_ok demo_bson_ok demo_poll_ok idle(1,2) h connect accepted i env len demo_lengths(2)]
  show ?thesis
    using call [THEN conjunct2, THEN conjunct1] call [THEN conjunct2, THEN conjunct2]
    by (auto simp: Let_def h idle(3) demo_get_integer_def)
qed

end
