(* ===== verification/Release.thy ===== *)
theory Release
  imports Bus_Handling
begin

text \<open>
  The end of a proxy: its destructor (\<^verbatim>\<open>CoreObject::~CoreObject\<close>) sends a release request to the origin
  of the object. What becomes of it, from the destructor to the answer.
\<close>

definition release_payload :: "toolkit \<Rightarrow> object_id \<Rightarrow> bytes" where
  "release_payload T i = serialize T (VU8 request_release # object_id_write i)"

definition refusal_payload :: "toolkit \<Rightarrow> u32 \<Rightarrow> bytes" where
  "refusal_payload T n = exception_payload T n (''unhandled request '' @ dec (unat request_release))"

lemma destroy_sends_release:
  assumes "le_ok T" and "buf_ok T" and "poll_ok T" and "open_conn s (co_origin p) c"
  shows "core_object_destroy T E start p (s, w) = (s\<lparr>ss_connections := (ss_connections s)(co_origin p \<mapsto>
    snd (conn_enqueue T (frame T (release_payload T (co_id p))) c))\<rparr>, w)"
  using make_request_open [where E = E and start = start, OF assms(3,4)]
  by (simp add: core_object_destroy_def session_release_def queue_message_def message_bytes_frame assms(1,2) release_payload_def
      del: serialize_simps)

lemma release_refused:
  assumes "bson_ok T" and "poll_ok T" and "open_conn s origin c"
  shows "on_incoming_data T E start origin n (release_payload T i) (s, w) = (queue_message T origin c (refusal_payload T n) s, w)"
  using assms(1) throw_exception_open [where E = E and start = start, OF assms(2,3)]
  by (simp add: on_incoming_data_def release_payload_def refusal_payload_def)

text \<open>A message that has the effect \<open>s1\<close> on the session, received on an idle connection.\<close>

lemma receive_message:
  assumes "le_ok T" and "buf_ok T" and "length d < 2 ^ 32" and "idle_conn T s i c"
    and "\<And>t. on_incoming_data T E start i (conn_read_serial c) d (handling_session i t c s, w) =
      (s\<lparr>ss_connections := (ss_connections s)(i \<mapsto> c1 t)\<rparr>, w1)"
  shows "\<exists>t. receive_bytes T E start i (frame T d) (s, w) =
    (None, (s\<lparr>ss_connections := (ss_connections s)(i \<mapsto> (c1 t)\<lparr>conn_read_task := new_read_task\<rparr>)\<rparr>, w1))"
proof -
  have c: "ss_connections s i = Some c" "conn_service c = i" "rt_open T (conn_read_task c)" "rt_bytes (conn_read_task c) = []"
    using assms(4) by (simp_all add: idle_conn_def)
  obtain t where t: "receive_bytes T E start i (frame T d) (s, w) =
      (None, input_message (on_incoming_data T E start) i c d (on_conn i (\<lambda>c. c\<lparr>conn_read_task := t\<rparr>) (s, w)))"
    using receive_frame [where E = E and start = start and w = w, OF assms(1-3) c(1,3,4)] by blast
  have "on_conn i (\<lambda>c'. c'\<lparr>conn_read_serial := conn_read_serial c + 1\<rparr>) (on_conn i (\<lambda>c. c\<lparr>conn_read_task := t\<rparr>) (s, w)) =
      (handling_session i t c s, w)"
    using c(1) by (simp add: on_conn_def with_conn_lookup handling_session_def handling_conn_def)
  then show ?thesis
    using assms(5) [of t] by (intro exI [of _ t]) (simp add: t input_message_def c(2) on_conn_def with_conn_lookup)
qed

lemma release_served:
  assumes T: "le_ok T" "buf_ok T" "bson_ok T" "poll_ok T" and idle: "idle_conn T s client c"
    and len: "length (release_payload T i) < 2 ^ 32"
  shows "\<exists>c'. receive_bytes T E start client (frame T (release_payload T i)) (s, w) =
      (None, (s\<lparr>ss_connections := (ss_connections s)(client \<mapsto> c')\<rparr>, w)) \<and>
    queued_bytes c' = frame T (refusal_payload T (conn_read_serial c)) \<and> conn_read_serial c' = conn_read_serial c + 1"
proof -
  let ?n = "conn_read_serial c" and ?h = "\<lambda>t. handling_conn t c"
  have h: "open_conn (handling_session client t c s) client (?h t)" "conn_registered (?h t)" "conn_write_queue (?h t) = []"
      "conn_read_serial (?h t) = ?n + 1" for t
    using idle by (simp_all add: open_conn_def idle_conn_def handling_conn_def)
  let ?c = "\<lambda>t. snd (conn_enqueue T (frame T (refusal_payload T ?n)) (?h t))"
  have "on_incoming_data T E start client ?n (release_payload T i) (handling_session client t c s, w) =
      (s\<lparr>ss_connections := (ss_connections s)(client \<mapsto> ?c t)\<rparr>, w)" for t
    using release_refused [where E = E and start = start and n = ?n, OF T(3,4) h(1)]
    by (simp add: queue_message_def message_bytes_frame T(1,2) handling_session_def)
  from receive_message [OF T(1,2) len idle this] obtain t where "receive_bytes T E start client (frame T (release_payload T i)) (s, w) =
      (None, (s\<lparr>ss_connections := (ss_connections s)(client \<mapsto> (?c t)\<lparr>conn_read_task := new_read_task\<rparr>)\<rparr>, w))"
    by blast
  moreover have "queued_bytes ((?c t)\<lparr>conn_read_task := new_read_task\<rparr>) = frame T (refusal_payload T ?n)"
      "conn_read_serial ((?c t)\<lparr>conn_read_task := new_read_task\<rparr>) = ?n + 1"
    using h [of t] T(1,4) by (simp_all add: conn_enqueue_registered queued_bytes_def)
  ultimately show ?thesis by blast
qed

lemma refusal_dropped:
  assumes T: "le_ok T" "buf_ok T" "bson_ok T" and idle: "idle_conn T s i c" and none: "get_response_parser s i n = None"
    and len: "length (refusal_payload T n) < 2 ^ 32"
  shows "\<exists>c'. receive_bytes T E start i (frame T (refusal_payload T n)) (s, w) =
      (None, (s\<lparr>ss_connections := (ss_connections s)(i \<mapsto> c')\<rparr>, w)) \<and>
    idle_conn T (s\<lparr>ss_connections := (ss_connections s)(i \<mapsto> c')\<rparr>) i c' \<and> conn_read_serial c' = conn_read_serial c + 1"
proof -
  have "on_incoming_data T E start i (conn_read_serial c) (refusal_payload T n) (handling_session i t c s, w) =
      (s\<lparr>ss_connections := (ss_connections s)(i \<mapsto> handling_conn t c)\<rparr>, w)" for t
    unfolding refusal_payload_def on_incoming_exception_payload [OF T(3)]
    using none by (simp add: handling_session_def get_response_parser_def)
  from receive_message [OF T(1,2) len idle this] obtain t where "receive_bytes T E start i (frame T (refusal_payload T n)) (s, w) =
      (None, (s\<lparr>ss_connections := (ss_connections s)(i \<mapsto> (handling_conn t c)\<lparr>conn_read_task := new_read_task\<rparr>)\<rparr>, w))"
    by blast
  then show ?thesis
    using idle by (intro exI [of _ "(handling_conn t c)\<lparr>conn_read_task := new_read_task\<rparr>"]) (simp add: idle_conn_def handling_conn_def)
qed

text \<open>
  C35: destroying a proxy releases nothing. When the proxy of an object is destroyed, a release request
  is queued for the object's origin. The server answers it with the exception \<open>unhandled request 5\<close>,
  and nothing else changes there: no object is called, removed or forgotten, so that the object
  stays for as long as the process runs. The client drops the answer, as no call waits for it, and is
  as it was; only the serials of the connection are one further on both sides, so that later calls
  still agree about them.
\<close>

theorem destroyed_proxy_releases_nothing:
  assumes "le_ok T" and "buf_ok T" and "bson_ok T" and "poll_ok T"
    and "idle_conn T sa (co_origin p) ca" and "idle_conn T sb client cb" and "conn_write_serial ca = conn_read_serial cb"
    and "idle_conn T sa' (co_origin p) ca'" and "get_response_parser sa' (co_origin p) (conn_write_serial ca) = None"
    and "length (release_payload T (co_id p)) < 2 ^ 32" and "length (refusal_payload T (conn_write_serial ca)) < 2 ^ 32"
  defines "request \<equiv> frame T (release_payload T (co_id p))" and "refusal \<equiv> frame T (refusal_payload T (conn_write_serial ca))"
  shows "(\<exists>c. core_object_destroy T Ea start_a p (sa, wa) = (sa\<lparr>ss_connections := (ss_connections sa)(co_origin p \<mapsto> c)\<rparr>, wa) \<and>
      queued_bytes c = request \<and> conn_write_serial c = conn_write_serial ca + 1) \<and>
    (\<exists>c. receive_bytes T Eb start_b client request (sb, wb) = (None, (sb\<lparr>ss_connections := (ss_connections sb)(client \<mapsto> c)\<rparr>, wb)) \<and>
      queued_bytes c = refusal \<and> conn_read_serial c = conn_read_serial cb + 1) \<and>
    (\<exists>c. receive_bytes T Ea start_a (co_origin p) refusal (sa', wa') =
        (None, (sa'\<lparr>ss_connections := (ss_connections sa')(co_origin p \<mapsto> c)\<rparr>, wa')) \<and>
      idle_conn T (sa'\<lparr>ss_connections := (ss_connections sa')(co_origin p \<mapsto> c)\<rparr>) (co_origin p) c \<and>
      conn_read_serial c = conn_read_serial ca' + 1)"
proof (intro conjI)
  have a: "open_conn sa (co_origin p) ca" "conn_registered ca" "conn_write_queue ca = []"
    using assms(5) by (simp_all add: open_conn_def idle_conn_def)
  show "\<exists>c. core_object_destroy T Ea start_a p (sa, wa) = (sa\<lparr>ss_connections := (ss_connections sa)(co_origin p \<mapsto> c)\<rparr>, wa) \<and>
      queued_bytes c = request \<and> conn_write_serial c = conn_write_serial ca + 1"
    using destroy_sends_release [OF assms(1,2,4) a(1)] a assms(1,4)
    by (intro exI [of _ "snd (conn_enqueue T request ca)"]) (simp add: request_def conn_enqueue_registered queued_bytes_def)
  show "\<exists>c. receive_bytes T Eb start_b client request (sb, wb) =
      (None, (sb\<lparr>ss_connections := (ss_connections sb)(client \<mapsto> c)\<rparr>, wb)) \<and>
      queued_bytes c = refusal \<and> conn_read_serial c = conn_read_serial cb + 1"
    unfolding request_def refusal_def assms(7) by (rule release_served [OF assms(1-4,6,10)])
  show "\<exists>c. receive_bytes T Ea start_a (co_origin p) refusal (sa', wa') =
      (None, (sa'\<lparr>ss_connections := (ss_connections sa')(co_origin p \<mapsto> c)\<rparr>, wa')) \<and>
      idle_conn T (sa'\<lparr>ss_connections := (ss_connections sa')(co_origin p \<mapsto> c)\<rparr>) (co_origin p) c \<and>
      conn_read_serial c = conn_read_serial ca' + 1"
    unfolding refusal_def by (rule refusal_dropped [OF assms(1-3,8,9,11)])
qed

theorem destroyed_proxy_releases_nothing_witness:
  "let T = demo_toolkit; i = mk_object_id demo_random 0; p = create_proxy demo_random i
   in (\<exists>c. receive_bytes T demo_random_env demo_random_start demo_peer (frame T (release_payload T i)) (demo_server_session, 0) =
        (None, (demo_server_session\<lparr>ss_connections := (ss_connections demo_server_session)(demo_peer \<mapsto> c)\<rparr>, 0)) \<and>
        queued_bytes c = frame T (refusal_payload T 0)) \<and>
      (\<exists>c. receive_bytes T demo_random_env demo_random_start demo_random (frame T (refusal_payload T 0)) (demo_client_session, 3) =
        (None, (demo_client_session\<lparr>ss_connections := (ss_connections demo_client_session)(demo_random \<mapsto> c)\<rparr>, 3)))"
proof -
  let ?T = demo_toolkit and ?i = "mk_object_id demo_random 0"
  let ?p = "create_proxy demo_random ?i" and ?c = "mk_accepted_connection demo_random"
  have p: "co_origin ?p = demo_random" "co_id ?p = ?i"
    by (simp_all add: create_proxy_def)
  have idle: "idle_conn ?T demo_client_session demo_random ?c"
      "idle_conn ?T demo_server_session demo_peer (mk_accepted_connection demo_peer)"
    by (rule idle_accepted; simp add: demo_client_session_def demo_server_session_def)+
  have n: "conn_write_serial ?c = 0" "conn_read_serial (mk_accepted_connection demo_peer) = 0"
    by (simp_all add: mk_accepted_connection_def mk_connection_def)
  have none: "get_response_parser demo_client_session demo_random 0 = None"
    by (simp add: get_response_parser_def demo_client_session_def empty_session_def)
  have len: "length (release_payload ?T ?i) < 2 ^ 32" "length (refusal_payload ?T 0) < 2 ^ 32"
    by (simp_all add: release_payload_def refusal_payload_def exception_payload_def object_id_write_def class_id_write_def
        length_demo_put demo_random_def request_release_def dec.simps)
  note rel = destroyed_proxy_releases_nothing [where p = ?p and start_a = demo_random_start and start_b = demo_random_start
      and Ea = demo_random_env and Eb = demo_random_env and wa' = 3 and wb = 0 and wa = 0, unfolded p,
      OF demo_le_ok demo_buf_ok demo_bson_ok demo_poll_ok idle _ idle(1), unfolded n, OF refl none len]
  show ?thesis
    using rel [THEN conjunct2, THEN conjunct1] rel [THEN conjunct2, THEN conjunct2] unfolding Let_def by blast
qed

end
