(* ===== verification/Whole_System.thy ===== *)
theory Whole_System
  imports Live_Peer Local_Bus Programs
begin

text \<open>
  The programs of the repository run together: the example client (client/client.cpp) against the random
  number service (services/system/randomgenerator/main.cpp), from the states in which their \<^verbatim>\<open>main\<close>
  functions put them, over the first connection, its acceptance and the creation of the service's object,
  to the last line that the client logs.
\<close>

section \<open>The service\<close>

text \<open>
  The implementation behind the generated dispatch. \<open>rand\<close> is the C library's generator, whose state is
  the world of the service; \<open>rnd\<close> rounds to \<^verbatim>\<open>double\<close>.
\<close>

definition random_impl :: "(rat \<Rightarrow> rat) \<Rightarrow> ('k \<Rightarrow> nat \<times> 'k) \<Rightarrow> 'k implementation" where
  "random_impl rnd rand name args k =
     (case args of
        [VU32 m] \<Rightarrow> (case rand k of (r, k1) \<Rightarrow> (Inr (VU32 (get_integer rnd r m)), k1))
      | _ \<Rightarrow> (Inl (Exception ''bad arguments''), k))"

text \<open>The numbers that \<open>n\<close> calls of \<^verbatim>\<open>getInteger(100)\<close> draw, and the state of the generator after them.\<close>

primrec draws :: "(rat \<Rightarrow> rat) \<Rightarrow> ('k \<Rightarrow> nat \<times> 'k) \<Rightarrow> nat \<Rightarrow> 'k \<Rightarrow> u32 list" where
  "draws rnd rand 0 k = []"
| "draws rnd rand (Suc n) k = get_integer rnd (fst (rand k)) 100 # draws rnd rand n (snd (rand k))"

definition drawn :: "('k \<Rightarrow> nat \<times> 'k) \<Rightarrow> nat \<Rightarrow> 'k \<Rightarrow> 'k" where
  "drawn rand n = (\<lambda>k. snd (rand k)) ^^ n"

lemma drawn_simps [simp]: "drawn rand 0 k = k" "drawn rand (Suc n) k = drawn rand n (snd (rand k))"
  by (simp_all add: drawn_def funpow_Suc_right del: funpow.simps(2))

lemma draws_range:
  assumes "double_ok rnd" and "\<forall>k. fst (rand k) \<le> rand_max"
  shows "length (draws rnd rand n k) = n \<and> list_all (\<lambda>d. d \<le> 100) (draws rnd rand n k)"
  using get_integer_range [OF assms(1)] assms(2) by (induction n arbitrary: k) auto

abbreviation random_id :: service_id where
  "random_id \<equiv> if_class random_generator_if"

abbreviation random_object :: object_id where
  "random_object \<equiv> mk_object_id (if_class random_generator_if) 0"

lemma random_ids [simp]:
  "class_id_wf random_id" "Version random_id = 1" "random_generator_if \<noteq> Core_Object"
  "class_id_wf client_id" "Version client_id = 1" "lookup_method random_generator_if ''getInteger'' = Some get_integer_method"
  by (simp_all add: random_generator_if_def class_id_wf_def client_id_def get_integer_method_def)

lemma initial_session_tables:
  "ss_connections initial_session = Map.empty" "ss_services initial_session = Map.empty"
  "ss_local_objects initial_session = Map.empty"
  by (simp_all add: initial_session_def empty_session_def)

section \<open>The client's loop\<close>

text \<open>Client and service between two calls.\<close>

definition between_calls :: "toolkit \<Rightarrow> 'p \<Rightarrow> 'o session \<Rightarrow> 'p session \<Rightarrow> bool" where
  "between_calls T obj s ss \<longleftrightarrow>
     (\<exists>c cs. idle_conn T s random_id c \<and> idle_conn T ss client_id cs \<and> conn_write_serial c = conn_read_serial cs \<and>
        fst (find_local_object random_object ss) = Some obj)"

lemma rounds_Suc: "client_rounds = Suc (Suc (Suc 997))"
  by (simp add: client_rounds_def)

lemma client_loop_first: "call st = call st' \<Longrightarrow> client_loop (Suc n) call st = client_loop (Suc n) call st'"
  by simp

lemma app_starts:
  "listen (get_socket_path T devel i) = None \<Longrightarrow> \<exists>app calls. application_new T devel listen None i argv = (Inr app, calls)"
  by (simp add: application_new_def mk_local_bus_def Let_def split: prod.split)

lemma client_main_loop:
  assumes "fmt_ok T" and "env_devel E" and "listen (get_socket_path T True client_id) = None"
  shows "client_main T E start poll implements local_call listen None argv (initial_session, v) =
    client_loop client_rounds (proxy_call T E start poll random_generator_if get_integer_method (create_proxy random_id random_object) [VU32 100])
      (register_proxies random_generator_if initial_session, v)"
proof -
  obtain app calls where app: "application_new T (env_devel E) listen None client_id argv = (Inr app, calls)"
    using app_starts [of listen T True client_id argv] assms(2,3) by auto
  have "get_service T implements random_generator_if initial_session =
      (Inr (Remote_Service (create_proxy random_id random_object)), register_proxies random_generator_if initial_session)"
    using get_service_proxy [OF assms(1), of random_generator_if initial_session implements] by (simp add: initial_session_tables)
  then show ?thesis
    by (simp only: client_main_def app fst_conv snd_conv prod.case sum.case service_ref.case)
qed

text \<open>
  The service may be anywhere in the client's world, and the client's poll may serve other processes
  as well: when the connection to the service has an event the poll delivers it.
\<close>

context peer_world
begin

lemma random_call:
  assumes T: "le_ok T" "buf_ok T" "bson_ok T" "poll_ok T" and ok: "between_calls T obj s ss" and v: "get v = Some (ss, k)"
    and Es: "\<forall>name d. env_invoke Es obj name d = on_world (pbus_invoke T (random_impl rnd rand) random_generator_if name d)"
    and len: "length (invoke_payload T random_object ''getInteger'' [VU32 100]) < 2 ^ 32"
      "\<forall>n d. length (answer_payload T n (Inr (VU32 d))) < 2 ^ 32"
    and poll: "\<forall>st. fst (peer_poll T E start get put Es start_s random_id client_id st) \<noteq> Inr 0 \<longrightarrow>
      poll st = peer_poll T E start get put Es start_s random_id client_id st"
  shows "\<exists>s1 ss1. proxy_call T E start poll random_generator_if get_integer_method (create_proxy random_id random_object) [VU32 100] (s, v) =
      Some (Inr (VU32 (get_integer rnd (fst (rand k)) 100)), (s1, put (ss1, snd (rand k)) v)) \<and> between_calls T obj s1 ss1"
proof -
  let ?r = "Inr (VU32 (get_integer rnd (fst (rand k)) 100)) :: exn + wire_value"
  obtain c cs ss0 where c: "idle_conn T s random_id c" "idle_conn T ss client_id cs" "conn_write_serial c = conn_read_serial cs"
    and found: "find_local_object random_object ss = (Some obj, ss0)"
    using ok unfolding between_calls_def by (metis prod.collapse)
  have m: "im_name get_integer_method = ''getInteger''" "map type_of [VU32 100] = im_args get_integer_method"
      "\<forall>v. ?r = Inr v \<longrightarrow> type_of v = im_result get_integer_method"
    by (simp_all add: get_integer_method_def)
  have "env_invoke Es obj ''getInteger'' (serialize T [VU32 100]) (z, k) = (map_sum id (ser_value T) ?r, (z, snd (rand k)))" for z
    using method_invoke_serialized [OF T(3) m(2), of "random_impl rnd rand" "[]" k] Es
    by (simp add: pbus_invoke_lookup m(1) random_impl_def split_beta) (simp add: get_integer_method_def)
  then have inv: "\<forall>t. env_invoke Es obj (im_name get_integer_method) (serialize T [VU32 100]) (handling_session client_id t cs ss0, k) =
        (map_sum id (ser_value T) ?r, (handling_session client_id t cs ss0, snd (rand k))) \<and>
      ss_connections (handling_session client_id t cs ss0) client_id = Some (handling_conn t cs)"
    by (simp add: m(1))
  have wf: "class_id_wf (Type random_object)" "Version (Type random_object) = 1" by simp_all
  from live_call_poll [where E = E and start = start and startp = start_s and I = random_generator_if and poll = poll,
      OF T c(1) v c(2,3) wf found inv m(3) len(1) [folded m(1)] len(2) [rule_format]] poll
  obtain s1 c1 t cs1 where call: "proxy_call T E start poll
      random_generator_if get_integer_method (create_proxy random_id random_object) [VU32 100] (s, v) =
      Some (rethrown ?r, (s1, put ((handling_session client_id t cs ss0)\<lparr>ss_connections :=
        (ss_connections (handling_session client_id t cs ss0))(client_id \<mapsto> cs1)\<rparr>, snd (rand k)) v))"
    and ends: "idle_conn T s1 random_id c1" "conn_write_serial c1 = conn_write_serial c + 1"
      "idle_conn T ((handling_session client_id t cs ss0)\<lparr>ss_connections :=
        (ss_connections (handling_session client_id t cs ss0))(client_id \<mapsto> cs1)\<rparr>) client_id cs1"
      "conn_read_serial cs1 = conn_read_serial cs + 1"
    by blast
  have "find_local_object random_object ss0 = (Some obj, ss0)"
    by (rule find_local_object_again [OF found]) simp
  then have "between_calls T obj s1 ((handling_session client_id t cs ss0)\<lparr>ss_connections :=
        (ss_connections (handling_session client_id t cs ss0))(client_id \<mapsto> cs1)\<rparr>)"
    using ends c(3) unfolding between_calls_def
    by (intro exI [of _ c1] exI [of _ cs1] conjI) (simp_all add: find_local_object_conns handling_session_def)
  with call show ?thesis
    by (auto simp: rethrown_def)
qed

lemma client_draws:
  assumes T: "le_ok T" "buf_ok T" "bson_ok T" "poll_ok T" and "between_calls T obj s ss" and "get v = Some (ss, k)"
    and Es: "\<forall>name d. env_invoke Es obj name d = on_world (pbus_invoke T (random_impl rnd rand) random_generator_if name d)"
    and len: "length (invoke_payload T random_object ''getInteger'' [VU32 100]) < 2 ^ 32"
      "\<forall>n d. length (answer_payload T n (Inr (VU32 d))) < 2 ^ 32"
    and poll: "\<forall>st. fst (peer_poll T E start get put Es start_s random_id client_id st) \<noteq> Inr 0 \<longrightarrow>
      poll st = peer_poll T E start get put Es start_s random_id client_id st"
  shows "\<exists>s1 ss1. client_loop (Suc n) (proxy_call T E start poll
      random_generator_if get_integer_method (create_proxy random_id random_object) [VU32 100]) (s, v) =
      Some (None, map VU32 (draws rnd rand (Suc n) k), (s1, put (ss1, drawn rand (Suc n) k) v))"
  using assms(5,6)
proof (induction n arbitrary: s ss v k)
  case 0
  from random_call [where E = E and start = start, OF T 0 Es len poll] show ?case
    by fastforce
next
  case (Suc n)
  from random_call [where E = E and start = start, OF T Suc.prems Es len poll] obtain s1 ss1 where
    one: "proxy_call T E start poll
      random_generator_if get_integer_method (create_proxy random_id random_object) [VU32 100] (s, v) =
      Some (Inr (VU32 (get_integer rnd (fst (rand k)) 100)), (s1, put (ss1, snd (rand k)) v))"
    and ok: "between_calls T obj s1 ss1"
    by blast
  have "get (put (ss1, snd (rand k)) v) = Some (ss1, snd (rand k))"
    by (rule get_put) (simp add: Suc.prems(2))
  from Suc.IH [OF ok this] one show ?case
    by (auto simp: put_put)
qed

text \<open>
  The program as a whole, however its first send gets its connection: it goes on from \<open>s2\<close> and \<open>v2\<close>.
\<close>

lemma client_runs:
  assumes T: "le_ok T" "buf_ok T" "bson_ok T" "poll_ok T" "fmt_ok T"
    and first: "\<And>data. session_send T E start random_id data (register_proxies random_generator_if initial_session, v) =
      session_send T E start random_id data (s2, v2)"
    and "between_calls T obj s2 ss" and "get v2 = Some (ss, k)"
    and "env_devel E" and "listen (get_socket_path T True client_id) = None"
    and Es: "\<forall>name d. env_invoke Es obj name d = on_world (pbus_invoke T (random_impl rnd rand) random_generator_if name d)"
    and len: "length (invoke_payload T random_object ''getInteger'' [VU32 100]) < 2 ^ 32"
      "\<forall>n d. length (answer_payload T n (Inr (VU32 d))) < 2 ^ 32"
    and poll: "\<forall>st. fst (peer_poll T E start get put Es start_s random_id client_id st) \<noteq> Inr 0 \<longrightarrow>
      poll st = peer_poll T E start get put Es start_s random_id client_id st"
  shows "\<exists>s1 ss1. client_main T E start poll implements local_call listen None argv (initial_session, v) =
    Some (None, map VU32 (draws rnd rand client_rounds k), (s1, put (ss1, drawn rand client_rounds k) v2))"
proof -
  have "proxy_call T E start poll I m (create_proxy random_id random_object) args (register_proxies random_generator_if initial_session, v) =
      proxy_call T E start poll I m (create_proxy random_id random_object) args (s2, v2)" for I m args
    by (intro call_sends) (simp add: create_proxy_def first)
  note loop = client_loop_first [OF this]
  from client_draws [where E = E and start = start and n = "Suc (Suc 997)", OF T(1-4) assms(7,8) Es len poll, folded rounds_Suc]
  show ?thesis
    unfolding client_main_loop [where listen = listen, OF T(5) assms(9,10)] rounds_Suc loop by blast
qed

end

text \<open>The service accepts the client, whose executable the build installs as \<^verbatim>\<open>name-version\<close>.\<close>

lemma client_accepted:
  assumes "fmt_ok T" and "poll_ok T" and "read_link (''/proc/'' @ dec pid @ ''/exe'') = Inr (dir @ ''/'' @ class_id_to_string T client_id)"
  shows "local_bus_accept T True (Some pid) read_link s = (None, add_connection client_id (mk_accepted_connection client_id) s)"
proof -
  have "CHR ''/'' \<notin> set (class_id_to_string T client_id)"
    by (rule slash_notin_print [OF assms(1)]) (simp add: client_id_def)
  moreover have "class_id_from_string (class_id_to_string T client_id) = Inr client_id"
    using from_string_print [OF assms(1), of client_id] by (simp add: client_id_def class_id_wf_def)
  ultimately show ?thesis
    using assms(2,3) by (subst accept_image [where i = client_id]) simp_all
qed

text \<open>The session of a service that has registered its object and accepted the client.\<close>

lemma registered_accepts:
  "ss_connections (app_register_service I obj initial_session) = Map.empty"
  "idle_conn T (add_connection client_id (mk_accepted_connection client_id) (app_register_service I obj initial_session))
     client_id (mk_accepted_connection client_id)"
  "\<exists>s. find_local_object (mk_object_id (if_class I) 0)
     (add_connection client_id (mk_accepted_connection client_id) (app_register_service I obj initial_session)) = (Some obj, s)"
  by (simp_all add: add_connection_def app_register_service_def register_service_def find_local_object_def
      get_local_service_def service_factory_get_def initial_session_tables Let_def idle_accepted)

lemma fresh_serials: "conn_write_serial (mk_accepted_connection i) = conn_read_serial (mk_accepted_connection j)"
  by (simp add: mk_accepted_connection_def mk_connection_def)

lemma accepted_between_calls:
  assumes "ss_connections s random_id = Some (mk_accepted_connection random_id)"
  shows "between_calls T obj s
    (add_connection client_id (mk_accepted_connection client_id) (app_register_service random_generator_if obj initial_session))"
  unfolding between_calls_def
proof (intro exI conjI)
  show "idle_conn T s random_id (mk_accepted_connection random_id)"
    by (rule idle_accepted [OF assms])
  show "fst (find_local_object random_object (add_connection client_id (mk_accepted_connection client_id)
      (app_register_service random_generator_if obj initial_session))) = Some obj"
    using registered_accepts(3) [of random_generator_if obj] by auto
qed (rule registered_accepts(2) fresh_serials)+

section \<open>Properties\<close>

text \<open>
  C2: the programs work. Let the random number service be listening, in the state in which its \<^verbatim>\<open>main\<close>
  begins to poll, and accept and handle what arrives while its client polls; let \<^verbatim>\<open>rand()\<close> return
  numbers up to \<^verbatim>\<open>RAND_MAX\<close>. Then the client program, started with an empty session, connects, logs 1000
  numbers, each at most 100, and ends without an exception. The numbers are what \<^verbatim>\<open>getInteger(100)\<close>
  makes of the service's successive values of \<^verbatim>\<open>rand()\<close>, one for each line, in their order,
  and the service has drawn no others.
\<close>

theorem client_logs_random_numbers:
  fixes E :: "('o, ('p, 'k) state \<times> 'x) env"
  assumes "le_ok T" and "buf_ok T" and "bson_ok T" and "poll_ok T" and "fmt_ok T"
    and "double_ok rnd" and "\<forall>k. fst (rand k) \<le> rand_max"
    and "\<forall>name d. env_invoke Es obj name d = on_world (pbus_invoke T (random_impl rnd rand) random_generator_if name d)"
    and "listen_s (get_socket_path T True random_id) = None"
    and "env_devel E" and "\<forall>ss k x. env_connect E (get_socket_path T True random_id) ((ss, k), x) =
      (case local_bus_accept T True (Some pid) read_link ss of (e, ss1) \<Rightarrow> (e, ((ss1, k), x)))"
    and "read_link (''/proc/'' @ dec pid @ ''/exe'') = Inr (dir @ ''/'' @ class_id_to_string T client_id)"
    and "listen (get_socket_path T True client_id) = None"
    and "length (invoke_payload T random_object ''getInteger'' [VU32 100]) < 2 ^ 32"
    and "\<forall>n d. length (answer_payload T n (Inr (VU32 d))) < 2 ^ 32"
  defines "ss \<equiv> app_register_service random_generator_if obj initial_session"
  shows "snd (random_generator_main T True listen_s None (apsnd notify) poll_s obj (service_argv T random_id) (initial_session, k)) =
      app_loop poll_s (ss, notify k) \<and>
    (\<exists>s1 ss1. client_main T E start (peer_poll T E start side_get side_put Es start_s random_id client_id)
        implements local_call listen None argv (initial_session, ((ss, notify k), x)) =
      Some (None, map VU32 (draws rnd rand client_rounds (notify k)), (s1, ((ss1, drawn rand client_rounds (notify k)), x)))) \<and>
    length (draws rnd rand client_rounds (notify k)) = 1000 \<and> list_all (\<lambda>d. d \<le> 100) (draws rnd rand client_rounds (notify k))"
proof (intro conjI)
  let ?s = "register_proxies random_generator_if initial_session :: 'o session" and ?ss = "add_connection client_id (mk_accepted_connection client_id) ss"
  let ?s2 = "?s\<lparr>ss_connections := (ss_connections ?s)(random_id \<mapsto> mk_accepted_connection random_id)\<rparr>"
  show "snd (random_generator_main T True listen_s None (apsnd notify) poll_s obj (service_argv T random_id) (initial_session, k)) =
      app_loop poll_s (ss, notify k)"
    using assms(9) by (simp add: random_generator_main_def service_main_def app_run_def application_new_ok ss_def)
  note accepts = client_accepted [where read_link = read_link and pid = pid, OF assms(5,4,12)]
  have conn: "ss_connections ?s random_id = None" "env_connect E (get_socket_path T (env_devel E) random_id) ((ss, notify k), x) =
      (None, ((?ss, notify k), x))"
    using assms(10,11) by (simp_all add: initial_session_tables accepts)
  have ready: "between_calls T obj ?s2 ?ss"
    unfolding ss_def by (rule accepted_between_calls) simp
  have get: "side_get ((?ss, notify k), x) = Some (?ss, notify k)"
    by (simp add: side_get_def)
  from side.client_runs [where poll = "peer_poll T E start side_get side_put Es start_s random_id client_id" and E = E and start = start and
      listen = listen and start_s = start_s, OF assms(1-5) send_connects [OF assms(4) conn] ready get assms(10,13,8,14,15)]
  show "\<exists>s1 ss1. client_main T E start (peer_poll T E start side_get side_put Es start_s random_id client_id)
        implements local_call listen None argv (initial_session, ((ss, notify k), x)) =
      Some (None, map VU32 (draws rnd rand client_rounds (notify k)), (s1, ((ss1, drawn rand client_rounds (notify k)), x)))"
    by (simp add: side_put_def)
  show "length (draws rnd rand client_rounds (notify k)) = 1000"
      "list_all (\<lambda>d. d \<le> 100) (draws rnd rand client_rounds (notify k))"
    using draws_range [OF assms(6,7)] by (simp_all add: client_rounds_def)
qed

text \<open>For the witness: a generator that counts in steps of an eighth of its range.\<close>

definition demo_rand :: "nat \<Rightarrow> nat \<times> nat" where
  "demo_rand k = ((k * 2 ^ 28) mod rand_max, k + 1)"

lemma demo_rand_steps: "snd (demo_rand 0) = 1" "snd (demo_rand 1) = 2" "snd (demo_rand 2) = 3"
  by (simp_all add: demo_rand_def)

definition demo_rand_env :: "(nat, nat) env" where
  "demo_rand_env = \<lparr>env_connect = (\<lambda>path w. (Some (System_Exception ''connect''), w)),
     env_invoke = (\<lambda>obj m d. on_world (pbus_invoke demo_toolkit (random_impl (\<lambda>x. x) demo_rand) random_generator_if m d)), env_devel = True\<rparr>"

definition demo_exe :: "string \<Rightarrow> exn + string" where
  "demo_exe link = Inr (''/packages'' @ ''/'' @ class_id_to_string demo_toolkit client_id)"

definition demo_first_env :: "(nat, (nat, nat) state \<times> unit) env" where
  "demo_first_env = \<lparr>env_connect = (\<lambda>path v. case v of ((ss, k), x) \<Rightarrow>
       (case local_bus_accept demo_toolkit True (Some 17) demo_exe ss of (e, ss1) \<Rightarrow> (e, ((ss1, k), x)))),
     env_invoke = (\<lambda>obj m d. on_world (\<lambda>v. (Inl (Exception ''no object''), v))), env_devel = True\<rparr>"

lemma demo_floor: "\<lfloor>26843545600 / 2147483647 :: rat\<rfloor> = 12" "\<lfloor>53687091200 / 2147483647 :: rat\<rfloor> = 25"
  by (simp_all add: floor_eq_iff)

lemma demo_first_lines: "draws (\<lambda>x. x) demo_rand client_rounds 0 = 0 # 12 # 25 # draws (\<lambda>x. x) demo_rand 997 3"
proof -
  have draw: "get_integer (\<lambda>x. x) (fst (demo_rand 0)) 100 = 0" "get_integer (\<lambda>x. x) (fst (demo_rand 1)) 100 = 12"
    "get_integer (\<lambda>x. x) (fst (demo_rand 2)) 100 = 25"
    by (simp_all add: get_integer_def demo_rand_def rand_max_def demo_floor)
  then show ?thesis
    unfolding rounds_Suc draws.simps demo_rand_steps by simp
qed

theorem client_logs_random_numbers_witness:
  "\<exists>lines st_end. client_main demo_toolkit demo_first_env demo_no_start
      (peer_poll demo_toolkit demo_first_env demo_no_start side_get side_put demo_rand_env demo_no_start random_id client_id)
      (\<lambda>obj. False) (\<lambda>obj m w. (Inr VUndefined, w)) (\<lambda>path. None) None []
      (initial_session, ((app_register_service random_generator_if (5 :: nat) initial_session, 0), ())) =
    Some (None, VU32 0 # VU32 12 # VU32 25 # lines, st_end)"
proof -
  have ok: "double_ok (\<lambda>x. x)" "\<forall>k. fst (demo_rand k) \<le> rand_max"
    by (simp_all add: double_ok_id demo_rand_def rand_max_def)
  have env: "\<forall>name d. env_invoke demo_rand_env 5 name d =
      on_world (pbus_invoke demo_toolkit (random_impl (\<lambda>x. x) demo_rand) random_generator_if name d)"
    and first: "env_devel demo_first_env" "\<forall>ss k x. env_connect demo_first_env (get_socket_path demo_toolkit True random_id) ((ss, k), x) =
      (case local_bus_accept demo_toolkit True (Some 17) demo_exe ss of (e, ss1) \<Rightarrow> (e, ((ss1, k), x)))"
    and exe: "demo_exe (''/proc/'' @ dec 17 @ ''/exe'') = Inr (''/packages'' @ ''/'' @ class_id_to_string demo_toolkit client_id)"
    by (simp_all add: demo_rand_env_def demo_first_env_def demo_exe_def)
  have len: "length (invoke_payload demo_toolkit random_object ''getInteger'' [VU32 100]) < 2 ^ 32"
    "\<forall>n d. length (answer_payload demo_toolkit n (Inr (VU32 d))) < 2 ^ 32"
    by (simp_all add: invoke_payload_def answer_payload_def result_payload_def object_id_write_def class_id_write_def
        length_demo_put random_generator_if_def)
  from client_logs_random_numbers [where notify = id and k = 0 and x = "()" and E = demo_first_env and start = demo_no_start and start_s = demo_no_start
      and argv = "[]" and listen = "\<lambda>path. None" and listen_s = "\<lambda>path. None" and implements = "\<lambda>obj. False" and obj = 5
      and local_call = "\<lambda>obj m w. (Inr VUndefined, w)",
      OF demo_le_ok demo_buf_ok demo_bson_ok demo_poll_ok demo_fmt_ok ok env refl first exe refl len, THEN conjunct2, THEN conjunct1]
  show ?thesis
    unfolding demo_first_lines id_apply by auto
qed

end
