(* ===== verification/Cold_Start.thy ===== *)
theory Cold_Start
  imports Whole_System Service_Startup
begin

text \<open>
  The three programs of the repository together: the client is started while only the service manager
  runs. Its first request has the manager start the random number service; the client then connects
  to it and goes on as in \<open>Whole_System\<close>.
\<close>

section \<open>Two processes in the client's world\<close>

text \<open>The manager is the first part of the world, the service the second.\<close>

definition beside_get :: "'a \<times> ('p, 'w) state \<times> 'x \<Rightarrow> ('p, 'w) state option" where
  "beside_get v = Some (fst (snd v))"

definition beside_put :: "('p, 'w) state \<Rightarrow> 'a \<times> ('p, 'w) state \<times> 'x \<Rightarrow> 'a \<times> ('p, 'w) state \<times> 'x" where
  "beside_put p v = (fst v, (p, snd (snd v)))"

interpretation beside: peer_world beside_get beside_put
  by unfold_locales (simp_all add: beside_get_def beside_put_def)

text \<open>A poll on two connections: if nothing happens on the first one, the events of the second are delivered.\<close>

definition either_poll :: "('s \<Rightarrow> (exn + nat) \<times> 's) \<Rightarrow> ('s \<Rightarrow> (exn + nat) \<times> 's) \<Rightarrow> 's \<Rightarrow> (exn + nat) \<times> 's" where
  "either_poll p q st =
     (case p st of
        (Inl e, st1) \<Rightarrow> (Inl e, st1)
      | (Inr n, st1) \<Rightarrow> if n = 0 then q st1 else (Inr n, st1))"

lemma either_poll_first: "fst (p st) \<noteq> Inr 0 \<Longrightarrow> either_poll p q st = p st"
  by (cases "p st") (auto simp: either_poll_def split: sum.split)

lemma either_poll_second: "p st = (Inr 0, st) \<Longrightarrow> either_poll p q st = q st"
  by (simp add: either_poll_def)

text \<open>A process that has not accepted the client has no events for it.\<close>

lemma peer_poll_quiet:
  assumes "ss_connections s server = Some c" and "\<not> conn_out c" and "get v = Some p" and "ss_connections (fst p) client = None"
  shows "peer_poll T E start get put Ep startp server client (s, v) = (Inr 0, (s, v))"
  using assms by (simp add: peer_poll_def)

section \<open>The call that starts the service\<close>

lemma register_proxies_conns:
  "register_proxies service_manager_if (s\<lparr>ss_connections := C\<rparr>) = (register_proxies service_manager_if s)\<lparr>ss_connections := C\<rparr>"
  by (simp add: register_proxies_def service_manager_if_def register_proxy_def split: idl_interface.split)

lemma start_call_connects:
  assumes "fmt_ok T" and "poll_ok T" and "ss_services s service_manager_id = None" and "ss_connections s service_manager_id = None"
    and "env_connect E (get_socket_path T (env_devel E) service_manager_id) w = (None, w1)"
  shows "start_call T E B start i (s, w) = start_call T E B start i
    (s\<lparr>ss_connections := (ss_connections s)(service_manager_id \<mapsto> mk_accepted_connection service_manager_id)\<rparr>, w1)"
proof -
  let ?p = "create_proxy service_manager_id (mk_object_id service_manager_id 0)"
  have get: "get_service T (bt_implements B) service_manager_if s = (Inr (Remote_Service ?p), register_proxies service_manager_if s)"
    if "ss_services s service_manager_id = None" for s :: "'a session"
    using get_service_proxy [OF assms(1), of service_manager_if s "bt_implements B"] that by simp
  have "co_origin ?p = service_manager_id"
    by (simp add: create_proxy_def)
  with call_connects [OF assms(2), of "register_proxies service_manager_if s" ?p E w w1] assms(4,5)
  show ?thesis
    by (simp add: start_call_def get assms(3) register_proxies_conns)
qed

lemma client_manager_ids [simp]: "random_id \<noteq> service_manager_id" "service_manager_id \<noteq> random_id"
  by (simp_all add: random_generator_if_def service_manager_id_def)

text \<open>
  The start of the service from a session that is connected to nobody: \<open>s\<close> has only the connection that
  is being made.
\<close>

lemma service_starts:
  assumes T: "le_ok T" "buf_ok T" "bson_ok T" "poll_ok T" "fmt_ok T"
    and s: "ss_connections s = [random_id \<mapsto> (mk_connection random_id)\<lparr>conn_socket := Some Unconnected\<rparr>]"
      "ss_services s service_manager_id = None"
    and Em: "\<forall>d. env_invoke Em objm ''start'' d = on_world (pbus_invoke T (manager_impl T (script_os pid)) service_manager_if ''start'' d)"
    and ev: "pid \<noteq> -1" "first_decisive pid es = Some (ev, rest)" "start_outcome T random_id pid ev = None"
    and E: "env_connect E (get_socket_path T (env_devel E) service_manager_id) ((sm, es), ((ss, k), x)) =
      (None, ((add_connection client_id (mk_accepted_connection client_id) sm, es), ((ss, k), x)))"
    and sm: "sm = app_register_service service_manager_if objm initial_session" and ss: "ss_connections ss = Map.empty"
    and poll: "bt_poll B E start = either_poll (peer_poll T E start beside_get beside_put Es start_s random_id client_id)
      (peer_poll T E start side_get side_put Em start_m service_manager_id client_id)"
    and len: "length (invoke_payload T (mk_object_id service_manager_id 0) ''start'' [VString (Name random_id), VU16 1]) < 2 ^ 32"
      "length (answer_payload T 0 (Inr VUndefined)) < 2 ^ 32"
  shows "\<exists>s_end sm_end. start_call T E B start random_id (s, ((sm, es), ((ss, k), x))) =
      Some (None, (s_end, ((sm_end, rest), ((ss, k), x)))) \<and>
    ss_connections s_end random_id = Some ((mk_connection random_id)\<lparr>conn_socket := Some Unconnected\<rparr>)"
proof -
  let ?cm = "mk_accepted_connection service_manager_id" and ?cb = "mk_accepted_connection client_id"
  let ?s = "s\<lparr>ss_connections := (ss_connections s)(service_manager_id \<mapsto> ?cm)\<rparr>"
  let ?sm = "add_connection client_id ?cb sm"
  have "start_call T E B start random_id (s, ((sm, es), ((ss, k), x))) =
      start_call T E B start random_id (?s, ((?sm, es), ((ss, k), x)))"
    by (rule start_call_connects [OF T(5,4) s(2) _ E]) (simp add: s(1))
  moreover have quiet: "\<forall>s' p. (\<forall>j. j \<noteq> service_manager_id \<longrightarrow> ss_connections s' j = ss_connections ?s j) \<longrightarrow>
      fst (peer_poll T E start side_get side_put Em start_m service_manager_id client_id (s', (p, ((ss, k), x)))) \<noteq> Inr 0 \<longrightarrow>
      bt_poll B E start (s', (p, ((ss, k), x))) =
        peer_poll T E start side_get side_put Em start_m service_manager_id client_id (s', (p, ((ss, k), x)))"
    unfolding poll
    by (auto intro!: either_poll_second peer_poll_quiet simp: s(1) ss beside_get_def mk_connection_def)
  moreover obtain sm0 where found: "find_local_object (mk_object_id service_manager_id 0) ?sm = (Some objm, sm0)"
    using registered_accepts(3) [of service_manager_if objm] by (auto simp: sm)
  moreover have conns: "idle_conn T ?s service_manager_id ?cm" "ss_services ?s service_manager_id = None" "idle_conn T ?sm client_id ?cb"
      "length (answer_payload T (conn_write_serial ?cm) (start_result (start_outcome T random_id pid ev))) < 2 ^ 32"
    using len(2) registered_accepts(2) [of T service_manager_if objm]
    by (simp_all add: idle_accepted s(2) sm ev(3) start_result_def)
  moreover from start_call_live [where E = E and start = start and B = B and start_m = start_m and i = random_id and x = "((ss, k), x)",
      OF T conns(1,2) random_ids(1,2) conns(3) fresh_serials found Em ev(1,2) quiet len(1) conns(4)]
  obtain s_end cm_end sm_end where "start_call T E B start random_id (?s, ((?sm, es), ((ss, k), x))) =
      Some (None, (s_end, ((sm_end, rest), ((ss, k), x))))" "ss_connections s_end = (ss_connections ?s)(service_manager_id \<mapsto> cm_end)"
    unfolding ev(3) option.map by blast
  ultimately have "start_call T E B start random_id (s, ((sm, es), ((ss, k), x))) =
      Some (None, (s_end, ((sm_end, rest), ((ss, k), x))))" "ss_connections s_end = (ss_connections ?s)(service_manager_id \<mapsto> cm_end)"
    by simp_all
  then show ?thesis
    by (simp add: s(1))
qed

text \<open>The client's first send, at any depth of nesting.\<close>

lemma first_send_starts:
  fixes E :: "('o, (('m, event option list) state) \<times> ('p, 'k) state \<times> 'x) env"
  assumes T: "le_ok T" "buf_ok T" "bson_ok T" "poll_ok T" "fmt_ok T"
    and Em: "\<forall>d. env_invoke Em objm ''start'' d = on_world (pbus_invoke T (manager_impl T (script_os pid)) service_manager_if ''start'' d)"
    and ev: "pid \<noteq> -1" "first_decisive pid es = Some (ev, rest)" "start_outcome T random_id pid ev = None"
    and manager: "env_connect (env_depth T E B other n) (get_socket_path T (env_devel (env_depth T E B other n)) service_manager_id)
        ((sm, es), ((ss, k), x)) = (None, ((add_connection client_id (mk_accepted_connection client_id) sm, es), ((ss, k), x)))"
    and fails: "env_connect (env_depth T E B other n) (get_socket_path T (env_devel (env_depth T E B other n)) random_id)
        ((sm, es), ((ss, k), x)) = (Some e, ((sm, es), ((ss, k), x)))"
    and works: "\<And>sm. env_connect (env_depth T E B other n) (get_socket_path T (env_devel (env_depth T E B other n)) random_id)
        ((sm, rest), ((ss, k), x)) = (None, ((sm, rest), ((add_connection client_id (mk_accepted_connection client_id) ss, k), x)))"
    and sm: "sm = app_register_service service_manager_if objm initial_session"
    and ss: "ss = app_register_service random_generator_if obj initial_session"
    and poll: "bt_poll B (env_depth T E B other n) (start_depth T E B other n) = either_poll
      (peer_poll T (env_depth T E B other n) (start_depth T E B other n) beside_get beside_put Es start_s random_id client_id)
      (peer_poll T (env_depth T E B other n) (start_depth T E B other n) side_get side_put Em start_m service_manager_id client_id)"
    and len: "length (invoke_payload T (mk_object_id service_manager_id 0) ''start'' [VString (Name random_id), VU16 1]) < 2 ^ 32"
      "length (answer_payload T 0 (Inr VUndefined)) < 2 ^ 32"
  shows "\<exists>s2 sm2. (\<forall>data. session_send T (env_depth T E B other n) (start_depth T E B other (Suc n)) random_id data
        (register_proxies random_generator_if initial_session, ((sm, es), ((ss, k), x))) =
      session_send T (env_depth T E B other n) (start_depth T E B other (Suc n)) random_id data
        (s2, ((sm2, rest), ((add_connection client_id (mk_accepted_connection client_id) ss, k), x)))) \<and>
    ss_connections s2 random_id = Some (mk_accepted_connection random_id)"
proof -
  let ?s = "register_proxies random_generator_if initial_session :: 'o session" and ?u = "(mk_connection random_id)\<lparr>conn_socket := Some Unconnected\<rparr>"
    and ?E = "env_depth T E B other n" and ?start = "start_depth T E B other (Suc n)"
  let ?s1 = "?s\<lparr>ss_connections := (ss_connections ?s)(random_id \<mapsto> ?u)\<rparr>"
  have tables: "ss_connections ?s1 = [random_id \<mapsto> ?u]" "ss_services ?s1 service_manager_id = None" "ss_connections ss = Map.empty"
      "ss_connections ?s random_id = None"
    by (simp_all add: ss registered_accepts(1) initial_session_tables)
  from service_starts [OF T tables(1,2) Em ev manager sm tables(3) poll len] obtain s2 sm2 where
    "start_call T ?E B (start_depth T E B other n) random_id (?s1, ((sm, es), ((ss, k), x))) =
      Some (None, (s2, ((sm2, rest), ((ss, k), x))))" and u: "ss_connections s2 random_id = Some ?u"
    by blast
  then have "?start random_id (?s1, ((sm, es), ((ss, k), x))) = (None, (s2, ((sm2, rest), ((ss, k), x))))"
    by simp
  from send_starts [where start = ?start, OF T(4) tables(4) client_manager_ids(1) fails this u works] show ?thesis
    by (intro exI [of _ "s2\<lparr>ss_connections := (ss_connections s2)(random_id \<mapsto> mk_accepted_connection random_id)\<rparr>"] exI [of _ sm2])
      simp
qed

section \<open>Properties\<close>

text \<open>
  C3: the system works from a cold start. Only the service manager runs, in the state in which its
  \<^verbatim>\<open>main\<close> begins to poll; the random number service can be reached from the moment on at which the
  manager has taken the start signal of its child from its pipe, and is then in the state in which its
  \<^verbatim>\<open>main\<close> begins to poll. The client program, started with an empty session, fails to connect to the
  service, connects to the manager, has it start the service, connects, logs 1000 numbers, which are the
  service's draws, each at most 100, and ends without an exception. It does so at any depth \<open>n\<close> of nested
  calls.
\<close>

theorem client_starts_service:
  fixes E :: "('o, ('m, event option list) state \<times> ('p, 'k) state \<times> 'x) env"
    and n :: nat and other :: "('o, ('m, event option list) state \<times> ('p, 'k) state \<times> 'x) start_fun"
  assumes "le_ok T" and "buf_ok T" and "bson_ok T" and "poll_ok T" and "fmt_ok T"
    and "double_ok rnd" and "\<forall>k. fst (rand k) \<le> rand_max"
    and "\<forall>name d. env_invoke Es obj name d = on_world (pbus_invoke T (random_impl rnd rand) random_generator_if name d)"
    and "\<forall>d. env_invoke Em objm ''start'' d = on_world (pbus_invoke T (manager_impl T (script_os pid)) service_manager_if ''start'' d)"
    and "pid \<noteq> -1" and "first_decisive pid es = Some (ev, rest)" and "start_outcome T random_id pid ev = None"
    and "env_devel E" and "\<forall>sm m v. env_connect E (get_socket_path T True service_manager_id) ((sm, m), v) =
      (case local_bus_accept T True (Some client_pid) read_link sm of (e, sm1) \<Rightarrow> (e, ((sm1, m), v)))"
    and "\<forall>sm v. env_connect E (get_socket_path T True random_id) ((sm, es), v) = (Some e, ((sm, es), v))"
    and "\<forall>sm ss k x. env_connect E (get_socket_path T True random_id) ((sm, rest), ((ss, k), x)) =
      (case local_bus_accept T True (Some client_pid) read_link ss of (e, ss1) \<Rightarrow> (e, ((sm, rest), ((ss1, k), x))))"
    and "read_link (''/proc/'' @ dec client_pid @ ''/exe'') = Inr (dir @ ''/'' @ class_id_to_string T client_id)"
    and "\<forall>E start. bt_poll B E start = either_poll (peer_poll T E start beside_get beside_put Es start_s random_id client_id)
      (peer_poll T E start side_get side_put Em start_m service_manager_id client_id)"
    and "listen (get_socket_path T True client_id) = None"
    and "length (invoke_payload T (mk_object_id service_manager_id 0) ''start'' [VString (Name random_id), VU16 1]) < 2 ^ 32"
    and "length (answer_payload T 0 (Inr VUndefined)) < 2 ^ 32"
    and "length (invoke_payload T random_object ''getInteger'' [VU32 100]) < 2 ^ 32"
    and "\<forall>n d. length (answer_payload T n (Inr (VU32 d))) < 2 ^ 32"
  defines "manager \<equiv> app_register_service service_manager_if objm initial_session"
    and "service \<equiv> app_register_service random_generator_if obj initial_session"
    and "En \<equiv> env_depth T E B other n" and "start \<equiv> start_depth T E B other (Suc n)"
  shows "(\<exists>s1 sm1 ss1. client_main T En start (bt_poll B En start) implements local_call listen None argv
        (initial_session, ((manager, es), ((service, k), x))) =
      Some (None, map VU32 (draws rnd rand client_rounds k), (s1, ((sm1, rest), ((ss1, drawn rand client_rounds k), x))))) \<and>
    length (draws rnd rand client_rounds k) = 1000 \<and> list_all (\<lambda>d. d \<le> 100) (draws rnd rand client_rounds k)"
proof (intro conjI)
  let ?s = "register_proxies random_generator_if initial_session :: 'o session" and ?u = "(mk_connection random_id)\<lparr>conn_socket := Some Unconnected\<rparr>"
    and ?ss = "add_connection client_id (mk_accepted_connection client_id) service"
  show "length (draws rnd rand client_rounds k) = 1000" "list_all (\<lambda>d. d \<le> 100) (draws rnd rand client_rounds k)"
    using draws_range [OF assms(6,7)] by (simp_all add: client_rounds_def)
  note accepts = client_accepted [where read_link = read_link and pid = client_pid, OF assms(5,4,17)]
  have connects: "env_connect En (get_socket_path T (env_devel En) service_manager_id) ((manager, es), ((service, k), x)) =
      (None, ((add_connection client_id (mk_accepted_connection client_id) manager, es), ((service, k), x)))"
    "env_connect En (get_socket_path T (env_devel En) random_id) ((manager, es), ((service, k), x)) =
      (Some e, ((manager, es), ((service, k), x)))"
    "\<And>sm. env_connect En (get_socket_path T (env_devel En) random_id) ((sm, rest), ((service, k), x)) =
      (None, ((sm, rest), ((?ss, k), x)))"
    using assms(13-16) by (simp_all add: En_def accepts)
  have polls: "bt_poll B En (start_depth T E B other n) = either_poll
      (peer_poll T En (start_depth T E B other n) beside_get beside_put Es start_s random_id client_id)
      (peer_poll T En (start_depth T E B other n) side_get side_put Em start_m service_manager_id client_id)"
    using assms(18) by simp
  from first_send_starts [OF assms(1-5) assms(9-12) connects [unfolded En_def] manager_def [THEN meta_eq_to_obj_eq]
      service_def [THEN meta_eq_to_obj_eq] polls [unfolded En_def] assms(20,21)]
  obtain s2 sm2 where send: "\<And>data. session_send T En start random_id data (?s, ((manager, es), ((service, k), x))) =
      session_send T En start random_id data (s2, ((sm2, rest), ((?ss, k), x)))"
    and s2: "ss_connections s2 random_id = Some (mk_accepted_connection random_id)"
    unfolding start_def En_def by blast
  have get: "beside_get ((sm2, rest), ((?ss, k), x)) = Some (?ss, k)" and devel: "env_devel En"
    using assms(13) by (simp_all add: beside_get_def En_def)
  have poll: "\<forall>st. fst (peer_poll T En start beside_get beside_put Es start_s random_id client_id st) \<noteq> Inr 0 \<longrightarrow>
      bt_poll B En start st = peer_poll T En start beside_get beside_put Es start_s random_id client_id st"
    using assms(18) by (simp add: either_poll_first)
  from beside.client_runs [where poll = "bt_poll B En start" and E = En and start = start and listen = listen and start_s = start_s
      and implements = implements and local_call = local_call and argv = argv,
      OF assms(1-5) send accepted_between_calls [OF s2, of T obj, folded service_def] get devel assms(19,8,22,23) poll]
  show "\<exists>s1 sm1 ss1. client_main T En start (bt_poll B En start) implements local_call listen None argv
        (initial_session, ((manager, es), ((service, k), x))) =
      Some (None, map VU32 (draws rnd rand client_rounds k), (s1, ((sm1, rest), ((ss1, drawn rand client_rounds k), x))))"
    by (auto simp: beside_put_def)
qed

text \<open>
  For the witness: the manager's child signals at once that it has started, and can be reached when the
  manager has no event left to read.
\<close>

type_synonym cold_world = "(nat, event option list) state \<times> (nat, nat) state \<times> unit"

definition demo_cold_env :: "(nat, cold_world) env" where
  "demo_cold_env = \<lparr>env_connect = (\<lambda>path v. case v of ((sm, m), ((ss, k), x)) \<Rightarrow>
       if path = get_socket_path demo_toolkit True service_manager_id
       then (case local_bus_accept demo_toolkit True (Some 17) demo_exe sm of (e, sm1) \<Rightarrow> (e, ((sm1, m), ((ss, k), x))))
       else if m = [] then (case local_bus_accept demo_toolkit True (Some 17) demo_exe ss of (e, ss1) \<Rightarrow> (e, ((sm, m), ((ss1, k), x))))
       else (Some (System_Exception ''connect''), v)),
     env_invoke = (\<lambda>obj m d. on_world (\<lambda>v. (Inl (Exception ''no object''), v))), env_devel = True\<rparr>"

definition demo_cold_boot :: "(nat, cold_world) boot" where
  "demo_cold_boot = \<lparr>bt_implements = (\<lambda>obj. False), bt_local_start = (\<lambda>obj name version w. (None, w)),
     bt_poll = (\<lambda>E start. either_poll
       (peer_poll demo_toolkit E start beside_get beside_put demo_rand_env demo_no_start random_id client_id)
       (peer_poll demo_toolkit E start side_get side_put demo_manager_env demo_no_start service_manager_id client_id)),
     bt_invoke = (\<lambda>E start obj m d. on_world (\<lambda>v. (Inl (Exception ''no object''), v)))\<rparr>"

theorem client_starts_service_witness:
  "\<exists>lines st_end. client_main demo_toolkit (env_depth demo_toolkit demo_cold_env demo_cold_boot demo_no_start 1)
      (start_depth demo_toolkit demo_cold_env demo_cold_boot demo_no_start 2)
      (bt_poll demo_cold_boot (env_depth demo_toolkit demo_cold_env demo_cold_boot demo_no_start 1)
        (start_depth demo_toolkit demo_cold_env demo_cold_boot demo_no_start 2))
      (\<lambda>obj. False) (\<lambda>obj m w. (Inr VUndefined, w)) (\<lambda>path. None) None []
      (initial_session, ((app_register_service service_manager_if (5 :: nat) initial_session, [Some (on_sig_usr2 100)]),
        ((app_register_service random_generator_if (5 :: nat) initial_session, 0), ()))) =
    Some (None, VU32 0 # VU32 12 # VU32 25 # lines, st_end)"
proof -
  let ?es = "[Some (on_sig_usr2 100)]"
  have ok: "double_ok (\<lambda>x. x)" "\<forall>k. fst (demo_rand k) \<le> rand_max"
    by (simp_all add: double_ok_id demo_rand_def rand_max_def)
  have envs: "\<forall>name d. env_invoke demo_rand_env 5 name d =
      on_world (pbus_invoke demo_toolkit (random_impl (\<lambda>x. x) demo_rand) random_generator_if name d)"
    "\<forall>d. env_invoke demo_manager_env 5 ''start'' d =
      on_world (pbus_invoke demo_toolkit (manager_impl demo_toolkit (script_os 100)) service_manager_if ''start'' d)"
    by (simp_all add: demo_rand_env_def demo_manager_env_def)
  have start: "(100 :: int) \<noteq> -1" "first_decisive 100 ?es = Some (on_sig_usr2 100, [])"
    "start_outcome demo_toolkit random_id 100 (on_sig_usr2 100) = None"
    by (simp_all add: start_outcome_def decisive_def on_sig_usr2_def)
  have path: "get_socket_path demo_toolkit True random_id \<noteq> get_socket_path demo_toolkit True service_manager_id"
    by (simp add: get_socket_path_inject)
  have connect: "env_devel demo_cold_env"
    "\<forall>sm m v. env_connect demo_cold_env (get_socket_path demo_toolkit True service_manager_id) ((sm, m), v) =
      (case local_bus_accept demo_toolkit True (Some 17) demo_exe sm of (e, sm1) \<Rightarrow> (e, ((sm1, m), v)))"
    "\<forall>sm v. env_connect demo_cold_env (get_socket_path demo_toolkit True random_id) ((sm, ?es), v) =
      (Some (System_Exception ''connect''), ((sm, ?es), v))"
    "\<forall>sm ss k x. env_connect demo_cold_env (get_socket_path demo_toolkit True random_id) ((sm, []), ((ss, k), x)) =
      (case local_bus_accept demo_toolkit True (Some 17) demo_exe ss of (e, ss1) \<Rightarrow> (e, ((sm, []), ((ss1, k), x))))"
    by (simp_all add: demo_cold_env_def path)
  have exe: "demo_exe (''/proc/'' @ dec 17 @ ''/exe'') = Inr (''/packages'' @ ''/'' @ class_id_to_string demo_toolkit client_id)"
    by (simp add: demo_exe_def)
  have polls: "\<forall>E start. bt_poll demo_cold_boot E start = either_poll
      (peer_poll demo_toolkit E start beside_get beside_put demo_rand_env demo_no_start random_id client_id)
      (peer_poll demo_toolkit E start side_get side_put demo_manager_env demo_no_start service_manager_id client_id)"
    by (simp add: demo_cold_boot_def)
  have len: "length (invoke_payload demo_toolkit (mk_object_id service_manager_id 0) ''start'' [VString (Name random_id), VU16 1]) < 2 ^ 32"
    "length (answer_payload demo_toolkit 0 (Inr VUndefined)) < 2 ^ 32"
    "length (invoke_payload demo_toolkit random_object ''getInteger'' [VU32 100]) < 2 ^ 32"
    "\<forall>n d. length (answer_payload demo_toolkit n (Inr (VU32 d))) < 2 ^ 32"
    by (simp_all add: invoke_payload_def answer_payload_def result_payload_def object_id_write_def class_id_write_def
        length_demo_put length_demo_put_more random_generator_if_def service_manager_id_def)
  have two: "(2 :: nat) = Suc 1" by simp
  from client_starts_service [where k = 0 and x = "()" and E = demo_cold_env and start_s = demo_no_start and start_m = demo_no_start and n = 1
      and other = demo_no_start and argv = "[]" and listen = "\<lambda>path. None" and implements = "\<lambda>obj. False" and obj = 5 and objm = 5
      and local_call = "\<lambda>obj m w. (Inr VUndefined, w)",
      OF demo_le_ok demo_buf_ok demo_bson_ok demo_poll_ok demo_fmt_ok ok envs start connect exe polls refl len, THEN conjunct1]
  show ?thesis
    unfolding two demo_first_lines by auto
qed

end
