(* ===== verification/Spec2Isabelle.thy ===== *)
theory Spec2Isabelle
  imports Object_Id Response_Parser Bus_Link Conn_Race Session_Inv Session_Rpc Session_Input Bus_Network Idl Remote_Call
    Session_Start Local_Bus Service_Manager Random_Generator
    Id_Tables Service_Registry Service_Startup Manager_Pipe Programs Nested_Calls Call_Chain Reconnect Release
    Whole_System Cold_Start
begin

text \<open>
  p-bus is an inter-process message bus. Every process has one \<^verbatim>\<open>Session\<close>; two processes are
  connected directly by a unix socket, at each end a \<^verbatim>\<open>LocalBusConnection\<close>. A client calls a method
  of a remote object on a proxy that the IDL compiler has generated; the call becomes a message, the
  generated dispatch of the server calls the implementation, and its result or exception is the
  answer. A service that does not run is started by the service manager, itself a service, in a
  sandbox of its own. This development models the C++ of the repository (paths are relative to
  src/src) and proves what makes it correct, and where it is not.

  The program and the theories that model it, bottom up:

  \<^item> \<open>Pbus_Prelude\<close>: exceptions (\<open>exn\<close>), decimal numbers, what is used of the C++ library (\<^verbatim>\<open>rfind\<close>,
    \<^verbatim>\<open>atoi\<close>, \<^verbatim>\<open>stoi\<close>, \<^verbatim>\<open>emplace\<close>), lemmas on words and lists. \<open>Toolkit\<close>: the toolkit library as the
    parameter record \<open>toolkit\<close>. \<open>Sys_Io\<close>: functions of an operating system that record their calls
    and whether each of them succeeded.
  \<^item> \<open>Hash_Table\<close>, \<open>Class_Id\<close>, \<open>Object_Id\<close>, \<open>Pbus_String\<close>, \<open>Id_Tables\<close>: the identifiers (lib/pbus/ClassId.h,
    ClassId.cpp, ObjectId.h, ObjectId.cpp, MethodId.h), \<^verbatim>\<open>String\<close> and \<^verbatim>\<open>MethodDescriptor\<close>, the factories
    of ComponentFactory.h, and hash tables keyed by them. The other theories model the tables of the
    program by maps; \<open>Id_Tables\<close> justifies it. \<open>Service_Registry\<close>: the registry of the service manager.
  \<^item> \<open>Response_Parser\<close>: the slot for the answer to a call (ResponseParser.h).
  \<^item> \<open>Frame_Reader\<close>, \<open>Bus_Connection\<close>: the read and write tasks, the queue and the serials of
    \<^verbatim>\<open>LocalBusConnection\<close> and its event handler, as far as it concerns the connection alone
    (LocalBusConnection.h and .cpp). \<open>Bus_Link\<close>: one direction of a socket, \<open>link_step\<close>. \<open>Conn_Race\<close>:
    \<^verbatim>\<open>Send\<close> in one thread and an output event in another.
  \<^item> \<open>Session\<close>: the state and all operations of \<^verbatim>\<open>Session\<close> (Session.h and .cpp), \<^verbatim>\<open>Connect\<close> and the event
    handler of a connection as a whole. \<open>Session_Inv\<close>: its operations as steps, and its invariants.
    \<open>Session_Rpc\<close>: what becomes of requests, answers and waiting callers. \<open>Session_Input\<close>: the input of
    a connection together with the session that handles it.
  \<^item> \<open>Idl\<close>: what the templates of the IDL compiler generate (tools/idl/idl/lang/cpp), the core objects and
    \<^verbatim>\<open>GetService\<close>. \<open>Remote_Call\<close>: the two ends of a call, proxy and server. \<open>Live_Peer\<close>: both together, the
    server as a process in the world of its caller, which runs while the caller polls.
  \<^item> \<open>Bus_Handling\<close>, \<open>Bus_System\<close>, \<open>Bus_Calls\<close>: two processes that call each other over one connection,
    \<open>bus_step\<close>, under every interleaving of calls, partial writes and partial reads, and whatever they do
    elsewhere. \<open>Bus_Network\<close>: any number of processes, \<open>net_step\<close>, whose sessions have connections to
    several others.
  \<^item> \<open>Nested_Calls\<close>: calls made while a call is being handled. \<open>Call_Chain\<close>: chains of any number of
    services, each of which calls the next one to answer. \<open>Reconnect\<close>: what a hangup leaves behind, in
    the bytes of the connection and in its serials. \<open>Release\<close>: the end of a proxy, from its destructor
    (idl/core/CoreObject.cpp) to the answer to its release request.
  \<^item> \<open>Session_Start\<close>: \<^verbatim>\<open>Connect\<close> with the call that has a service started; sending, polling and starting
    may nest. \<open>Local_Bus\<close>: \<^verbatim>\<open>LocalBus\<close> and \<^verbatim>\<open>Application\<close>.
  \<^item> \<open>Service_Manager\<close>: services/system/servicemanager, the manager and the sandbox of a service.
    \<open>Manager_Pipe\<close>: its signals over several calls. \<open>Service_Startup\<close>: a client that sends to a service that is not running, the manager it
    calls, and the answer. \<open>Random_Generator\<close> and \<open>Programs\<close>: the method of the random number service,
    and \<^verbatim>\<open>main\<close> of the services and of client/client.cpp. \<open>Whole_System\<close>: the client program run
    against the service program, from their initial states. \<open>Cold_Start\<close>: the same when only the manager
    runs, so that the client's first request has it start the service.

  How the code is represented. Classes are records, tables maps (\<open>None\<close> for a missing key), unsigned
  integers words of their width, so that the serials and versions wrap around as they do in the code,
  containers lists. A function that may throw returns \<open>exn + 'a\<close> or, where the state it has changed
  so far remains visible, an \<open>exn option\<close> beside the new state. The state of a process is a pair of its
  session and its world \<open>'w\<close>, on which the system calls act (\<open>env\<close>, \<open>os\<close>, \<open>manager_os\<close>). The
  implementation of a method (\<open>env_invoke\<close>) acts on the whole state: it may call other services on their
  proxies and wait for their answers, which polls, so that other messages are handled inside it; one that
  uses only the world is lifted by \<open>on_world\<close>. What \<^verbatim>\<open>Connect\<close> calls to start a service is an argument
  \<open>start\<close> of the operations of the session. The recursion through the poll is cut there: the environment
  and \<open>start\<close> are parameters, and \<open>nested\<close> of \<open>Session_Start\<close> builds them for the program, to any depth.
  Where a theorem is about one connection it assumes \<open>spares\<close>: the implementations do not use this very
  connection themselves. What happens when they do is \<open>nested_poll_repeats_request\<close>.

  What is proved, in groups:

  \<^item> Framing: the read loop computes the frames of a specification (\<open>split_frames\<close>) whatever the chunks
    are in which the bytes arrive; on a connection it hands exactly these to the session, in order,
    whatever the session does with them. The queue loses, repeats and reorders nothing and drains.
    Composed: one direction of a connection delivers a prefix of the messages sent under the serials
    that \<^verbatim>\<open>Send\<close> has returned, and everything if it is let run.
  \<^item> Calls: dispatch calls the right method once and answers every request exactly once; one call has
    the effect and the result of a local call; in a system of two processes that call each other
    concurrently, each direction implements the abstract link, a call gets at most the one answer that
    belongs to it, and if nothing is in transit every call has its answer. A network of any number of
    processes refines the system of two for every pair of them, so that the same holds there. A chain of
    services that call each other to answer is as transparent as its methods calling each other directly,
    for any length of the chain and any sequence of calls.
  \<^item> Programs: the example client, run against the random number service, connects, is accepted, logs 1000
    numbers that are the service's draws, each at most 100, and ends. It does the same if it is started
    while only the service manager runs: all three programs together. A service is ready when it says so.
  \<^item> The session: connections stay filed under the service they lead to, response parsers hold values of
    their types, local objects stay; waiting returns the answer or ends with an exception.
  \<^item> The service manager: a service is executed only inside its sandbox, after exactly the configured
    binds, all of which the operating system has carried out; the child stops at the first call that
    fails; the outcome of \<^verbatim>\<open>start\<close> is the first decisive signal; a client's send to a service that is not running is put
    through, or fails with the manager's exception.
  \<^item> Errors of the code, stated as what it does: versions are lost on the way; after a reconnect the two
    ends disagree about the serials, so that a call times out although it was executed and answered, and
    the tail of a message that was cut is read as a message; a method that polls is executed again when
    its client's next request arrives, and the answers are shifted; a destroyed proxy releases nothing; an
    early answer is lost, an entry of the request table is never removed, a wakeup is lost between two
    threads, one failed attempt to connect is final, two clients of one binary displace each other, a
    foreign signal breaks every later start.

  Interfaces are locales: \<open>hashed_key\<close> and \<open>identifying_key\<close> (keys of hash tables), \<open>response_slot\<close> (what a
  waiting caller may rely on), \<open>stream_receiver\<close> (a receiver of bytes in chunks), \<open>peer_world\<close> (a world that
  holds another process: alone, beside a second one, or as the first of a chain),
  \<open>session_invariant\<close> (a predicate that the operations of the session keep, and with them every composite
  operation). All are interpreted on the definitions of the model.

  Bounds and loops. The recursive functions are total, with measures on the bytes left to read
  (\<open>read_loop\<close>, \<open>input_loop\<close>). The loops that wait (\<open>wait_response\<close>, \<open>await_start\<close>, \<open>app_loop\<close>) are
  partial functions into \<open>option\<close>: \<open>None\<close> is a loop that never ends, and there are theorems that they end
  or do not. Nested starts and nested calls are unfolded to a depth \<open>n\<close> (\<open>start_depth\<close>, \<open>env_depth\<close>)
  with the rest as a parameter; the invariants hold for every \<open>n\<close>, and a send that has a service started
  gives its result at every depth but 0, whatever the rest is. Messages are shorter than \<open>2 ^ 32\<close> bytes where a theorem says so, because
  the size field has 32 bits; serials are words, and where a theorem needs them to be distinct it says
  that fewer than \<open>2 ^ 32\<close> messages were sent.

  The toolkit is not part of the repository. What the theorems assume of it are the five predicates of
  \<open>Toolkit\<close>, of which each theorem names those it needs; \<open>demo_toolkit\<close> satisfies them all. In the same
  way \<^verbatim>\<open>text::Split\<close> is a parameter, and the system calls succeed or fail as their parameters say.

  Not modelled:

  \<^item> the toolkit (a git submodule), logging, and the text of log messages;
  \<^item> threads, except in \<open>Conn_Race\<close>: \<^verbatim>\<open>Session\<close> takes its recursive mutex for each access to its tables;
    here one operation runs at a time, as in the programs of the repository, which have one thread each,
    and operations nest where the code polls. Atomic counters are numbers;
  \<^item> the lifetime of objects: shared pointers, the destructor of a connection, which removes its socket
    from the poll and ignores exceptions, and the static instance of the session. Operations find a
    connection through the table of the session: one that is replaced there while \<^verbatim>\<open>Connect\<close> has its
    service started, or while a message of it is handled, goes on, in the model, with the connection that
    has replaced it (in the code the last pointer to it may be gone then);
  \<^item> a negative result of \<^verbatim>\<open>Socket::Write\<close> (\<open>conn_output\<close> takes the number of bytes written, or the
    exception), an exception of the constructor of a service's object (\<open>service_factory\<close> has the object),
    and exceptions of the listening socket but for \<^verbatim>\<open>Listen\<close> and its \<^verbatim>\<open>Poll::Add\<close>;
  \<^item> the kernel: which files the names in a sandbox denote after the mounts, and what the flags of the
    mounts do;
  \<^item> implementations that use the connections of the network in \<open>Bus_Network\<close>: relays are in \<open>Nested_Calls\<close>
    and \<open>Call_Chain\<close>, where one client calls at a time;
  \<^item> the memory of the manager's child: its stack is freed before it may have run, which is harmless only
    because \<^verbatim>\<open>clone\<close> without \<^verbatim>\<open>CLONE_VM\<close> copies the address space;
  \<^item> interface pointers as arguments and results of IDL methods, for which the compiler has no
    serialization, and the IDL compiler itself (Python);
  \<^item> services/system/servicemanager/Service.h and Service.cpp, a class whose constructor is declared but not
    defined; nothing uses it.
\<close>

end
